(* ===== verification/Unr_Prelude.thy ===== *)
theory Unr_Prelude
  imports Main "HOL-Library.Word" "HOL-Library.Signed_Division" "HOL-Library.Multiset"
begin

text \<open>
  Shared vocabulary of the development: machine integer types, addresses, the sequencing of
  fallible steps, and the generic facts on lists and words that the components use.

  A C function that may leave the process (a failed assertion, \<open>exit\<close>) or run into undefined
  behaviour returns a value of a sum type: \<open>Inl\<close> says how the run ended, \<open>Inr\<close> carries the
  result and the new state. \<open>res_bind\<close> is the \<open>;\<close> of such code, \<open>fold_res\<close> its \<open>for\<close> loop.
\<close>

named_theorems wf_rules \<open>well-formedness and invariant preservation of the components\<close>
named_theorems res_simps \<open>evaluation of fallible steps\<close>

type_synonym u8 = "8 word"
type_synonym u32 = "32 word"
type_synonym u64 = "64 word"

text \<open>Addresses of heap objects; the null pointer is \<open>0\<close>.\<close>

type_synonym addr = nat

text \<open>Conversion to \<open>int32_t\<close>.\<close>

definition i32 :: "int \<Rightarrow> int" where
  "i32 x = signed_take_bit 31 x"

lemma i32_id: "- (2 ^ 31) \<le> x \<Longrightarrow> x < 2 ^ 31 \<Longrightarrow> i32 x = x"
  by (simp add: i32_def signed_take_bit_int_eq_self)

section \<open>Fallible steps\<close>

definition res_bind :: "'e + 'a \<Rightarrow> ('a \<Rightarrow> 'e + 'b) \<Rightarrow> 'e + 'b" where
  "res_bind m f = (case m of Inl e \<Rightarrow> Inl e | Inr x \<Rightarrow> f x)"

lemma res_bind_Inl [simp, res_simps]: "res_bind (Inl e) f = Inl e"
  by (simp add: res_bind_def)

lemma res_bind_Inr [simp, res_simps]: "res_bind (Inr x) f = f x"
  by (simp add: res_bind_def)

lemma res_bind_eq_Inr [simp]: "res_bind m f = Inr y \<longleftrightarrow> (\<exists>x. m = Inr x \<and> f x = Inr y)"
  by (cases m) auto

lemma res_bind_eq_Inl:
  "res_bind m f = Inl e \<longleftrightarrow> m = Inl e \<or> (\<exists>x. m = Inr x \<and> f x = Inl e)"
  by (cases m) auto

lemma res_bind_assoc: "res_bind (res_bind m f) g = res_bind m (\<lambda>x. res_bind (f x) g)"
  by (cases m) auto

fun fold_res :: "('a \<Rightarrow> 's \<Rightarrow> 'e + 's) \<Rightarrow> 'a list \<Rightarrow> 's \<Rightarrow> 'e + 's" where
  "fold_res f [] s = Inr s"
| "fold_res f (x # xs) s = res_bind (f x s) (fold_res f xs)"

lemma fold_res_append [res_simps]:
  "fold_res f (xs @ ys) s = res_bind (fold_res f xs s) (fold_res f ys)"
  by (induction xs arbitrary: s) (auto simp: res_bind_def split: sum.splits)

text \<open>The invariant rule for loops.\<close>

lemma fold_res_invariant:
  assumes "fold_res f xs s = Inr s'" and "P s"
    and "\<And>x s s'. x \<in> set xs \<Longrightarrow> P s \<Longrightarrow> f x s = Inr s' \<Longrightarrow> P s'"
  shows "P s'"
  using assms
proof (induction xs arbitrary: s)
  case Nil
  then show ?case by simp
next
  case (Cons x xs)
  from Cons.prems(1) obtain t where "f x s = Inr t" and rest: "fold_res f xs t = Inr s'"
    by auto
  then have "P t" using Cons.prems(2,3) by auto
  with rest show ?case using Cons.IH Cons.prems(3) by (metis list.set_intros(2))
qed

text \<open>A loop whose every step succeeds under the invariant succeeds.\<close>

lemma fold_res_total:
  assumes "P s" and "\<And>x s. x \<in> set xs \<Longrightarrow> P s \<Longrightarrow> \<exists>s'. f x s = Inr s' \<and> P s'"
  shows "\<exists>s'. fold_res f xs s = Inr s' \<and> P s'"
  using assms
proof (induction xs arbitrary: s)
  case Nil
  then show ?case by simp
next
  case (Cons x xs)
  then obtain t where "f x s = Inr t" "P t" by (meson list.set_intros(1))
  then show ?case using Cons.IH [of t] Cons.prems(2) by auto
qed

text \<open>Steps that never fail run as a plain fold.\<close>

lemma fold_res_pure: "(\<And>x s. x \<in> set xs \<Longrightarrow> f x s = Inr (g x s)) \<Longrightarrow> fold_res f xs s = Inr (fold g xs s)"
  by (induction xs arbitrary: s) auto

section \<open>Array access\<close>

text \<open>Reading an array cell: outside the array the C program has no defined behaviour.\<close>

lemma nth_list_update_if:
  "i < length xs \<Longrightarrow> xs[j := x] ! i = (if i = j then x else xs ! i)"
  by auto

lemma sum_list_update_add:
  fixes xs :: "nat list"
  shows "i < length xs \<Longrightarrow> sum_list (xs[i := xs ! i + d]) = sum_list xs + d"
  by (induction xs arbitrary: i) (auto split: nat.splits)

section \<open>Arithmetic of ring indices\<close>

lemma mod_add_inj:
  fixes s :: int
  assumes "0 < s" "0 \<le> i" "i < s" "0 \<le> j" "j < s" "(h + i) mod s = (h + j) mod s"
  shows "i = j"
proof -
  have "i mod s = j mod s"
    using assms(6) by (metis add_diff_cancel_left' mod_diff_left_eq)
  then show ?thesis using assms by simp
qed

lemma mod_wrap_neg:
  fixes x m :: int
  assumes "- m \<le> x" "x < 0"
  shows "x mod m = x + m"
proof -
  have "x mod m = (x + m) mod m" by (simp only: mod_add_self2)
  also have "\<dots> = x + m" using assms by (intro mod_pos_pos_trivial) linarith+
  finally show ?thesis .
qed

section \<open>Unsigned words read as natural numbers\<close>

lemma unat_add_bounded:
  fixes a b :: "'a::len word"
  shows "unat a + unat b < 2 ^ LENGTH('a) \<Longrightarrow> unat (a + b) = unat a + unat b"
  by (simp add: unat_word_ariths)

lemma unat_mult_bounded:
  fixes a b :: "'a::len word"
  shows "unat a * unat b < 2 ^ LENGTH('a) \<Longrightarrow> unat (a * b) = unat a * unat b"
  by (simp add: unat_word_ariths)

end
