(* ===== verification/Uru_Status.thy ===== *)
theory Uru_Status
  imports Unr_Prelude
begin

text \<open>
  The status codes of \<open>src/uru/type/uru_status.h\<close> with their descriptions
  (\<open>src/uru/type/status.c\<close>), the DMA transfer types, and the assertion macros of
  \<open>src/uru/dev/dev.h\<close>.
\<close>

section \<open>Status codes\<close>

datatype uru_status_t =
    URU_STATUS_OK | URU_EVENT_OVERFLOW | URU_STATUS_FUNC_NOT_IMPLEMENTED | URU_STATUS_ERROR
  | URU_CHANNEL_OPENED | URU_SIGNAL_TRIGGERED | URU_SIGNAL_WAITING | URU_DATA_RECEIVED
  | URU_DATA_RECEIVING | URU_DATA_SENT | URU_DATA_SENDING | URU_ERROR_EXIT
  | URU_NOT_IMPLEMENT_EXIT | URU_ASSERT_EXIT | URU_MPI_CHANNEL_ERROR_EXIT
  | URU_GLEX_ERROR_EXIT | URU_VERBS_ERROR_EXIT

text \<open>The X-macro \<open>URU_STATUS_PACK\<close>: enumerators and descriptions in one list.\<close>

definition URU_STATUS_PACK :: "(uru_status_t \<times> string) list" where
  "URU_STATUS_PACK =
    [(URU_STATUS_OK, ''Success''),
     (URU_EVENT_OVERFLOW, ''Signal overflow detected.''),
     (URU_STATUS_FUNC_NOT_IMPLEMENTED, ''A function is called by a pointer, but it is NOT implemented''),
     (URU_STATUS_ERROR, ''ERROR''),
     (URU_CHANNEL_OPENED, ''This channel is already opened''),
     (URU_SIGNAL_TRIGGERED, ''Signal is triggered''),
     (URU_SIGNAL_WAITING, ''Signal is NOT triggered''),
     (URU_DATA_RECEIVED, ''Data is received''),
     (URU_DATA_RECEIVING, ''Data is NOT received''),
     (URU_DATA_SENT, ''Data is sent''),
     (URU_DATA_SENDING, ''Data is NOT sent''),
     (URU_ERROR_EXIT, ''Error exit''),
     (URU_NOT_IMPLEMENT_EXIT, ''Not implement exit''),
     (URU_ASSERT_EXIT, ''Assert exit''),
     (URU_MPI_CHANNEL_ERROR_EXIT, ''MPI Channel error exit''),
     (URU_GLEX_ERROR_EXIT, ''GLEX error exit''),
     (URU_VERBS_ERROR_EXIT, ''Verbs error exit'')]"

text \<open>The enumerator's number, as the C compiler assigns it.\<close>

fun status_code :: "uru_status_t \<Rightarrow> int" where
  "status_code URU_STATUS_OK = 0"
| "status_code URU_EVENT_OVERFLOW = 1"
| "status_code URU_STATUS_FUNC_NOT_IMPLEMENTED = 2"
| "status_code URU_STATUS_ERROR = 3"
| "status_code URU_CHANNEL_OPENED = 4"
| "status_code URU_SIGNAL_TRIGGERED = 5"
| "status_code URU_SIGNAL_WAITING = 6"
| "status_code URU_DATA_RECEIVED = 7"
| "status_code URU_DATA_RECEIVING = 8"
| "status_code URU_DATA_SENT = 9"
| "status_code URU_DATA_SENDING = 10"
| "status_code URU_ERROR_EXIT = 11"
| "status_code URU_NOT_IMPLEMENT_EXIT = 12"
| "status_code URU_ASSERT_EXIT = 13"
| "status_code URU_MPI_CHANNEL_ERROR_EXIT = 14"
| "status_code URU_GLEX_ERROR_EXIT = 15"
| "status_code URU_VERBS_ERROR_EXIT = 16"

definition URU_STATUS_NUM :: int where
  "URU_STATUS_NUM = 17"

definition uru_status_desc_str :: "string list" where
  "uru_status_desc_str = map snd URU_STATUS_PACK"

definition uru_status_string :: "int \<Rightarrow> string" where
  "uru_status_string status =
     (if status < 0 \<or> status \<ge> URU_STATUS_NUM then ''Unknown error''
      else uru_status_desc_str ! nat status)"

text \<open>Status codes compare as the enumeration does.\<close>

instantiation uru_status_t :: linorder
begin

definition less_eq_uru_status_t :: "uru_status_t \<Rightarrow> uru_status_t \<Rightarrow> bool" where
  "less_eq_uru_status_t a b \<longleftrightarrow> status_code a \<le> status_code b"

definition less_uru_status_t :: "uru_status_t \<Rightarrow> uru_status_t \<Rightarrow> bool" where
  "less_uru_status_t a b \<longleftrightarrow> status_code a < status_code b"

instance
proof
  fix x y :: uru_status_t
  show "x \<le> y \<Longrightarrow> y \<le> x \<Longrightarrow> x = y"
    by (cases x; cases y) (simp_all add: less_eq_uru_status_t_def)
qed (auto simp: less_eq_uru_status_t_def less_uru_status_t_def)

end

section \<open>Transfer types\<close>

datatype uru_transfer_t =
    URU_TRANSFER_TYPE_UNKNOWN | URU_TRANSFER_TYPE_DMA_PUT | URU_TRANSFER_TYPE_DMA_GET

text \<open>
  A \<open>dma_type_arr\<close> argument is one of the two sentinel pointers \<open>(uru_transfer_t*)3\<close> and
  \<open>(uru_transfer_t*)4\<close> or points to an array.
\<close>

datatype uru_transfer_arr =
    URU_TRANSFER_TYPE_DMA_PUT_ALL
  | URU_TRANSFER_TYPE_DMA_GET_ALL
  | Transfer_arr "uru_transfer_t list"

section \<open>How a run ends, and assertions\<close>

text \<open>
  \<open>Exit\<close> is \<open>exit(status)\<close>, \<open>ExitCode\<close> is \<open>exit(n)\<close> with a plain number. The others are
  undefined behaviour of the C program, kept apart so that theorems can exclude it, but for
  \<open>NoReturn\<close>, a run that stays in a loop for ever.
\<close>

datatype failure =
    Exit uru_status_t | ExitCode int
  | NullDeref | OutOfBounds | UseAfterFree | DivByZero | IntOverflow | NoReturn

type_synonym 'a res = "failure + 'a"

text \<open>
  \<open>URU_ASSERT\<close> and \<open>URU_ASSERT_REASON\<close> in the build that \<open>fast/build.sh\<close> configures
  (\<open>-DASSERT_CHECK=ON\<close>): the rest of the code runs only if the condition holds.
\<close>

definition uru_assert :: "bool \<Rightarrow> 'a res \<Rightarrow> 'a res" where
  "uru_assert c k = (if c then k else Inl (Exit URU_ASSERT_EXIT))"

lemma uru_assert_simps [simp, res_simps]:
  "uru_assert True k = k"
  "uru_assert False k = Inl (Exit URU_ASSERT_EXIT)"
  by (simp_all add: uru_assert_def)

lemma uru_assert_Inr [simp]: "uru_assert c k = Inr x \<longleftrightarrow> c \<and> k = Inr x"
  by (simp add: uru_assert_def)

text \<open>The C \<open>%\<close> on \<open>int32_t\<close>, which traps on a zero divisor.\<close>

definition c_rem :: "int \<Rightarrow> int \<Rightarrow> int res" where
  "c_rem a b = (if b = 0 then Inl DivByZero else Inr (a smod b))"

lemma c_rem_nonneg [simp]: "0 \<le> a \<Longrightarrow> 0 < b \<Longrightarrow> c_rem a b = Inr (a mod b)"
  by (cases "a = 0")
    (auto simp: c_rem_def signed_modulo_int_def signed_divide_int_def minus_div_mult_eq_mod [symmetric] sgn_if)

section \<open>Properties\<close>

lemma status_code_range: "0 \<le> status_code s" "status_code s < URU_STATUS_NUM"
  by (cases s; simp add: URU_STATUS_NUM_def)+

lemma status_code_inj: "status_code a = status_code b \<longleftrightarrow> a = b"
  by (cases a; cases b) simp_all

lemma length_desc: "length uru_status_desc_str = nat URU_STATUS_NUM"
  by (simp add: uru_status_desc_str_def URU_STATUS_PACK_def URU_STATUS_NUM_def)

text \<open>
  The description table and the enumeration agree: for every status, looking up its number
  gives the description packed beside it, and no number outside the enumeration is described.
\<close>

lemma status_string_packed:
  "map_of URU_STATUS_PACK s = Some (uru_status_string (status_code s)) \<and>
   uru_status_string URU_STATUS_NUM = ''Unknown error'' \<and> uru_status_string (- 1) = ''Unknown error''"
  by (cases s) (simp_all add: uru_status_string_def uru_status_desc_str_def URU_STATUS_PACK_def
      URU_STATUS_NUM_def nth_Cons')

end
