(* ===== verification/Uru_Realloc.thy ===== *)
theory Uru_Realloc
  imports Uru_Status
begin

text \<open>
  The allocation wrappers of \<open>src/uru/sys/realloc.c\<close>. A block is the list of its bytes. The
  C library's allocators are arguments: \<open>malloc n\<close> is a block of \<open>n\<close> bytes with arbitrary
  contents, or \<open>None\<close> for the null pointer.

  The other theories assume that allocation succeeds; on failure each of these wrappers ends the
  process with \<open>exit(1)\<close>.
\<close>

type_synonym block = "u8 list"

definition uru_malloc :: "(nat \<Rightarrow> block option) \<Rightarrow> nat \<Rightarrow> block res" where
  "uru_malloc malloc sz = (case malloc sz of None \<Rightarrow> Inl (ExitCode 1) | Some ret \<Rightarrow> Inr ret)"

definition uru_calloc :: "(nat \<Rightarrow> nat \<Rightarrow> block option) \<Rightarrow> nat \<Rightarrow> nat \<Rightarrow> block res" where
  "uru_calloc calloc nmemb sz =
     (case calloc nmemb sz of None \<Rightarrow> Inl (ExitCode 1) | Some ret \<Rightarrow> Inr ret)"

text \<open>\<open>memset(p + from, 0, n)\<close>: writing past the end of the block is undefined.\<close>

definition memset0 :: "block \<Rightarrow> nat \<Rightarrow> nat \<Rightarrow> block res" where
  "memset0 p from n =
     (if from + n \<le> length p then Inr (take from p @ replicate n 0 @ drop (from + n) p)
      else Inl OutOfBounds)"

text \<open>\<open>memcpy(dst, src, n)\<close>.\<close>

definition memcpy :: "block \<Rightarrow> block \<Rightarrow> nat \<Rightarrow> block res" where
  "memcpy dst src n =
     (if n \<le> length src \<and> n \<le> length dst then Inr (take n src @ drop n dst) else Inl OutOfBounds)"

text \<open>The difference of two \<open>size_t\<close>, which wraps around.\<close>

definition size_diff :: "nat \<Rightarrow> nat \<Rightarrow> nat" where
  "size_diff a b = nat ((int a - int b) mod 2 ^ 64)"

text \<open>The variant compiled with \<open>CUSTOMIZE_REALLOC\<close>.\<close>

definition uru_realloc_customize ::
  "(nat \<Rightarrow> block option) \<Rightarrow> block option \<Rightarrow> nat \<Rightarrow> nat \<Rightarrow> block option res" where
  "uru_realloc_customize malloc old_ptr old_size new_size =
     (if new_size \<le> old_size then Inr old_ptr
      else case malloc new_size of
        None \<Rightarrow> Inl (ExitCode 1)
      | Some new_prt \<Rightarrow>
          res_bind (case old_ptr of None \<Rightarrow> Inr new_prt | Some old \<Rightarrow> memcpy new_prt old old_size) (\<lambda>new_prt.
          res_bind (memset0 new_prt old_size (size_diff new_size old_size)) (\<lambda>new_prt.
          Inr (Some new_prt))))"

text \<open>The default variant, on the C library's \<open>realloc\<close>.\<close>

definition uru_realloc_system ::
  "(block option \<Rightarrow> nat \<Rightarrow> block option) \<Rightarrow> block option \<Rightarrow> nat \<Rightarrow> nat \<Rightarrow> block option res" where
  "uru_realloc_system realloc old_ptr old_size new_size =
     (case realloc old_ptr new_size of
        None \<Rightarrow> Inl (ExitCode 1)
      | Some new_prt \<Rightarrow>
          res_bind (memset0 new_prt old_size (size_diff new_size old_size)) (\<lambda>new_prt.
          Inr (Some new_prt)))"

text \<open>What the C standard says of the two allocators, on success.\<close>

definition malloc_spec :: "(nat \<Rightarrow> block option) \<Rightarrow> bool" where
  "malloc_spec malloc \<longleftrightarrow> (\<forall>n p. malloc n = Some p \<longrightarrow> length p = n)"

definition realloc_spec :: "(block option \<Rightarrow> nat \<Rightarrow> block option) \<Rightarrow> bool" where
  "realloc_spec realloc \<longleftrightarrow> (\<forall>old n p. realloc old n = Some p \<longrightarrow> length p = n \<and>
     (case old of None \<Rightarrow> True | Some q \<Rightarrow> take (min (length q) n) p = take (min (length q) n) q))"

section \<open>Growing\<close>

lemma size_diff_le: "b \<le> a \<Longrightarrow> a < 2 ^ 64 \<Longrightarrow> size_diff a b = a - b"
  by (simp add: size_diff_def nat_diff_distrib flip: of_nat_diff)

lemma customize_grows:
  assumes "malloc_spec malloc" "malloc new_size = Some junk"
    and "length old = old_size" "old_size < new_size" "new_size < 2 ^ 64"
  shows "uru_realloc_customize malloc (Some old) old_size new_size =
    Inr (Some (old @ replicate (new_size - old_size) 0))"
  using assms by (auto simp: uru_realloc_customize_def malloc_spec_def memcpy_def memset0_def size_diff_le)

lemma realloc_specD:
  assumes "realloc_spec realloc" "realloc (Some q) n = Some p"
  shows "length p = n" "take (min (length q) n) p = take (min (length q) n) q"
  using assms(1) [unfolded realloc_spec_def, rule_format, OF assms(2)] by simp_all

lemma system_grows:
  assumes "realloc_spec realloc" "realloc (Some old) new_size = Some new"
    and "length old = old_size" "old_size < new_size" "new_size < 2 ^ 64"
  shows "uru_realloc_system realloc (Some old) old_size new_size =
    Inr (Some (old @ replicate (new_size - old_size) 0))"
proof -
  have "length new = new_size" "take old_size new = old"
    using realloc_specD [OF assms(1,2)] assms(3,4) by simp_all
  then show ?thesis using assms(2,4,5)
    by (simp add: uru_realloc_system_def memset0_def size_diff_le)
qed

text \<open>
  C40. Every growing reallocation keeps the old contents and zeroes the rest, and the two builds
  of the wrapper (with and without \<open>CUSTOMIZE_REALLOC\<close>) produce the same block.
\<close>

theorem realloc_builds_agree:
  assumes "malloc_spec malloc" "malloc new_size = Some junk"
    and "realloc_spec realloc" "realloc (Some old) new_size = Some new"
    and "length old < new_size" "new_size < 2 ^ 64"
  shows "uru_realloc_customize malloc (Some old) (length old) new_size =
      Inr (Some (old @ replicate (new_size - length old) 0)) \<and>
    uru_realloc_system realloc (Some old) (length old) new_size =
      Inr (Some (old @ replicate (new_size - length old) 0))"
  using customize_grows [OF assms(1,2) refl assms(5,6)] system_grows [OF assms(3,4) refl assms(5,6)]
  by blast

theorem realloc_builds_agree_witness:
  "uru_realloc_customize (\<lambda>n. Some (replicate n 9)) (Some [1, 2]) 2 5 = Inr (Some [1, 2, 0, 0, 0]) \<and>
   uru_realloc_system (\<lambda>p n. Some (take n (case_option [] (\<lambda>q. q) p @ replicate n 7))) (Some [1, 2]) 2 5 =
     Inr (Some [1, 2, 0, 0, 0])"
proof -
  let ?malloc = "\<lambda>n. Some (replicate n (9::u8))"
  let ?realloc = "\<lambda>p n. Some (take n (case_option [] (\<lambda>q. q) p @ replicate n (7::u8)))"
  have m: "malloc_spec ?malloc" by (simp add: malloc_spec_def)
  have r: "realloc_spec ?realloc" by (auto simp: realloc_spec_def min_def split: option.splits)
  have p: "length [1, 2 :: u8] < 5" "(5::nat) < 2 ^ 64" by simp_all
  show ?thesis using realloc_builds_agree [OF m refl r refl p] by (simp add: numeral_2_eq_2 numeral_3_eq_3)
qed

text \<open>
  A shrinking call separates the builds: the customised wrapper returns the old block
  unchanged, the default one asks \<open>memset\<close> for a wrapped-around size and writes outside the block.
\<close>

theorem realloc_shrink_differs:
  assumes "realloc_spec realloc" "realloc (Some old) new_size = Some new"
    and "new_size < old_size" "old_size < 2 ^ 64"
  shows "uru_realloc_customize malloc (Some old) old_size new_size = Inr (Some old) \<and>
    uru_realloc_system realloc (Some old) old_size new_size = Inl OutOfBounds"
proof -
  have len: "length new = new_size" by (rule realloc_specD [OF assms(1,2)])
  have "(int new_size - int old_size) mod 2 ^ 64 = int new_size - int old_size + 2 ^ 64"
    using assms(3,4) by (intro mod_wrap_neg) auto
  then have "size_diff new_size old_size = nat (int new_size - int old_size + 2 ^ 64)"
    by (simp only: size_diff_def)
  then have "old_size + size_diff new_size old_size = new_size + 2 ^ 64" using assms(3,4) by auto
  then have "\<not> old_size + size_diff new_size old_size \<le> length new" using len by simp
  then show ?thesis using assms(2,3)
    by (simp add: uru_realloc_customize_def uru_realloc_system_def memset0_def)
qed

theorem realloc_shrink_differs_witness:
  "uru_realloc_customize (\<lambda>_. None) (Some [1, 2, 3]) 3 2 = Inr (Some [1, 2, 3]) \<and>
   uru_realloc_system (\<lambda>p n. Some (take n (case_option [] (\<lambda>q. q) p @ replicate n 7))) (Some [1, 2, 3]) 3 2 = Inl OutOfBounds"
proof -
  let ?realloc = "\<lambda>p n. Some (take n (case_option [] (\<lambda>q. q) p @ replicate n (7::u8)))"
  have r: "realloc_spec ?realloc" by (auto simp: realloc_spec_def min_def split: option.splits)
  show ?thesis using realloc_shrink_differs [OF r refl, of 2 3 "\<lambda>_. None" "[1, 2, 3]"] by simp
qed

end
