(* ===== verification/Uru_Queue.thy ===== *)
theory Uru_Queue
  imports Uru_Status
begin

text \<open>
  The ring queue of \<open>src/uru/type/queue.c\<close>, its refinement of a bounded first-in-first-out
  list, and the interface \<open>bounded_fifo\<close> through which the signal pools use it.

  The spin lock only orders concurrent calls; every operation here is one critical section, and
  the lock field and the \<open>need_lock\<close> argument carry no data.
\<close>

section \<open>The queue of the code\<close>

record uru_queue =
  q_size :: int
  q_head :: int
  q_tail :: int
  q_buff :: "int list"

text \<open>\<open>junk\<close> is what \<open>uru_malloc\<close> leaves in the fresh buffer.\<close>

definition uru_queue_init :: "(nat \<Rightarrow> int) \<Rightarrow> int \<Rightarrow> uru_queue" where
  "uru_queue_init junk queue_size =
     \<lparr>q_size = i32 (queue_size + 1), q_head = 0, q_tail = 0,
      q_buff = map junk [0..<nat (i32 (queue_size + 1))]\<rparr>"

definition uru_queue_push :: "uru_queue \<Rightarrow> int \<Rightarrow> uru_queue res" where
  "uru_queue_push q d =
     res_bind (c_rem (q_tail q + 1) (q_size q)) (\<lambda>next.
     uru_assert (q_head q \<noteq> next)
       (if 0 \<le> q_tail q \<and> nat (q_tail q) < length (q_buff q)
        then Inr (q\<lparr>q_buff := (q_buff q)[nat (q_tail q) := d], q_tail := next\<rparr>)
        else Inl OutOfBounds))"

text \<open>The popped value, \<open>-1\<close> from an empty queue, and the new queue.\<close>

definition uru_queue_pop :: "uru_queue \<Rightarrow> (int \<times> uru_queue) res" where
  "uru_queue_pop q =
     (if q_head q = q_tail q then Inr (- 1, q)
      else if 0 \<le> q_head q \<and> nat (q_head q) < length (q_buff q)
      then res_bind (c_rem (q_head q + 1) (q_size q)) (\<lambda>next.
        Inr (q_buff q ! nat (q_head q), q\<lparr>q_head := next\<rparr>))
      else Inl OutOfBounds)"

section \<open>The list it stands for\<close>

definition q_len :: "uru_queue \<Rightarrow> nat" where
  "q_len q = nat ((q_tail q - q_head q) mod q_size q)"

definition q_slot :: "uru_queue \<Rightarrow> nat \<Rightarrow> nat" where
  "q_slot q k = nat ((q_head q + int k) mod q_size q)"

definition q_list :: "uru_queue \<Rightarrow> int list" where
  "q_list q = map (\<lambda>k. q_buff q ! q_slot q k) [0..<q_len q]"

text \<open>The number of elements the queue can hold: one cell of the ring stays free.\<close>

definition q_cap :: "uru_queue \<Rightarrow> nat" where
  "q_cap q = nat (q_size q - 1)"

definition q_wf :: "uru_queue \<Rightarrow> bool" where
  "q_wf q \<longleftrightarrow> 0 < q_size q \<and> q_size q < 2 ^ 31 \<and>
     0 \<le> q_head q \<and> q_head q < q_size q \<and> 0 \<le> q_tail q \<and> q_tail q < q_size q \<and>
     length (q_buff q) = nat (q_size q)"

lemma q_wfD:
  assumes "q_wf q"
  shows "0 < q_size q" "0 \<le> q_head q" "q_head q < q_size q" "0 \<le> q_tail q"
    "q_tail q < q_size q" "length (q_buff q) = nat (q_size q)"
  using assms by (simp_all add: q_wf_def)

lemma length_q_list [simp]: "length (q_list q) = q_len q"
  by (simp add: q_list_def)

lemma q_count_range:
  assumes "q_wf q"
  shows "0 \<le> (q_tail q - q_head q) mod q_size q" "(q_tail q - q_head q) mod q_size q < q_size q"
  using q_wfD(1) [OF assms] by simp_all

lemma q_len_less: "q_wf q \<Longrightarrow> q_len q \<le> q_cap q"
  using q_count_range [of q] unfolding q_len_def q_cap_def by linarith

lemma q_slot_less: "q_wf q \<Longrightarrow> q_slot q k < length (q_buff q)"
  by (simp add: q_slot_def q_wf_def nat_less_iff)

text \<open>The tail is the slot right after the last element.\<close>

lemma q_slot_len: "q_wf q \<Longrightarrow> q_slot q (q_len q) = nat (q_tail q)"
  by (simp add: q_slot_def q_len_def q_wf_def mod_add_right_eq)

lemma q_slot_inj:
  assumes "q_wf q" "int i < q_size q" "int j < q_size q" "q_slot q i = q_slot q j"
  shows "i = j"
proof -
  have "(q_head q + int i) mod q_size q = (q_head q + int j) mod q_size q"
    using assms(4) q_wfD(1) [OF assms(1)] unfolding q_slot_def
    by (meson eq_nat_nat_iff pos_mod_sign)
  then show ?thesis using mod_add_inj [of "q_size q" "int i" "int j" "q_head q"] assms
    by (simp add: q_wf_def)
qed

lemma q_empty_iff: "q_wf q \<Longrightarrow> q_head q = q_tail q \<longleftrightarrow> q_len q = 0"
proof
  assume wf: "q_wf q" and "q_len q = 0"
  then have "(q_tail q - q_head q) mod q_size q = 0"
    using pos_mod_sign [of "q_size q" "q_tail q - q_head q"]
    unfolding q_len_def q_wf_def by linarith
  then have "q_tail q mod q_size q = q_head q mod q_size q"
    by (simp add: mod_eq_dvd_iff mod_eq_0_iff_dvd)
  then show "q_head q = q_tail q" using wf by (simp add: q_wf_def)
qed (simp add: q_len_def)

lemma q_full_iff:
  assumes wf: "q_wf q"
  shows "q_head q = (q_tail q + 1) mod q_size q \<longleftrightarrow> q_len q = q_cap q"
proof -
  let ?n = "(q_tail q - q_head q) mod q_size q"
  have n: "0 \<le> ?n" "?n < q_size q" using wf by (simp_all add: q_wf_def)
  have "(q_head q + (?n + 1)) mod q_size q = (q_head q + 1 + ?n) mod q_size q"
    by (simp add: algebra_simps)
  also have "\<dots> = (q_head q + 1 + (q_tail q - q_head q)) mod q_size q"
    by (rule mod_add_right_eq)
  also have "\<dots> = (q_tail q + 1) mod q_size q" by (simp add: algebra_simps)
  finally have tl: "(q_tail q + 1) mod q_size q = (q_head q + (?n + 1)) mod q_size q" ..
  have "q_len q = q_cap q \<longleftrightarrow> ?n + 1 = q_size q"
    using n by (auto simp: q_len_def q_cap_def)
  moreover have "q_head q = (q_tail q + 1) mod q_size q \<longleftrightarrow> ?n + 1 = q_size q"
  proof
    assume "?n + 1 = q_size q"
    then show "q_head q = (q_tail q + 1) mod q_size q"
      unfolding tl using wf by (simp add: q_wf_def)
  next
    assume h: "q_head q = (q_tail q + 1) mod q_size q"
    show "?n + 1 = q_size q"
    proof (rule ccontr)
      assume "?n + 1 \<noteq> q_size q"
      then have lt: "?n + 1 < q_size q" using n by linarith
      have "(q_head q + (?n + 1)) mod q_size q = (q_head q + 0) mod q_size q"
        using h tl wf by (simp add: q_wf_def)
      then have "?n + 1 = 0"
        using mod_add_inj [of "q_size q" "?n + 1" 0 "q_head q"] n lt by linarith
      then show False using n by linarith
    qed
  qed
  ultimately show ?thesis by simp
qed

section \<open>The operations on the list\<close>

lemma queue_init_wf [wf_rules]:
  assumes "0 \<le> n" "n + 1 < 2 ^ 31"
  shows "q_wf (uru_queue_init junk n)" "q_list (uru_queue_init junk n) = []"
    "q_cap (uru_queue_init junk n) = nat n"
  using assms by (simp_all add: uru_queue_init_def q_wf_def q_list_def q_len_def q_cap_def i32_id)

lemma push_full:
  assumes "q_wf q" "q_len q = q_cap q"
  shows "uru_queue_push q d = Inl (Exit URU_ASSERT_EXIT)"
  using assms q_full_iff [OF assms(1)] by (simp add: uru_queue_push_def q_wf_def)

lemma push_len:
  assumes "q_wf q" "q_len q < q_cap q" "q_tail q' = (q_tail q + 1) mod q_size q"
    "q_head q' = q_head q" "q_size q' = q_size q"
  shows "q_len q' = Suc (q_len q)"
proof -
  let ?n = "(q_tail q - q_head q) mod q_size q"
  have n: "0 \<le> ?n" using assms(1) by (simp add: q_wf_def)
  have "?n + 1 < q_size q" using assms(2) n by (auto simp: q_len_def q_cap_def)
  then have "(?n + 1) mod q_size q = ?n + 1" using n by simp
  moreover have "((q_tail q + 1) mod q_size q - q_head q) mod q_size q = (?n + 1) mod q_size q"
  proof -
    have "((q_tail q + 1) mod q_size q - q_head q) mod q_size q = (q_tail q + 1 - q_head q) mod q_size q"
      by (rule mod_diff_left_eq)
    also have "\<dots> = (q_tail q - q_head q + 1) mod q_size q" by (simp add: algebra_simps)
    also have "\<dots> = (?n + 1) mod q_size q" by (simp add: mod_add_left_eq)
    finally show ?thesis .
  qed
  ultimately show ?thesis using n assms(3-5) by (simp add: q_len_def)
qed

lemma push_ok:
  assumes wf: "q_wf q" and room: "q_len q < q_cap q"
  obtains q' where "uru_queue_push q d = Inr q'" "q_wf q'" "q_list q' = q_list q @ [d]"
    "q_cap q' = q_cap q"
proof -
  let ?q' = "q\<lparr>q_buff := (q_buff q)[nat (q_tail q) := d], q_tail := (q_tail q + 1) mod q_size q\<rparr>"
  have push: "uru_queue_push q d = Inr ?q'"
    using wf room q_full_iff [OF wf] by (simp add: uru_queue_push_def q_wf_def)
  have wf': "q_wf ?q'" using wf by (simp add: q_wf_def)
  have len: "q_len ?q' = Suc (q_len q)" by (rule push_len [OF wf room]) simp_all
  have slots: "q_slot ?q' k = q_slot q k" for k by (simp add: q_slot_def)
  have keep: "q_buff ?q' ! q_slot q k = q_buff q ! q_slot q k" if "k < q_len q" for k
  proof -
    have "q_slot q k \<noteq> nat (q_tail q)"
    proof
      assume "q_slot q k = nat (q_tail q)"
      then have "q_slot q k = q_slot q (q_len q)" by (simp add: q_slot_len [OF wf])
      moreover have "int (q_len q) < q_size q" "int k < q_size q"
        using room that unfolding q_cap_def by linarith+
      ultimately have "k = q_len q" using q_slot_inj [OF wf, of k "q_len q"] by blast
      with that show False by simp
    qed
    then show ?thesis by simp
  qed
  have last: "q_buff ?q' ! q_slot q (q_len q) = d"
    using q_slot_less [OF wf, of "q_len q"] by (simp add: q_slot_len [OF wf])
  have ls: "q_list ?q' = q_list q @ [d]"
    unfolding q_list_def len slots using keep last by simp
  show thesis by (rule that [OF push wf' ls]) (simp add: q_cap_def)
qed

lemma pop_empty:
  "q_wf q \<Longrightarrow> q_list q = [] \<Longrightarrow> uru_queue_pop q = Inr (- 1, q)"
  using q_empty_iff [of q] by (simp add: uru_queue_pop_def q_list_def)

lemma pop_ok:
  assumes wf: "q_wf q" and ls: "q_list q = d # ds"
  obtains q' where "uru_queue_pop q = Inr (d, q')" "q_wf q'" "q_list q' = ds" "q_cap q' = q_cap q"
proof -
  let ?q' = "q\<lparr>q_head := (q_head q + 1) mod q_size q\<rparr>"
  have ne: "0 < q_len q" using ls by (metis length_q_list length_greater_0_conv list.distinct(1))
  have slot0: "q_slot q 0 = nat (q_head q)" using wf by (simp add: q_slot_def q_wf_def)
  have upt: "[0..<q_len q] = 0 # map Suc [0..<q_len q - 1]"
    using ne by (simp add: upt_conv_Cons map_Suc_upt)
  have hd: "q_buff q ! nat (q_head q) = d" and tl: "ds = map (\<lambda>k. q_buff q ! q_slot q (Suc k)) [0..<q_len q - 1]"
  proof -
    have "map (\<lambda>k. q_buff q ! q_slot q k) (0 # map Suc [0..<q_len q - 1]) = d # ds"
      using ls unfolding q_list_def upt .
    then have "q_buff q ! q_slot q 0 = d \<and> map ((\<lambda>k. q_buff q ! q_slot q k) \<circ> Suc) [0..<q_len q - 1] = ds"
      by (simp only: list.map map_map list.inject)
    then show "q_buff q ! nat (q_head q) = d" "ds = map (\<lambda>k. q_buff q ! q_slot q (Suc k)) [0..<q_len q - 1]"
      unfolding slot0 comp_def by blast+
  qed
  have pop: "uru_queue_pop q = Inr (d, ?q')"
    using wf ne q_empty_iff [OF wf] by (simp add: uru_queue_pop_def q_wf_def hd nat_less_iff)
  have wf': "q_wf ?q'" using wf by (simp add: q_wf_def)
  let ?n = "(q_tail q - q_head q) mod q_size q"
  have n: "0 < ?n" "?n < q_size q" using ne wf by (auto simp: q_len_def q_wf_def)
  have "(q_tail q - (q_head q + 1) mod q_size q) mod q_size q = (q_tail q - q_head q - 1) mod q_size q"
    by (simp add: mod_diff_right_eq algebra_simps)
  also have "\<dots> = (?n - 1) mod q_size q" by (simp add: mod_diff_left_eq)
  also have "\<dots> = ?n - 1" using n by simp
  finally have len: "q_len ?q' = q_len q - 1" by (simp add: q_len_def nat_diff_distrib)
  have "q_slot ?q' k = q_slot q (Suc k)" for k
  proof -
    have "((q_head q + 1) mod q_size q + int k) mod q_size q = (q_head q + 1 + int k) mod q_size q"
      by (rule mod_add_left_eq)
    then show ?thesis by (simp add: q_slot_def algebra_simps)
  qed
  then have ls': "q_list ?q' = ds" unfolding q_list_def len tl by simp
  show thesis by (rule that [OF pop wf' ls']) (simp add: q_cap_def)
qed

section \<open>The interface\<close>

text \<open>
  A bounded queue, as its users see it: the list of waiting values, first in first out, and the
  capacity up to which a push is guaranteed.
\<close>

locale bounded_fifo =
  fixes push :: "'q \<Rightarrow> int \<Rightarrow> 'q res"
    and pop :: "'q \<Rightarrow> (int \<times> 'q) res"
    and ls :: "'q \<Rightarrow> int list"
    and cap :: "'q \<Rightarrow> nat"
    and inv :: "'q \<Rightarrow> bool"
  assumes push_room: "inv q \<Longrightarrow> length (ls q) < cap q \<Longrightarrow>
      \<exists>q'. push q d = Inr q' \<and> inv q' \<and> ls q' = ls q @ [d] \<and> cap q' = cap q"
    and push_no_room: "inv q \<Longrightarrow> length (ls q) = cap q \<Longrightarrow> push q d = Inl (Exit URU_ASSERT_EXIT)"
    and bounded: "inv q \<Longrightarrow> length (ls q) \<le> cap q"
    and pop_nil: "inv q \<Longrightarrow> ls q = [] \<Longrightarrow> pop q = Inr (- 1, q)"
    and pop_cons: "inv q \<Longrightarrow> ls q = d # ds \<Longrightarrow>
      \<exists>q'. pop q = Inr (d, q') \<and> inv q' \<and> ls q' = ds \<and> cap q' = cap q"
begin

lemma push_Inr_iff:
  assumes "inv q"
  shows "(\<exists>q'. push q d = Inr q') \<longleftrightarrow> length (ls q) < cap q"
  using assms push_room [of q d] push_no_room [of q d] bounded [of q] by fastforce

lemma push_Inr:
  assumes "inv q" "push q d = Inr q'"
  shows "inv q'" "ls q' = ls q @ [d]" "cap q' = cap q"
  using assms push_room [of q d] push_Inr_iff [of q d] by auto

lemma push_all:
  assumes "inv q" "length (ls q) + length ds \<le> cap q"
  shows "\<exists>q'. fold_res (\<lambda>d q. push q d) ds q = Inr q' \<and> inv q' \<and> ls q' = ls q @ ds \<and> cap q' = cap q"
  using assms
proof (induction ds arbitrary: q)
  case Nil
  then show ?case by simp
next
  case (Cons d ds)
  then obtain q1 where q1: "push q d = Inr q1" "inv q1" "ls q1 = ls q @ [d]" "cap q1 = cap q"
    using push_room [of q d] by auto
  with Cons.IH [of q1] Cons.prems(2) show ?case by auto
qed

text \<open>Popping never fails and returns the oldest value, \<open>-1\<close> if there is none.\<close>

lemma pop_hd:
  assumes "inv q"
  shows "\<exists>q'. pop q = Inr ((if ls q = [] then - 1 else hd (ls q)), q') \<and> inv q' \<and> ls q' = tl (ls q) \<and> cap q' = cap q"
proof (cases "ls q")
  case Nil
  then show ?thesis using assms pop_nil by auto
next
  case (Cons d ds)
  then show ?thesis using pop_cons [OF assms Cons] by auto
qed

end

interpretation rq: bounded_fifo uru_queue_push uru_queue_pop q_list q_cap q_wf
proof unfold_locales
  fix q d
  assume "q_wf q" "length (q_list q) < q_cap q"
  then show "\<exists>q'. uru_queue_push q d = Inr q' \<and> q_wf q' \<and> q_list q' = q_list q @ [d] \<and> q_cap q' = q_cap q"
    by (metis length_q_list push_ok)
next
  fix q d ds
  assume "q_wf q" "q_list q = d # ds"
  then show "\<exists>q'. uru_queue_pop q = Inr (d, q') \<and> q_wf q' \<and> q_list q' = ds \<and> q_cap q' = q_cap q"
    by (metis pop_ok)
qed (simp_all add: push_full q_len_less pop_empty)

section \<open>Properties\<close>

text \<open>
  C25. The ring buffer is a first-in-first-out queue: after any pushes that fit, popping returns
  the oldest value and leaves the rest in order, whatever the positions of head and tail, and a
  pop from an empty queue returns \<open>-1\<close> and changes nothing.
\<close>

theorem queue_refines_fifo:
  assumes "q_wf q" and "length (q_list q) + length ds \<le> q_cap q"
  shows "\<exists>q' q''. fold_res (\<lambda>d q. uru_queue_push q d) ds q = Inr q' \<and> q_wf q' \<and>
     q_list q' = q_list q @ ds \<and>
     uru_queue_pop q' = Inr ((if q_list q @ ds = [] then - 1 else hd (q_list q @ ds)), q'') \<and>
     q_wf q'' \<and> q_list q'' = tl (q_list q @ ds)"
proof -
  obtain q' where q': "fold_res (\<lambda>d q. uru_queue_push q d) ds q = Inr q'" "q_wf q'"
    "q_list q' = q_list q @ ds"
    using rq.push_all [OF assms] by auto
  with rq.pop_hd [OF q'(2)] show ?thesis by auto
qed

theorem queue_refines_fifo_witness:
  "\<exists>q' q''. fold_res (\<lambda>d q. uru_queue_push q d) [9] \<lparr>q_size = 3, q_head = 2, q_tail = 0, q_buff = [5, 6, 7]\<rparr> = Inr q' \<and>
     q_list q' = [7, 9] \<and> uru_queue_pop q' = Inr (7, q'') \<and> q_list q'' = [9]"
proof -
  let ?q = "\<lparr>q_size = 3, q_head = 2, q_tail = 0, q_buff = [5, 6, 7]\<rparr> :: uru_queue"
  have wf: "q_wf ?q" by (simp add: q_wf_def)
  have ls: "q_list ?q = [7]" "q_cap ?q = 2" by (simp_all add: q_list_def q_len_def q_cap_def q_slot_def)
  show ?thesis using queue_refines_fifo [OF wf, of "[9]"] ls by auto
qed

text \<open>
  A queue initialised for \<open>n\<close> elements accepts every sequence of up to \<open>n\<close> pushes; the push
  that finds it full fails the assertion and overwrites nothing.
\<close>

theorem queue_capacity_exact:
  assumes "0 \<le> n" and "n + 1 < 2 ^ 31" and "length ds = nat n"
  shows "\<exists>q. fold_res (\<lambda>d q. uru_queue_push q d) ds (uru_queue_init junk n) = Inr q \<and>
     q_list q = ds \<and> uru_queue_push q d = Inl (Exit URU_ASSERT_EXIT)"
proof -
  note init = queue_init_wf [OF assms(1,2), of junk]
  have "length (q_list (uru_queue_init junk n)) + length ds \<le> q_cap (uru_queue_init junk n)"
    using init(2,3) assms(3) by simp
  from rq.push_all [OF init(1) this] obtain q where
    q: "fold_res (\<lambda>d q. uru_queue_push q d) ds (uru_queue_init junk n) = Inr q" "q_wf q"
       "q_list q = ds" "q_cap q = nat n"
    using init(2,3) by auto
  moreover have "uru_queue_push q d = Inl (Exit URU_ASSERT_EXIT)"
    using q assms(3) by (intro rq.push_no_room) auto
  ultimately show ?thesis by blast
qed

theorem queue_capacity_exact_witness:
  "\<exists>q. fold_res (\<lambda>d q. uru_queue_push q d) [4, 8] (uru_queue_init (\<lambda>_. 77) 2) = Inr q \<and>
     q_list q = [4, 8] \<and> uru_queue_push q 1 = Inl (Exit URU_ASSERT_EXIT)"
  by (rule queue_capacity_exact) simp_all

end
