(* ===== verification/Uru_Flag.thy ===== *)
theory Uru_Flag
  imports Uru_Queue
begin

text \<open>
  The process state that the lower layers share: what MPI says of the process
  (\<open>src/uru/mpi/mpi.c\<close>), and the notification flags with their pool (\<open>src/uru/type/flag.c\<close>).
  Flags and queues live in stores indexed by address; a record extension adds what the layers
  above keep.
\<close>

section \<open>The process among its peers\<close>

record uru_mpi_t =
  mpi_rank :: int
  mpi_size :: int
  same_node :: "bool list"

text \<open>
  \<open>uru_mpi_init\<close>. The values that MPI returns are arguments: whether MPI is initialised, rank and
  size in \<open>MPI_COMM_WORLD\<close>, the processor name, and the names gathered from all ranks.
\<close>

definition uru_mpi_init ::
  "uru_mpi_t option \<Rightarrow> bool \<Rightarrow> int \<Rightarrow> int \<Rightarrow> string \<Rightarrow> string list \<Rightarrow> uru_mpi_t res" where
  "uru_mpi_init uru_mpi mpi_initialized rank sz hostname hosts =
     (case uru_mpi of
        Some u \<Rightarrow> Inr u
      | None \<Rightarrow>
          uru_assert mpi_initialized
            (Inr \<lparr>mpi_rank = rank, mpi_size = sz,
                  same_node = map (\<lambda>i. hostname = hosts ! i) [0..<nat sz]\<rparr>))"

section \<open>Flags and the flag pool\<close>

record uru_flag_t =
  counter :: u64
  f_queue :: addr
  num_event :: u32
  f_idx :: int

record uru_flag_pool_t =
  fp_size :: u32
  fp_used :: u32
  fp_arr :: addr
  fp_rmt_base :: "addr list"

record uru_state =
  uru_mpi :: uru_mpi_t
  flag_pool :: "uru_flag_pool_t option"
  flags :: "addr \<Rightarrow> uru_flag_t option"
  queues :: "addr \<Rightarrow> uru_queue option"

text \<open>\<open>sizeof(uru_flag_t)\<close>, and the all-zero flag that \<open>uru_calloc\<close> leaves.\<close>

definition sizeof_flag :: nat where
  "sizeof_flag = 24"

definition zero_flag :: uru_flag_t where
  "zero_flag = \<lparr>counter = 0, f_queue = 0, num_event = 0, f_idx = 0\<rparr>"

definition flag_at :: "addr \<Rightarrow> nat \<Rightarrow> addr" where
  "flag_at base i = base + sizeof_flag * i"

text \<open>The C library's \<open>atoi\<close> on the strings it is defined for.\<close>

fun digits_value :: "int \<Rightarrow> string \<Rightarrow> int" where
  "digits_value acc [] = acc"
| "digits_value acc (c # cs) =
     (if of_char c \<ge> (48::nat) \<and> of_char c \<le> (57::nat) then digits_value (10 * acc + (of_char c - 48)) cs else acc)"

definition is_space :: "char \<Rightarrow> bool" where
  "is_space c \<longleftrightarrow> of_char c = (32::nat) \<or> (of_char c \<ge> (9::nat) \<and> of_char c \<le> (13::nat))"

definition atoi :: "string \<Rightarrow> int" where
  "atoi s = (case dropWhile is_space s of
      [] \<Rightarrow> 0
    | c # cs \<Rightarrow> if c = CHR ''-'' then - digits_value 0 cs
               else if c = CHR ''+'' then digits_value 0 cs else digits_value 0 (c # cs))"

text \<open>
  \<open>init_flag_pool\<close>: \<open>env\<close> is \<open>getenv("URU_NUM_FLAGS")\<close>, \<open>arr\<close> the address of the fresh array,
  \<open>bases\<close> the array addresses gathered from all ranks. The guard variable \<open>initialized\<close> is
  never set, so every call builds a new pool; \<open>size\<close> keeps 32 of the 64 bits of \<open>num_flags\<close>.
\<close>

definition init_flag_pool ::
  "string option \<Rightarrow> addr \<Rightarrow> addr list \<Rightarrow> ('z) uru_state_scheme \<Rightarrow> 'z uru_state_scheme res" where
  "init_flag_pool env arr bases s =
     (let num_flags = (case env of Some e \<Rightarrow> word_of_int (i32 (atoi e)) | None \<Rightarrow> 65536) :: u64 in
      uru_assert (env \<noteq> None \<longrightarrow> 0 < num_flags \<and> num_flags \<le> 2 ^ 32)
        (Inr (s\<lparr>flag_pool := Some \<lparr>fp_size = ucast num_flags, fp_used = 1, fp_arr = arr, fp_rmt_base = bases\<rparr>,
                flags := (\<lambda>p. if arr \<le> p \<and> p < flag_at arr (unat num_flags) \<and> (p - arr) mod sizeof_flag = 0
                              then Some zero_flag else flags s p)\<rparr>)))"

text \<open>\<open>uru_flag_pool_alloc\<close>: \<open>fresh\<close> is what \<open>uru_calloc\<close> returns where there is no pool.\<close>

definition uru_flag_pool_alloc ::
  "addr \<Rightarrow> ('z) uru_state_scheme \<Rightarrow> (addr \<times> 'z uru_state_scheme) res" where
  "uru_flag_pool_alloc fresh s =
     (case flag_pool s of
        Some fp \<Rightarrow>
          if fp_used fp = fp_size fp then Inl (Exit URU_ERROR_EXIT)
          else Inr (flag_at (fp_arr fp) (unat (fp_used fp)),
                    s\<lparr>flag_pool := Some (fp\<lparr>fp_used := fp_used fp + 1\<rparr>)\<rparr>)
      | None \<Rightarrow> Inr (fresh, s\<lparr>flags := (flags s)(fresh \<mapsto> zero_flag)\<rparr>))"

section \<open>Pushing to a queue through a pointer\<close>

definition queue_push_at :: "addr \<Rightarrow> int \<Rightarrow> ('z) uru_state_scheme \<Rightarrow> 'z uru_state_scheme res" where
  "queue_push_at p d s =
     (case queues s p of
        None \<Rightarrow> Inl NullDeref
      | Some q \<Rightarrow> res_bind (uru_queue_push q d) (\<lambda>q'. Inr (s\<lparr>queues := (queues s)(p \<mapsto> q')\<rparr>)))"

definition queue_pop_at :: "addr \<Rightarrow> ('z) uru_state_scheme \<Rightarrow> (int \<times> 'z uru_state_scheme) res" where
  "queue_pop_at p s =
     (case queues s p of
        None \<Rightarrow> Inl NullDeref
      | Some q \<Rightarrow> res_bind (uru_queue_pop q) (\<lambda>(d, q'). Inr (d, s\<lparr>queues := (queues s)(p \<mapsto> q')\<rparr>)))"

section \<open>Events on a flag\<close>

text \<open>
  The MPI channel's completion of one operation (\<open>uri_mpi_channel_daemon\<close>): add, check the sign,
  and report to the pool's queue when the counter reaches zero.
\<close>

definition mpi_flag_event :: "addr \<Rightarrow> u64 \<Rightarrow> ('z) uru_state_scheme \<Rightarrow> 'z uru_state_scheme res" where
  "mpi_flag_event p add s =
     (if p = 0 then Inr s
      else case flags s p of
        None \<Rightarrow> Inl NullDeref
      | Some f \<Rightarrow>
          let c = counter f + add; s' = s\<lparr>flags := (flags s)(p \<mapsto> f\<lparr>counter := c\<rparr>)\<rparr> in
          uru_assert (0 \<le> sint c)
            (if c = 0 \<and> f_queue f \<noteq> 0 then queue_push_at (f_queue f) (f_idx f) s' else Inr s'))"

text \<open>
  The Verbs channel's \<open>uri_verbs_event_progress\<close>: the 32-bit flag index of the immediate data
  selects a flag of the own pool; index \<open>0\<close> means no flag. The sign is not checked.
\<close>

definition uri_verbs_event_progress :: "u32 \<Rightarrow> ('z) uru_state_scheme \<Rightarrow> 'z uru_state_scheme res" where
  "uri_verbs_event_progress flag_p32 s =
     (if flag_p32 = 0 then Inr s
      else case flag_pool s of
        None \<Rightarrow> Inl NullDeref
      | Some fp \<Rightarrow>
          let r = nat (mpi_rank (uru_mpi s)) in
          if length (fp_rmt_base fp) \<le> r then Inl OutOfBounds
          else let p = flag_at (fp_rmt_base fp ! r) (unat flag_p32) in
          (case flags s p of
             None \<Rightarrow> Inl OutOfBounds
           | Some f \<Rightarrow>
               let c = counter f + (- 1); s' = s\<lparr>flags := (flags s)(p \<mapsto> f\<lparr>counter := c\<rparr>)\<rparr> in
               (if c = 0 \<and> f_queue f \<noteq> 0 then queue_push_at (f_queue f) (f_idx f) s' else Inr s')))"

section \<open>Facts\<close>

lemma flag_at_inj [simp]: "flag_at b i = flag_at b j \<longleftrightarrow> i = j"
  by (simp add: flag_at_def sizeof_flag_def)

lemma flag_at_nz: "0 < i \<Longrightarrow> flag_at b i \<noteq> 0"
  by (simp add: flag_at_def sizeof_flag_def)

lemma flag_at_mod [simp]: "(flag_at b i - b) mod sizeof_flag = 0" "b \<le> flag_at b i"
  by (simp_all add: flag_at_def)

lemma flag_at_less [simp]: "flag_at b i < flag_at b n \<longleftrightarrow> i < n"
  by (simp add: flag_at_def sizeof_flag_def)

lemma mpi_flag_event_Inr:
  assumes "mpi_flag_event p add s = Inr s'" "flags s p = Some f" "p \<noteq> 0"
  shows "s' = s\<lparr>flags := (flags s)(p \<mapsto> f\<lparr>counter := counter f + add\<rparr>)\<rparr> \<or>
    queue_push_at (f_queue f) (f_idx f) (s\<lparr>flags := (flags s)(p \<mapsto> f\<lparr>counter := counter f + add\<rparr>)\<rparr>) = Inr s'"
proof (cases "counter f + add = 0 \<and> f_queue f \<noteq> 0")
  case True
  then show ?thesis using assms by (simp add: mpi_flag_event_def Let_def)
next
  case False
  then have "Inr s' = (Inr (s\<lparr>flags := (flags s)(p \<mapsto> f\<lparr>counter := counter f + add\<rparr>)\<rparr>) :: _ res)"
    using assms unfolding mpi_flag_event_def Let_def uru_assert_def
    by (simp only: option.case if_False sum.distinct split: if_splits)
  then show ?thesis by blast
qed

text \<open>An event writes flags and queues and nothing else of the state.\<close>

lemma mpi_flag_event_frame:
  assumes "mpi_flag_event p add s = Inr s'"
  obtains F Q where "s' = s\<lparr>flags := F, queues := Q\<rparr>"
proof (cases "p = 0")
  case True
  then have "s' = s\<lparr>flags := flags s, queues := queues s\<rparr>" using assms by (simp add: mpi_flag_event_def)
  then show thesis by (rule that)
next
  case False
  then obtain f where f: "flags s p = Some f" using assms by (auto simp: mpi_flag_event_def split: option.splits)
  let ?s = "s\<lparr>flags := (flags s)(p \<mapsto> f\<lparr>counter := counter f + add\<rparr>)\<rparr>"
  consider "s' = ?s" | "queue_push_at (f_queue f) (f_idx f) ?s = Inr s'"
    using mpi_flag_event_Inr [OF assms f False] by blast
  then show thesis
  proof cases
    case 1
    then have "s' = s\<lparr>flags := flags ?s, queues := queues s\<rparr>" by simp
    then show thesis by (rule that)
  next
    case 2
    then obtain Q where "s' = s\<lparr>flags := flags ?s, queues := Q\<rparr>"
      by (auto simp: queue_push_at_def split: option.splits)
    then show thesis by (rule that)
  qed
qed

text \<open>The pool: its array is allocated, index \<open>0\<close> is never handed out.\<close>

definition pool_wf :: "('z) uru_state_scheme \<Rightarrow> bool" where
  "pool_wf s \<longleftrightarrow> (case flag_pool s of None \<Rightarrow> True | Some fp \<Rightarrow>
     1 \<le> fp_used fp \<and> fp_used fp \<le> fp_size fp \<and> (\<forall>i < unat (fp_size fp). flags s (flag_at (fp_arr fp) i) \<noteq> None))"

lemma init_flag_pool_wf [wf_rules]:
  assumes "init_flag_pool env arr bases s = Inr s'"
    and "\<forall>e. env = Some e \<longrightarrow> atoi e < 2 ^ 31"
  shows "pool_wf s'"
proof -
  define n :: u64 where "n = (case env of Some e \<Rightarrow> word_of_int (i32 (atoi e)) | None \<Rightarrow> 65536)"
  have s': "s' = s\<lparr>flag_pool := Some \<lparr>fp_size = ucast n, fp_used = 1, fp_arr = arr, fp_rmt_base = bases\<rparr>,
                flags := (\<lambda>p. if arr \<le> p \<and> p < flag_at arr (unat n) \<and> (p - arr) mod sizeof_flag = 0
                              then Some zero_flag else flags s p)\<rparr>"
    and ok: "env \<noteq> None \<longrightarrow> 0 < n \<and> n \<le> 2 ^ 32"
    using assms(1) by (simp_all add: init_flag_pool_def n_def Let_def)
  have "0 < unat n \<and> unat n < 2 ^ 32"
  proof (cases env)
    case None
    then show ?thesis by (simp add: n_def)
  next
    case (Some e)
    then have n: "n = word_of_int (i32 (atoi e))" "0 < n" "n \<le> 2 ^ 32" using ok by (auto simp: n_def)
    have hi: "i32 (atoi e) < 2 ^ 31"
      unfolding i32_def by (rule signed_take_bit_int_less_exp)
    have "0 < unat n" using n(2) by (simp add: unat_gt_0 word_gt_0)
    moreover have "unat n \<noteq> 2 ^ 32"
    proof
      assume "unat n = 2 ^ 32"
      then have "uint n = 2 ^ 32" by (metis of_nat_numeral of_nat_power uint_nat)
      then have "i32 (atoi e) mod 2 ^ 64 = 2 ^ 32" by (simp add: n(1) uint_word_of_int)
      moreover have "- (2 ^ 31) \<le> i32 (atoi e)"
        unfolding i32_def using signed_take_bit_int_greater_eq_minus_exp [of 31 "atoi e"] by simp
      ultimately show False using hi
        using mod_wrap_neg [of "2 ^ 64" "i32 (atoi e)"] by (cases "0 \<le> i32 (atoi e)") simp_all
    qed
    moreover have "unat n \<le> 2 ^ 32" using n(3) by (simp add: word_le_nat_alt)
    ultimately show ?thesis by simp
  qed
  then have "unat (ucast n :: u32) = unat n" "1 \<le> (ucast n :: u32)"
    by (simp_all add: unsigned_ucast_eq take_bit_nat_eq_self word_le_nat_alt)
  then show ?thesis by (simp add: s' pool_wf_def)
qed

lemma pool_alloc_Inr:
  assumes "uru_flag_pool_alloc fresh s = Inr (p, s')" "flag_pool s = Some fp" "pool_wf s"
  shows "p = flag_at (fp_arr fp) (unat (fp_used fp))" "fp_used fp < fp_size fp"
    "s' = s\<lparr>flag_pool := Some (fp\<lparr>fp_used := fp_used fp + 1\<rparr>)\<rparr>" "pool_wf s'"
    "unat (fp_used fp + 1) = unat (fp_used fp) + 1" "flags s p \<noteq> None"
proof -
  show p: "p = flag_at (fp_arr fp) (unat (fp_used fp))"
    and s': "s' = s\<lparr>flag_pool := Some (fp\<lparr>fp_used := fp_used fp + 1\<rparr>)\<rparr>"
    using assms(1,2) by (auto simp: uru_flag_pool_alloc_def split: if_splits)
  show lt: "fp_used fp < fp_size fp"
    using assms by (auto simp: uru_flag_pool_alloc_def pool_wf_def split: if_splits)
  moreover have "unat (fp_size fp) < 2 ^ LENGTH(32)" by (rule unsigned_less)
  ultimately have "unat (fp_used fp) + unat (1::u32) < 2 ^ LENGTH(32)"
    by (simp add: word_less_nat_alt)
  from unat_add_bounded [OF this] show u: "unat (fp_used fp + 1) = unat (fp_used fp) + 1" by simp
  show "flags s p \<noteq> None" using assms(2,3) lt by (simp add: pool_wf_def p word_less_nat_alt)
  show "pool_wf s'" using assms(2,3) lt u by (auto simp: s' pool_wf_def word_le_nat_alt word_less_nat_alt)
qed

end
