(* ===== verification/Unr_Sig.thy ===== *)
theory Unr_Sig
  imports Uru_Flag
begin

text \<open>
  Signals and signal pools, \<open>src/unr/base/unr_sig.c\<close>: creation, check, wait, reset, the pool and
  its detection, followed by the life cycle of one signal under single-channel events.
\<close>

unbundle bit_operations_syntax

section \<open>State and operations\<close>

record unr_sig_t =
  sig_dst_rank :: int
  sig_flag_p :: addr

text \<open>A pool's queue lies at the pool's own address (\<open>queue\<close> is the first field).\<close>

record unr_sig_pool_t =
  sp_num_sigs :: int
  sp_sig_arr :: "addr list"

record unr_sig_state = uru_state +
  unr_ready :: bool
  sigs :: "addr \<Rightarrow> unr_sig_t option"
  sig_pools :: "addr \<Rightarrow> unr_sig_pool_t option"

definition UNR_NO_SIGNAL_DST_RANK :: int where
  "UNR_NO_SIGNAL_DST_RANK = - 2"

definition UNR_NO_SIGNAL :: unr_sig_t where
  "UNR_NO_SIGNAL = \<lparr>sig_dst_rank = UNR_NO_SIGNAL_DST_RANK, sig_flag_p = 0\<rparr>"

text \<open>
  \<open>1<<31\<close> is an \<open>int\<close>: the compilers the build uses give \<open>INT_MIN\<close>, which widens to 64 bits with
  its sign, both as \<open>uint64_t\<close> and as \<open>int64_t\<close>.
\<close>

definition one_shl_31 :: u64 where
  "one_shl_31 = word_of_int (- (2 ^ 31))"

definition unr_sig_create ::
  "addr \<Rightarrow> u64 \<Rightarrow> ('z) unr_sig_state_scheme \<Rightarrow> (unr_sig_t \<times> 'z unr_sig_state_scheme) res" where
  "unr_sig_create fresh n s =
     uru_assert (unr_ready s)
       (uru_assert (n > 0)
         (uru_assert (n < one_shl_31)
           (res_bind (uru_flag_pool_alloc fresh s) (\<lambda>(flag_p, s).
              Inr (\<lparr>sig_dst_rank = mpi_rank (uru_mpi s), sig_flag_p = flag_p\<rparr>,
                   s\<lparr>flags := (flags s)(flag_p \<mapsto>
                      \<lparr>counter = n, f_queue = 0, num_event = ucast n, f_idx = - 1\<rparr>)\<rparr>)))))"

definition unr_sig_check :: "unr_sig_t \<Rightarrow> ('z) unr_sig_state_scheme \<Rightarrow> uru_status_t res" where
  "unr_sig_check sg s =
     uru_assert (unr_ready s)
       (case flags s (sig_flag_p sg) of
          None \<Rightarrow> Inl NullDeref
        | Some f \<Rightarrow>
            if (counter f AND one_shl_31) \<noteq> 0 then Inl (Exit URU_EVENT_OVERFLOW)
            else if counter f = 0 then Inr URU_SIGNAL_TRIGGERED else Inr URU_SIGNAL_WAITING)"

text \<open>
  \<open>unr_sig_wait\<close> polls while the daemon thread works: the argument lists the states that the
  successive polls see. \<open>None\<close> means that the loop is still running after the last of them; the
  timeout of the code only prints a message.
\<close>

fun unr_sig_wait :: "unr_sig_t \<Rightarrow> ('z) unr_sig_state_scheme list \<Rightarrow> uru_status_t res option" where
  "unr_sig_wait sg [] = None"
| "unr_sig_wait sg (s # ss) =
     (case unr_sig_check sg s of
        Inl e \<Rightarrow> Some (Inl e)
      | Inr st \<Rightarrow> if st \<noteq> URU_SIGNAL_TRIGGERED then unr_sig_wait sg ss else Some (Inr URU_STATUS_OK))"

definition unr_sig_reset :: "unr_sig_t \<Rightarrow> ('z) unr_sig_state_scheme \<Rightarrow> 'z unr_sig_state_scheme res" where
  "unr_sig_reset sg s =
     uru_assert (unr_ready s)
       (case flags s (sig_flag_p sg) of
          None \<Rightarrow> Inl NullDeref
        | Some f \<Rightarrow>
            uru_assert (counter f = 0)
              (Inr (s\<lparr>flags := (flags s)(sig_flag_p sg \<mapsto> f\<lparr>counter := ucast (num_event f)\<rparr>)\<rparr>)))"

text \<open>\<open>sizeof(unr_sig_t)\<close>, the packed handle of the API.\<close>

definition sizeof_sig :: nat where
  "sizeof_sig = 12"

text \<open>The body of the loop of \<open>unr_sig_pool_create\<close> for index \<open>i\<close>.\<close>

definition sig_pool_add ::
  "addr \<Rightarrow> addr \<Rightarrow> nat \<Rightarrow> ('z) unr_sig_state_scheme \<Rightarrow> 'z unr_sig_state_scheme res" where
  "sig_pool_add pool sig_h_arr i s =
     (case sigs s (sig_h_arr + sizeof_sig * i) of
        None \<Rightarrow> Inl NullDeref
      | Some sg \<Rightarrow>
          uru_assert (sig_dst_rank sg = mpi_rank (uru_mpi s))
            (case flags s (sig_flag_p sg) of
               None \<Rightarrow> Inl NullDeref
             | Some f \<Rightarrow>
                 uru_assert (f_idx f = - 1)
                   (Inr (s\<lparr>flags := (flags s)(sig_flag_p sg \<mapsto> f\<lparr>f_idx := i32 (int i), f_queue := pool\<rparr>)\<rparr>))))"

text \<open>
  \<open>pool\<close> is the address of the new pool, \<open>junk\<close> the contents of the fresh queue buffer. A negative
  count asks \<open>uru_malloc\<close> for almost the whole address space, which ends the process. The pool
  keeps pointers into the caller's array of handles.
\<close>

definition unr_sig_pool_create ::
  "addr \<Rightarrow> (nat \<Rightarrow> int) \<Rightarrow> int \<Rightarrow> addr \<Rightarrow> ('z) unr_sig_state_scheme \<Rightarrow> 'z unr_sig_state_scheme res" where
  "unr_sig_pool_create pool junk num_sigs sig_h_arr s =
     uru_assert (unr_ready s)
       (if num_sigs < 0 then Inl (ExitCode 1)
        else fold_res (sig_pool_add pool sig_h_arr) [0..<nat num_sigs]
          (s\<lparr>queues := (queues s)(pool \<mapsto> uru_queue_init junk num_sigs),
             sig_pools := (sig_pools s)(pool \<mapsto>
               \<lparr>sp_num_sigs = num_sigs,
                sp_sig_arr = map (\<lambda>i. sig_h_arr + sizeof_sig * i) [0..<nat num_sigs]\<rparr>)\<rparr>))"

definition unr_sig_pool_detect ::
  "addr \<Rightarrow> ('z) unr_sig_state_scheme \<Rightarrow> (int \<times> 'z unr_sig_state_scheme) res" where
  "unr_sig_pool_detect pool s =
     uru_assert (unr_ready s)
       (res_bind (queue_pop_at pool s) (\<lambda>(sig_id, s).
          if sig_id < 0 then Inr (sig_id, s)
          else case sig_pools s pool of
            None \<Rightarrow> Inl NullDeref
          | Some sp \<Rightarrow>
              if length (sp_sig_arr sp) \<le> nat sig_id then Inl OutOfBounds
              else (case sigs s (sp_sig_arr sp ! nat sig_id) of
                None \<Rightarrow> Inl NullDeref
              | Some sg \<Rightarrow>
                  (case flags s (sig_flag_p sg) of
                     None \<Rightarrow> Inl NullDeref
                   | Some f \<Rightarrow>
                       Inr (sig_id, s\<lparr>flags := (flags s)(sig_flag_p sg \<mapsto> f\<lparr>counter := ucast (num_event f)\<rparr>)\<rparr>)))))"

section \<open>Counters\<close>

lemma sint_small: "n < 2 ^ 63 \<Longrightarrow> sint (of_nat n :: u64) = int n"
  by (simp add: signed_of_nat signed_take_bit_int_eq_self)

lemma one_shl_31_mask: "one_shl_31 = NOT (mask 31)"
  by (simp add: one_shl_31_def mask_eq_exp_minus_1 not_eq_complement)

text \<open>The overflow test of \<open>unr_sig_check\<close> looks at all of the bits 31 to 63.\<close>

lemma overflow_test: "(c AND one_shl_31) \<noteq> 0 \<longleftrightarrow> 2 ^ 31 \<le> unat c"
proof -
  have "(c AND one_shl_31) = 0 \<longleftrightarrow> take_bit 31 c = c"
    unfolding one_shl_31_mask by (auto simp: bit_eq_iff bit_simps)
  also have "\<dots> \<longleftrightarrow> unat c < 2 ^ 31"
    by (metis take_bit_nat_eq_self_iff unsigned_take_bit_eq word_unat_eq_iff)
  finally show ?thesis by auto
qed

lemma check_eq:
  assumes "unr_ready s" "flags s (sig_flag_p sg) = Some f"
  shows "unr_sig_check sg s =
    (if 2 ^ 31 \<le> unat (counter f) then Inl (Exit URU_EVENT_OVERFLOW)
     else if counter f = 0 then Inr URU_SIGNAL_TRIGGERED else Inr URU_SIGNAL_WAITING)"
  using assms by (simp add: unr_sig_check_def overflow_test)

text \<open>What a successful creation leaves: a flag with the full count, outside any pool queue.\<close>

lemma create_Inr:
  assumes "unr_sig_create fresh n s = Inr (sg, s')" "pool_wf s" "fresh \<noteq> 0"
  shows "unr_ready s'" "sig_flag_p sg \<noteq> 0" "sig_dst_rank sg = mpi_rank (uru_mpi s')" "0 < n"
    "flags s' (sig_flag_p sg) = Some \<lparr>counter = n, f_queue = 0, num_event = ucast n, f_idx = - 1\<rparr>"
    "pool_wf s'"
proof -
  obtain p t where alloc: "uru_flag_pool_alloc fresh s = Inr (p, t)" and r: "unr_ready s" "0 < n"
    and sg: "sg = \<lparr>sig_dst_rank = mpi_rank (uru_mpi t), sig_flag_p = p\<rparr>"
    and s': "s' = t\<lparr>flags := (flags t)(p \<mapsto> \<lparr>counter = n, f_queue = 0, num_event = ucast n, f_idx = - 1\<rparr>)\<rparr>"
    using assms(1) by (auto simp: unr_sig_create_def)
  have "p \<noteq> 0 \<and> pool_wf t \<and> unr_ready t"
  proof (cases "flag_pool s")
    case None
    then show ?thesis using alloc assms(3) r by (auto simp: uru_flag_pool_alloc_def pool_wf_def)
  next
    case (Some fp)
    note a = pool_alloc_Inr [OF alloc Some assms(2)]
    have "0 < unat (fp_used fp)" using assms(2) Some by (auto simp: pool_wf_def word_le_nat_alt)
    then show ?thesis using a r by (simp add: flag_at_nz)
  qed
  then show "unr_ready s'" "sig_flag_p sg \<noteq> 0" "sig_dst_rank sg = mpi_rank (uru_mpi s')" "0 < n"
    "flags s' (sig_flag_p sg) = Some \<lparr>counter = n, f_queue = 0, num_event = ucast n, f_idx = - 1\<rparr>"
    "pool_wf s'"
    using r by (auto simp: sg s' pool_wf_def split: option.splits)
qed

lemma dec_count: "0 < m \<Longrightarrow> (of_nat m :: u64) + - 1 = of_nat (m - 1)"
  by (simp add: of_nat_diff)

lemma of_nat_u64_eq_0: "m < 2 ^ 64 \<Longrightarrow> (of_nat m :: u64) = 0 \<longleftrightarrow> m = 0"
  by (auto dest: of_nat_inverse [where 'a = 64])

lemma unat_u64_small: "m < 2 ^ 64 \<Longrightarrow> unat (of_nat m :: u64) = m"
  by (rule of_nat_inverse [OF refl]) simp

lemma event_dec:
  assumes "flags s p = Some f" "p \<noteq> 0" "counter f = of_nat m" "0 < m" "m < 2 ^ 31" "f_queue f = 0"
  shows "mpi_flag_event p (- 1) s = Inr (s\<lparr>flags := (flags s)(p \<mapsto> f\<lparr>counter := of_nat (m - 1)\<rparr>)\<rparr>)"
  using assms dec_count [of m] sint_small [of "m - 1"] by (simp add: mpi_flag_event_def Let_def)

lemma event_on_zero:
  assumes "flags s p = Some f" "p \<noteq> 0" "counter f = 0"
  shows "mpi_flag_event p (- 1) s = Inl (Exit URU_ASSERT_EXIT)"
  using assms by (simp add: mpi_flag_event_def Let_def)

text \<open>\<open>k\<close> single-channel completions on the flag at \<open>p\<close>.\<close>

definition events :: "addr \<Rightarrow> nat \<Rightarrow> ('z) uru_state_scheme \<Rightarrow> 'z uru_state_scheme res" where
  "events p k s = fold_res (\<lambda>add s. mpi_flag_event p add s) (replicate k (- 1)) s"

lemma events_0 [simp]: "events p 0 s = Inr s"
  by (simp add: events_def)

lemma events_Suc: "events p (Suc k) s = res_bind (events p k s) (mpi_flag_event p (- 1))"
proof -
  have "replicate (Suc k) (- 1 :: u64) = replicate k (- 1) @ [- 1]" by (simp add: replicate_append_same)
  then show ?thesis unfolding events_def
    by (simp only: fold_res_append) (simp add: res_bind_def split: sum.splits)
qed

lemma events_count:
  assumes "flags s p = Some f" "p \<noteq> 0" "counter f = of_nat n" "n < 2 ^ 31" "f_queue f = 0" "k \<le> n"
  shows "events p k s = Inr (s\<lparr>flags := (flags s)(p \<mapsto> f\<lparr>counter := of_nat (n - k)\<rparr>)\<rparr>)"
  using assms(6)
proof (induction k)
  case 0
  have "(flags s)(p \<mapsto> f\<lparr>counter := of_nat n\<rparr>) = flags s"
    using assms(1,3) by (simp add: fun_upd_idem_iff flip: assms(3))
  then show ?case by simp
next
  case (Suc k)
  let ?t = "s\<lparr>flags := (flags s)(p \<mapsto> f\<lparr>counter := of_nat (n - k)\<rparr>)\<rparr>"
  have IH: "events p k s = Inr ?t" using Suc.prems by (intro Suc.IH) simp
  have "mpi_flag_event p (- 1) ?t =
      Inr (?t\<lparr>flags := (flags ?t)(p \<mapsto> f\<lparr>counter := of_nat (n - k), counter := of_nat (n - k - 1)\<rparr>)\<rparr>)"
    using Suc.prems assms by (intro event_dec) simp_all
  also have "\<dots> = Inr (s\<lparr>flags := (flags s)(p \<mapsto> f\<lparr>counter := of_nat (n - Suc k)\<rparr>)\<rparr>)"
    by (simp del: of_nat_diff)
  finally show ?case unfolding events_Suc IH res_bind_Inr .
qed

section \<open>Properties\<close>

text \<open>
  C31. The life cycle of a signal created for \<open>n < 2 ^ 31\<close> events: after \<open>k \<le> n\<close> completions it is
  triggered exactly if \<open>k = n\<close>, it can be reset exactly then, and the reset restores the state of
  its creation; one completion more than announced is caught by the assertion on the sign.
\<close>

theorem signal_life_cycle:
  assumes "unr_sig_create fresh n s = Inr (sg, s0)" "pool_wf s" "fresh \<noteq> 0" "unat n < 2 ^ 31"
    and "k \<le> unat n"
  shows "\<exists>sk. events (sig_flag_p sg) k s0 = Inr sk \<and>
     unr_sig_check sg sk = Inr (if k = unat n then URU_SIGNAL_TRIGGERED else URU_SIGNAL_WAITING) \<and>
     unr_sig_reset sg sk = (if k = unat n then Inr s0 else Inl (Exit URU_ASSERT_EXIT)) \<and>
     (k = unat n \<longrightarrow> mpi_flag_event (sig_flag_p sg) (- 1) sk = Inl (Exit URU_ASSERT_EXIT))"
proof -
  note c = create_Inr [OF assms(1-3)]
  let ?p = "sig_flag_p sg"
  let ?f = "\<lparr>counter = n, f_queue = 0, num_event = ucast n, f_idx = - 1\<rparr> :: uru_flag_t"
  let ?sk = "s0\<lparr>flags := (flags s0)(?p \<mapsto> ?f\<lparr>counter := of_nat (unat n - k)\<rparr>)\<rparr>"
  have ev: "events ?p k s0 = Inr ?sk"
    using c(5,2) assms(4,5) by (intro events_count [where n = "unat n"]) simp_all
  have small: "unat (of_nat (unat n - k) :: u64) = unat n - k"
    using assms(4) by (intro unat_u64_small) simp
  have zero: "(of_nat (unat n - k) :: u64) = 0 \<longleftrightarrow> k = unat n"
    using assms(4,5) by (subst of_nat_u64_eq_0) auto
  have chk: "unr_sig_check sg ?sk = Inr (if k = unat n then URU_SIGNAL_TRIGGERED else URU_SIGNAL_WAITING)"
    using c(1) assms(4) small zero by (subst check_eq [where f = "?f\<lparr>counter := of_nat (unat n - k)\<rparr>"]) auto
  have widen: "(ucast (ucast n :: u32) :: u64) = n"
    using assms(4)
    by (intro word_unat_eq_iff [THEN iffD2])
      (simp add: unsigned_ucast_eq unsigned_take_bit_eq take_bit_nat_eq_self)
  have "(flags s0)(?p \<mapsto> ?f) = flags s0" using c(5) by (simp add: fun_upd_idem_iff)
  then have rst: "unr_sig_reset sg ?sk = (if k = unat n then Inr s0 else Inl (Exit URU_ASSERT_EXIT))"
    using c(1) zero widen by (simp add: unr_sig_reset_def uru_assert_def)
  have "k = unat n \<longrightarrow> mpi_flag_event ?p (- 1) ?sk = Inl (Exit URU_ASSERT_EXIT)"
    using c(2) by (auto intro!: event_on_zero)
  with ev chk rst show ?thesis by blast
qed

definition sig_example_state :: "unit unr_sig_state_scheme" where
  "sig_example_state =
    \<lparr>uru_mpi = \<lparr>mpi_rank = 0, mpi_size = 1, same_node = [True]\<rparr>, flag_pool = None,
     flags = (\<lambda>_. None), queues = (\<lambda>_. None), unr_ready = True, sigs = (\<lambda>_. None), sig_pools = (\<lambda>_. None)\<rparr>"

theorem signal_life_cycle_witness:
  "\<exists>sg s0 s2. unr_sig_create 64 2 sig_example_state = Inr (sg, s0) \<and>
     events (sig_flag_p sg) 2 s0 = Inr s2 \<and> unr_sig_check sg s2 = Inr URU_SIGNAL_TRIGGERED \<and>
     unr_sig_reset sg s2 = Inr s0"
proof -
  obtain sg s0 where c: "unr_sig_create 64 2 sig_example_state = Inr (sg, s0)"
    by (simp add: unr_sig_create_def sig_example_state_def one_shl_31_def uru_flag_pool_alloc_def)
  have "pool_wf sig_example_state" by (simp add: pool_wf_def sig_example_state_def)
  from signal_life_cycle [OF c this, of 2] c show ?thesis by auto
qed

text \<open>
  The guard of \<open>unr_sig_create\<close> is weaker than its intent: \<open>1<<31\<close> widens to
  \<open>0xFFFFFFFF80000000\<close>, so every count from \<open>2 ^ 31\<close> below that value is accepted, and the very
  first check of such a signal, before any event, ends the process with an overflow report.
\<close>

theorem large_signal_reports_overflow:
  assumes "2 ^ 31 \<le> n" "n < one_shl_31" "unr_ready s" "flag_pool s = None"
  shows "\<exists>sg s0. unr_sig_create fresh n s = Inr (sg, s0) \<and> unr_sig_check sg s0 = Inl (Exit URU_EVENT_OVERFLOW)"
proof -
  have n: "2 ^ 31 \<le> unat n" using assms(1) by (simp add: word_le_nat_alt)
  then have "0 < n" by (metis not_less word_gt_0 unsigned_0 le_zero_eq power_not_zero zero_neq_numeral)
  then show ?thesis
    using assms(2-4) n by (simp add: unr_sig_create_def uru_flag_pool_alloc_def check_eq)
qed

theorem large_signal_reports_overflow_witness:
  "\<exists>sg s0. unr_sig_create 64 (2 ^ 31) sig_example_state = Inr (sg, s0) \<and>
     unr_sig_check sg s0 = Inl (Exit URU_EVENT_OVERFLOW)"
  by (rule large_signal_reports_overflow) (simp_all add: sig_example_state_def one_shl_31_def)


end
