(* ===== verification/Unr_Sig_Pool.thy ===== *)
theory Unr_Sig_Pool
  imports Unr_Sig
begin

text \<open>
  A signal pool at work: the completions of the channels and the calls of
  \<open>unr_sig_pool_detect\<close> as an interleaved step relation, with the invariant that ties the pool's
  queue to the counters of its signals. The queue enters only through the interface \<open>bounded_fifo\<close>.
\<close>

section \<open>Steps\<close>

text \<open>
  \<open>fps\<close> lists the flags of the pool's signals. A step is a completion on a signal of the pool, a
  completion anywhere else with any addition, or a detection by the owner of the pool. A failing
  completion or detection ends the process and is no step.
\<close>

inductive pool_step :: "addr \<Rightarrow> addr list \<Rightarrow> unr_sig_state \<Rightarrow> unr_sig_state \<Rightarrow> bool"
  for pool fps where
  step_event: "p \<in> set fps \<Longrightarrow> mpi_flag_event p (- 1) s = Inr s' \<Longrightarrow> pool_step pool fps s s'"
| step_other: "p \<notin> set fps \<Longrightarrow> mpi_flag_event p add s = Inr s' \<Longrightarrow> pool_step pool fps s s'"
| step_detect: "unr_sig_pool_detect pool s = Inr (r, s') \<Longrightarrow> pool_step pool fps s s'"

inductive_cases pool_stepE: "pool_step pool fps s s'"

inductive pool_run :: "addr \<Rightarrow> addr list \<Rightarrow> unr_sig_state \<Rightarrow> unr_sig_state \<Rightarrow> bool"
  for pool fps where
  run_refl: "pool_run pool fps s s"
| run_step: "pool_run pool fps s t \<Longrightarrow> pool_step pool fps t u \<Longrightarrow> pool_run pool fps s u"

section \<open>The invariant\<close>

definition sig_flags :: "unr_sig_state \<Rightarrow> addr \<Rightarrow> addr list \<Rightarrow> bool" where
  "sig_flags s pool fps \<longleftrightarrow> (\<exists>sp. sig_pools s pool = Some sp \<and> length (sp_sig_arr sp) = length fps \<and>
     (\<forall>i < length fps. \<exists>sg. sigs s (sp_sig_arr sp ! i) = Some sg \<and> sig_flag_p sg = fps ! i))"

definition pool_flag :: "addr \<Rightarrow> nat \<Rightarrow> uru_flag_t \<Rightarrow> bool" where
  "pool_flag pool i f \<longleftrightarrow> f_queue f = pool \<and> f_idx f = int i \<and> unat (counter f) < 2 ^ 31 \<and>
     0 < unat (num_event f) \<and> unat (num_event f) < 2 ^ 31"

definition triggered :: "unr_sig_state \<Rightarrow> addr list \<Rightarrow> int set" where
  "triggered s fps = {int i | i f. i < length fps \<and> flags s (fps ! i) = Some f \<and> counter f = 0}"

definition queued :: "unr_sig_state \<Rightarrow> addr \<Rightarrow> addr list \<Rightarrow> bool" where
  "queued s pool fps \<longleftrightarrow> (\<exists>q. queues s pool = Some q \<and> q_wf q \<and> q_cap q = length fps \<and>
     distinct (q_list q) \<and> set (q_list q) = triggered s fps)"

definition pool_inv :: "addr \<Rightarrow> addr list \<Rightarrow> unr_sig_state \<Rightarrow> bool" where
  "pool_inv pool fps s \<longleftrightarrow> unr_ready s \<and> pool \<noteq> 0 \<and> distinct fps \<and> 0 \<notin> set fps \<and> sig_flags s pool fps \<and>
     (\<forall>i < length fps. \<exists>f. flags s (fps ! i) = Some f \<and> pool_flag pool i f) \<and>
     (\<forall>p f. flags s p = Some f \<longrightarrow> f_queue f = pool \<longrightarrow> p \<in> set fps) \<and> queued s pool fps"

lemma pool_invD:
  assumes "pool_inv pool fps s"
  shows "unr_ready s" "pool \<noteq> 0" "distinct fps" "0 \<notin> set fps" "sig_flags s pool fps"
    "\<And>i. i < length fps \<Longrightarrow> \<exists>f. flags s (fps ! i) = Some f \<and> pool_flag pool i f"
    "\<And>p f. flags s p = Some f \<Longrightarrow> f_queue f = pool \<Longrightarrow> p \<in> set fps" "queued s pool fps"
  using assms by (simp_all add: pool_inv_def)

text \<open>The waiting indices all name signals of the pool, so a free place is left for one that is missing.\<close>

lemma queue_has_room:
  assumes "q_wf q" "q_cap q = length fps" "distinct (q_list q)" "set (q_list q) = triggered s fps"
    and "i < length fps" "int i \<notin> triggered s fps"
  shows "length (q_list q) < q_cap q"
proof -
  have sub: "set (q_list q) \<subseteq> int ` ({..<length fps} - {i})"
    using assms(4,6) by (auto simp: triggered_def)
  have "length (q_list q) = card (set (q_list q))" using assms(3) by (simp add: distinct_card)
  also have "\<dots> \<le> card (int ` ({..<length fps} - {i}))" by (rule card_mono [OF _ sub]) simp
  also have "\<dots> = length fps - 1" using assms(5) by (simp add: card_image)
  finally show ?thesis using assms(2,5) by linarith
qed

lemma in_triggered:
  "x \<in> triggered s fps \<longleftrightarrow>
     0 \<le> x \<and> nat x < length fps \<and> (\<exists>f. flags s (fps ! nat x) = Some f \<and> counter f = 0)"
  by (force simp: triggered_def)

text \<open>Changing one flag of the pool changes the triggered set at its index only.\<close>

lemma triggered_upd:
  assumes "distinct fps" "i < length fps"
  shows "triggered (s\<lparr>flags := (flags s)(fps ! i \<mapsto> f)\<rparr>) fps =
    (if counter f = 0 then insert (int i) (triggered s fps) else triggered s fps - {int i})"
  using assms by (intro set_eqI) (auto simp: in_triggered nth_eq_iff_index_eq)

lemma triggered_queues [simp]: "triggered (s\<lparr>queues := Q\<rparr>) fps = triggered s fps"
  by (simp add: triggered_def)

lemma triggered_flags_other: "p \<notin> set fps \<Longrightarrow> triggered (s\<lparr>flags := (flags s)(p \<mapsto> f)\<rparr>) fps = triggered s fps"
  by (auto simp: triggered_def)

lemma sig_flags_upd [simp]:
  "sig_flags (s\<lparr>flags := F\<rparr>) pool fps = sig_flags s pool fps"
  "sig_flags (s\<lparr>queues := Q\<rparr>) pool fps = sig_flags s pool fps"
  by (simp_all add: sig_flags_def)

text \<open>Rebuilding the invariant after a step that writes one flag of the pool and its queue.\<close>

lemma pool_inv_upd:
  assumes "pool_inv pool fps s" "i < length fps" "pool_flag pool i f"
    and "queues t pool = Some q" "q_wf q" "q_cap q = length fps" "distinct (q_list q)"
    and "set (q_list q) = (if counter f = 0 then insert (int i) (triggered s fps) else triggered s fps - {int i})"
    and t: "t = s\<lparr>queues := Q, flags := (flags s)(fps ! i \<mapsto> f)\<rparr>"
  shows "pool_inv pool fps t"
proof -
  note D = pool_invD [OF assms(1)]
  have tr: "triggered t fps = (if counter f = 0 then insert (int i) (triggered s fps) else triggered s fps - {int i})"
    unfolding t using triggered_upd [OF D(3) assms(2), of "s\<lparr>queues := Q\<rparr>" f] by simp
  have "\<exists>g. flags t (fps ! j) = Some g \<and> pool_flag pool j g" if "j < length fps" for j
    using D(6) [OF that] assms(2,3) D(3) that by (cases "j = i") (auto simp: t nth_eq_iff_index_eq)
  moreover have "p \<in> set fps" if "flags t p = Some g" "f_queue g = pool" for p g
    using that D(7) assms(2) by (auto simp: t split: if_splits)
  moreover have "queued t pool fps" unfolding queued_def tr using assms(4-8) by blast
  ultimately show ?thesis using D(1-5) unfolding pool_inv_def by (simp add: t)
qed

section \<open>Every step keeps the invariant\<close>

lemma dec_unat:
  fixes c :: u64
  assumes "c \<noteq> 0"
  shows "unat (c + - 1) = unat c - 1"
  using assms by (simp add: unat_minus_one)

lemma sint_unat_small:
  fixes c :: u64
  shows "unat c < 2 ^ 63 \<Longrightarrow> sint c = int (unat c)"
  using sint_small [of "unat c"] by simp

text \<open>
  A completion on a signal of the pool that is not triggered yet never fails: where it triggers the
  signal, the queue has room for its index.
\<close>

lemma event_ok:
  assumes inv: "pool_inv pool fps s" and i: "i < length fps"
    and f: "flags s (fps ! i) = Some f" "counter f \<noteq> 0"
  obtains s' where "mpi_flag_event (fps ! i) (- 1) s = Inr s'" "pool_inv pool fps s'"
    "flags s' (fps ! i) = Some (f\<lparr>counter := counter f - 1\<rparr>)"
proof -
  note D = pool_invD [OF inv]
  let ?c = "counter f + - 1"
  have pf: "pool_flag pool i f" using D(6) [OF i] f(1) by simp
  then have c: "unat ?c < 2 ^ 31" "0 \<le> sint ?c"
    using dec_unat [OF f(2)] sint_unat_small [of ?c] by (auto simp: pool_flag_def)
  have p0: "fps ! i \<noteq> 0" using D(4) i nth_mem by metis
  have pf': "pool_flag pool i (f\<lparr>counter := ?c\<rparr>)" using pf c by (simp add: pool_flag_def)
  obtain q where q: "queues s pool = Some q" "q_wf q" "q_cap q = length fps" "distinct (q_list q)"
    "set (q_list q) = triggered s fps" using D(8) by (auto simp: queued_def)
  have nt: "int i \<notin> triggered s fps" using f by (auto simp: triggered_def)
  let ?s1 = "s\<lparr>flags := (flags s)(fps ! i \<mapsto> f\<lparr>counter := ?c\<rparr>)\<rparr>"
  show thesis
  proof (cases "?c = 0")
    case False
    have ev: "mpi_flag_event (fps ! i) (- 1) s = Inr ?s1"
      using p0 f(1) c(2) False by (simp add: mpi_flag_event_def Let_def)
    have eq: "?s1 = s\<lparr>queues := queues s, flags := (flags s)(fps ! i \<mapsto> f\<lparr>counter := ?c\<rparr>)\<rparr>" by simp
    have "pool_inv pool fps ?s1"
      by (rule pool_inv_upd [OF inv i pf' _ q(2-4) _ eq]) (use q False nt in auto)
    then show thesis using that [OF ev] by simp
  next
    case True
    obtain q' where q': "uru_queue_push q (int i) = Inr q'" "q_wf q'" "q_list q' = q_list q @ [int i]"
      "q_cap q' = q_cap q"
      using rq.push_room [OF q(2) queue_has_room [OF q(2-5) i nt]] by blast
    let ?s2 = "?s1\<lparr>queues := (queues s)(pool \<mapsto> q')\<rparr>"
    have "mpi_flag_event (fps ! i) (- 1) s = queue_push_at (f_queue f) (f_idx f) ?s1"
      using p0 f(1) True pf D(2) by (simp add: mpi_flag_event_def Let_def pool_flag_def)
    also have "\<dots> = Inr ?s2" using pf q(1) q'(1) by (simp add: queue_push_at_def pool_flag_def)
    finally have ev: "mpi_flag_event (fps ! i) (- 1) s = Inr ?s2" .
    have eq: "?s2 = s\<lparr>queues := (queues s)(pool \<mapsto> q'), flags := (flags s)(fps ! i \<mapsto> f\<lparr>counter := ?c\<rparr>)\<rparr>"
      by simp
    have "pool_inv pool fps ?s2"
      by (rule pool_inv_upd [OF inv i pf' _ q'(2) _ _ _ eq]) (use q q' True nt in auto)
    then show thesis using that [OF ev] by simp
  qed
qed

text \<open>A completion on a triggered signal that nobody has detected ends the process.\<close>

lemma event_step_inv:
  assumes "pool_inv pool fps s" "p \<in> set fps" "mpi_flag_event p (- 1) s = Inr s'"
  shows "pool_inv pool fps s'"
proof -
  obtain i where i: "i < length fps" "p = fps ! i" using assms(2) by (auto simp: in_set_conv_nth)
  obtain f where f: "flags s p = Some f" using pool_invD(6) [OF assms(1) i(1)] i(2) by blast
  have "p \<noteq> 0" using pool_invD(4) [OF assms(1)] assms(2) by metis
  then have "counter f \<noteq> 0" using event_on_zero [OF f] assms(3) by auto
  then show ?thesis using event_ok [OF assms(1) i(1), of f] f assms(3) i(2) by (metis sum.inject(2))
qed

text \<open>What happens on other flags does not touch the pool.\<close>

lemma pool_inv_other:
  assumes inv: "pool_inv pool fps s" and p: "p \<notin> set fps" and f: "f_queue f \<noteq> pool"
    and Q: "Q pool = queues s pool"
  shows "pool_inv pool fps (s\<lparr>flags := (flags s)(p \<mapsto> f), queues := Q\<rparr>)"
proof -
  note D = pool_invD [OF inv]
  have "p \<noteq> fps ! i" if "i < length fps" for i using p that nth_mem by metis
  moreover have "triggered (s\<lparr>flags := (flags s)(p \<mapsto> f), queues := Q\<rparr>) fps = triggered s fps"
    by (simp add: triggered_flags_other [OF p])
  ultimately show ?thesis using D f Q by (auto simp: pool_inv_def queued_def sig_flags_def)
qed

lemma other_step_inv:
  assumes inv: "pool_inv pool fps s" and p: "p \<notin> set fps" and ev: "mpi_flag_event p add s = Inr s'"
  shows "pool_inv pool fps s'"
proof (cases "p = 0")
  case True
  then show ?thesis using inv ev by (simp add: mpi_flag_event_def)
next
  case False
  then obtain f where f: "flags s p = Some f" using ev by (auto simp: mpi_flag_event_def split: option.splits)
  then have fq: "f_queue f \<noteq> pool" using pool_invD(7) [OF inv] p by blast
  let ?f = "f\<lparr>counter := counter f + add\<rparr>"
  consider "s' = s\<lparr>flags := (flags s)(p \<mapsto> ?f)\<rparr>"
    | "queue_push_at (f_queue f) (f_idx f) (s\<lparr>flags := (flags s)(p \<mapsto> ?f)\<rparr>) = Inr s'"
    using mpi_flag_event_Inr [OF ev f False] by blast
  then show ?thesis
  proof cases
    case 1
    then show ?thesis using pool_inv_other [OF inv p, of ?f "queues s"] fq by simp
  next
    case 2
    then obtain Q where "s' = s\<lparr>flags := (flags s)(p \<mapsto> ?f), queues := Q\<rparr>" "Q pool = queues s pool"
      using fq by (auto simp: queue_push_at_def split: option.splits)
    then show ?thesis using pool_inv_other [OF inv p, of ?f Q] fq by simp
  qed
qed

text \<open>
  Detection never fails: it returns \<open>-1\<close> where no signal is triggered, and otherwise the index that
  has waited longest, re-armed with its full count.
\<close>

lemma detect_ok:
  assumes inv: "pool_inv pool fps s"
  obtains "triggered s fps = {}" "unr_sig_pool_detect pool s = Inr (- 1, s)"
  | i f s' where "i < length fps" "flags s (fps ! i) = Some f" "counter f = 0"
      "unr_sig_pool_detect pool s = Inr (int i, s')" "pool_inv pool fps s'"
      "flags s' (fps ! i) = Some (f\<lparr>counter := ucast (num_event f)\<rparr>)"
      "triggered s' fps = triggered s fps - {int i}"
proof -
  note D = pool_invD [OF inv]
  obtain q where q: "queues s pool = Some q" "q_wf q" "q_cap q = length fps" "distinct (q_list q)"
    "set (q_list q) = triggered s fps" using D(8) by (auto simp: queued_def)
  show thesis
  proof (cases "q_list q")
    case Nil
    have "(queues s)(pool \<mapsto> q) = queues s" using q(1) by (simp add: fun_upd_idem_iff)
    then have "unr_sig_pool_detect pool s = Inr (- 1, s)"
      using D(1) q(1) rq.pop_nil [OF q(2) Nil] by (simp add: unr_sig_pool_detect_def queue_pop_at_def)
    then show thesis using that(1) q(5) Nil by simp
  next
    case (Cons d ds)
    then have dt: "d \<in> triggered s fps" using q(5) by auto
    then obtain i f where i: "d = int i" "i < length fps" "flags s (fps ! i) = Some f" "counter f = 0"
      by (auto simp: triggered_def)
    obtain q' where q': "uru_queue_pop q = Inr (d, q')" "q_wf q'" "q_list q' = ds" "q_cap q' = q_cap q"
      using rq.pop_cons [OF q(2) Cons] by blast
    obtain sp sg where sp: "sig_pools s pool = Some sp" "length (sp_sig_arr sp) = length fps"
      "sigs s (sp_sig_arr sp ! i) = Some sg" "sig_flag_p sg = fps ! i"
      using D(5) i(2) unfolding sig_flags_def by blast
    let ?f = "f\<lparr>counter := ucast (num_event f)\<rparr>"
    let ?s' = "s\<lparr>queues := (queues s)(pool \<mapsto> q'), flags := (flags s)(fps ! i \<mapsto> ?f)\<rparr>"
    have det: "unr_sig_pool_detect pool s = Inr (int i, ?s')"
      using D(1) q(1) q'(1) i sp by (simp add: unr_sig_pool_detect_def queue_pop_at_def)
    have pf: "pool_flag pool i f" using D(6) [OF i(2)] i(3) by simp
    have ne: "unat (ucast (num_event f) :: u64) = unat (num_event f)"
      by (simp add: unsigned_ucast_eq take_bit_nat_eq_self [OF less_trans [OF unsigned_less]])
    then have pf': "pool_flag pool i ?f" using pf by (simp add: pool_flag_def)
    have c: "counter ?f \<noteq> 0" using ne pf by (auto simp: pool_flag_def)
    have dst: "distinct ds" "d \<notin> set ds" "set ds = triggered s fps - {int i}"
      using q(4,5) Cons i(1) by auto
    have tr: "triggered ?s' fps = triggered s fps - {int i}"
      using triggered_upd [OF D(3) i(2), of "s\<lparr>queues := (queues s)(pool \<mapsto> q')\<rparr>" ?f] c by simp
    have "pool_inv pool fps ?s'"
      by (rule pool_inv_upd [OF inv i(2) pf' _ q'(2) _ _ _ refl]) (use q q' dst c in auto)
    then show thesis using that(2) [OF i(2-4) det] tr by simp
  qed
qed

lemma detect_step_inv:
  assumes "pool_inv pool fps s" "unr_sig_pool_detect pool s = Inr (r, s')"
  shows "pool_inv pool fps s'"
  using detect_ok [OF assms(1)] assms by (metis prod.inject sum.inject(2))

lemma pool_step_inv [wf_rules]: "pool_step pool fps s s' \<Longrightarrow> pool_inv pool fps s \<Longrightarrow> pool_inv pool fps s'"
  by (erule pool_stepE) (auto intro: event_step_inv other_step_inv detect_step_inv)

lemma pool_run_inv [wf_rules]: "pool_run pool fps s s' \<Longrightarrow> pool_inv pool fps s \<Longrightarrow> pool_inv pool fps s'"
  by (induction rule: pool_run.induct) (auto intro: pool_step_inv)

section \<open>Creating a pool\<close>

text \<open>
  Signals as \<open>unr_sig_create\<close> leaves them, in the array that is handed to \<open>unr_sig_pool_create\<close>:
  not pooled yet and not triggered. A signal that reached zero before it is pooled would never be
  reported, since only the event that makes its counter zero enters it into the queue.
\<close>

definition new_signal :: "addr list \<Rightarrow> addr \<Rightarrow> unr_sig_state \<Rightarrow> nat \<Rightarrow> bool" where
  "new_signal fps sig_h_arr s i \<longleftrightarrow> (\<exists>sg f. sigs s (sig_h_arr + sizeof_sig * i) = Some sg \<and>
     sig_dst_rank sg = mpi_rank (uru_mpi s) \<and> sig_flag_p sg = fps ! i \<and>
     flags s (fps ! i) = Some f \<and> f_idx f = - 1 \<and> 0 < unat (counter f) \<and> unat (counter f) < 2 ^ 31 \<and>
     num_event f = ucast (counter f))"

definition pool_args :: "addr \<Rightarrow> addr list \<Rightarrow> addr \<Rightarrow> unr_sig_state \<Rightarrow> bool" where
  "pool_args pool fps sig_h_arr s \<longleftrightarrow> unr_ready s \<and> pool \<noteq> 0 \<and> int (length fps) + 1 < 2 ^ 31 \<and>
     distinct fps \<and> 0 \<notin> set fps \<and> (\<forall>i < length fps. new_signal fps sig_h_arr s i) \<and>
     (\<forall>p f. flags s p = Some f \<longrightarrow> f_queue f \<noteq> pool)"

definition same_but_flags :: "unr_sig_state \<Rightarrow> unr_sig_state \<Rightarrow> bool" where
  "same_but_flags s t \<longleftrightarrow> uru_mpi t = uru_mpi s \<and> queues t = queues s \<and> unr_ready t = unr_ready s \<and>
     sigs t = sigs s \<and> sig_pools t = sig_pools s"

lemma sig_pool_add_ok:
  assumes "new_signal fps arr s i" "i < 2 ^ 31" "same_but_flags s t" "flags t (fps ! i) = flags s (fps ! i)"
  obtains f where "sig_pool_add pool arr i t = Inr (t\<lparr>flags := (flags t)(fps ! i \<mapsto> f)\<rparr>)"
    "pool_flag pool i f" "counter f \<noteq> 0"
proof -
  obtain sg f where f: "sigs s (arr + sizeof_sig * i) = Some sg" "sig_dst_rank sg = mpi_rank (uru_mpi s)"
    "sig_flag_p sg = fps ! i" "flags s (fps ! i) = Some f" "f_idx f = - 1" "0 < unat (counter f)"
    "unat (counter f) < 2 ^ 31" "num_event f = ucast (counter f)"
    using assms(1) unfolding new_signal_def by blast
  have "unat (ucast (counter f) :: u32) = unat (counter f)"
    using f(7) by (simp add: unsigned_ucast_eq take_bit_nat_eq_self)
  then have "pool_flag pool i (f\<lparr>f_idx := i32 (int i), f_queue := pool\<rparr>)"
    using f(6-8) assms(2) by (simp add: pool_flag_def i32_id)
  moreover have "counter (f\<lparr>f_idx := i32 (int i), f_queue := pool\<rparr>) \<noteq> 0" using f(6) by auto
  moreover have "sig_pool_add pool arr i t =
      Inr (t\<lparr>flags := (flags t)(fps ! i \<mapsto> f\<lparr>f_idx := i32 (int i), f_queue := pool\<rparr>)\<rparr>)"
    using f(1-5) assms(3,4) by (simp add: sig_pool_add_def same_but_flags_def)
  ultimately show thesis using that by blast
qed

lemma sig_pool_add_all:
  assumes "distinct fps" "\<forall>i < length fps. new_signal fps arr s i" "length fps < 2 ^ 31" "k \<le> length fps"
  shows "\<exists>t. fold_res (sig_pool_add pool arr) [0..<k] s = Inr t \<and> same_but_flags s t \<and>
    (\<forall>i < k. \<exists>f. flags t (fps ! i) = Some f \<and> pool_flag pool i f \<and> counter f \<noteq> 0) \<and>
    (\<forall>p. p \<notin> set (take k fps) \<longrightarrow> flags t p = flags s p)"
  using assms(4)
proof (induction k)
  case 0
  then show ?case by (simp add: same_but_flags_def)
next
  case (Suc k)
  then obtain t where t: "fold_res (sig_pool_add pool arr) [0..<k] s = Inr t" "same_but_flags s t"
    "\<And>i. i < k \<Longrightarrow> \<exists>f. flags t (fps ! i) = Some f \<and> pool_flag pool i f \<and> counter f \<noteq> 0"
    "\<And>p. p \<notin> set (take k fps) \<Longrightarrow> flags t p = flags s p"
    by force
  have k: "k < length fps" using Suc.prems by simp
  have "fps ! k \<notin> set (take k fps)"
    using assms(1) k by (auto simp: in_set_conv_nth nth_eq_iff_index_eq)
  then obtain f where f: "sig_pool_add pool arr k t = Inr (t\<lparr>flags := (flags t)(fps ! k \<mapsto> f)\<rparr>)"
    "pool_flag pool k f" "counter f \<noteq> 0"
    using sig_pool_add_ok [of fps arr s k t] assms(2,3) k t(2,4) by (metis less_trans)
  let ?t = "t\<lparr>flags := (flags t)(fps ! k \<mapsto> f)\<rparr>"
  have "fold_res (sig_pool_add pool arr) [0..<Suc k] s = Inr ?t" using t(1) f(1) by (simp add: fold_res_append)
  moreover have "same_but_flags s ?t" using t(2) by (simp add: same_but_flags_def)
  moreover have "\<exists>f. flags ?t (fps ! i) = Some f \<and> pool_flag pool i f \<and> counter f \<noteq> 0" if "i < Suc k" for i
  proof (cases "i = k")
    case False
    then have "fps ! i \<noteq> fps ! k" using assms(1) k that by (simp add: nth_eq_iff_index_eq)
    then show ?thesis using t(3) [of i] that False by simp
  qed (use f in simp)
  moreover have "flags ?t p = flags s p" if "p \<notin> set (take (Suc k) fps)" for p
    using that t(4) [of p] k by (auto simp: take_Suc_conv_app_nth)
  ultimately show ?case by blast
qed

lemma pool_create_inv:
  assumes "pool_args pool fps arr s"
  obtains s0 where "unr_sig_pool_create pool junk (int (length fps)) arr s = Inr s0" "pool_inv pool fps s0"
    "\<And>i. i < length fps \<Longrightarrow> \<exists>f. flags s0 (fps ! i) = Some f \<and> counter f \<noteq> 0"
proof -
  let ?n = "int (length fps)"
  let ?sp = "\<lparr>sp_num_sigs = ?n, sp_sig_arr = map (\<lambda>i. arr + sizeof_sig * i) [0..<length fps]\<rparr>"
  let ?s1 = "s\<lparr>queues := (queues s)(pool \<mapsto> uru_queue_init junk ?n), sig_pools := (sig_pools s)(pool \<mapsto> ?sp)\<rparr>"
  have A: "unr_ready s" "pool \<noteq> 0" "?n + 1 < 2 ^ 31" "distinct fps" "0 \<notin> set fps"
    "\<And>p f. flags s p = Some f \<Longrightarrow> f_queue f \<noteq> pool"
    using assms by (simp_all add: pool_args_def)
  have new: "\<forall>i < length fps. new_signal fps arr ?s1 i"
    using assms by (simp add: pool_args_def new_signal_def)
  have l: "length fps < 2 ^ 31" using A(3) by simp
  obtain t where t: "fold_res (sig_pool_add pool arr) [0..<length fps] ?s1 = Inr t" "same_but_flags ?s1 t"
    "\<And>i. i < length fps \<Longrightarrow> \<exists>f. flags t (fps ! i) = Some f \<and> pool_flag pool i f \<and> counter f \<noteq> 0"
    "\<And>p. p \<notin> set fps \<Longrightarrow> flags t p = flags ?s1 p"
    using sig_pool_add_all [OF A(4) new l order_refl, of pool] by auto
  note init = queue_init_wf [of ?n junk]
  have "triggered t fps = {}" using t(3) by (fastforce simp: triggered_def)
  then have "queued t pool fps"
    using t(2) init A(3) by (auto simp: queued_def same_but_flags_def)
  moreover have "sig_flags t pool fps"
    using t(2) new by (auto simp: sig_flags_def same_but_flags_def new_signal_def)
  moreover have "p \<in> set fps" if "flags t p = Some f" "f_queue f = pool" for p f
    using that t(4) [of p] A(6) [of p f] by (cases "p \<in> set fps") auto
  ultimately have "pool_inv pool fps t"
    using A(1,2,4,5) t(2,3) unfolding pool_inv_def same_but_flags_def by fastforce
  moreover have "unr_sig_pool_create pool junk ?n arr s = Inr t"
    using A(1) t(1) by (simp add: unr_sig_pool_create_def)
  ultimately show thesis using that t(3) by blast
qed

section \<open>Properties\<close>

text \<open>
  C21. Completions on a pool never fail for want of room and are never lost: in every state that a
  pool reaches, whatever completions and detections came before in whatever order, one more
  completion on a signal that still waits succeeds, and where it is the last one the signal counts
  among the triggered ones.
\<close>

theorem pool_completion_never_fails:
  assumes "pool_args pool fps arr s"
    and "unr_sig_pool_create pool junk (int (length fps)) arr s = Inr s0"
    and "pool_run pool fps s0 t"
    and "i < length fps" "flags t (fps ! i) = Some f" "counter f \<noteq> 0"
  shows "\<exists>t'. mpi_flag_event (fps ! i) (- 1) t = Inr t' \<and>
    flags t' (fps ! i) = Some (f\<lparr>counter := counter f - 1\<rparr>) \<and>
    (\<exists>q. queues t' pool = Some q \<and> (int i \<in> set (q_list q) \<longleftrightarrow> counter f = 1))"
proof -
  have "pool_inv pool fps s0" using pool_create_inv [OF assms(1), of junk] assms(2) by auto
  then have "pool_inv pool fps t" using pool_run_inv assms(3) by blast
  then obtain t' where t': "mpi_flag_event (fps ! i) (- 1) t = Inr t'" "pool_inv pool fps t'"
    "flags t' (fps ! i) = Some (f\<lparr>counter := counter f - 1\<rparr>)"
    using event_ok assms(4-6) by blast
  then have "int i \<in> triggered t' fps \<longleftrightarrow> counter f = 1" using assms(4) by (simp add: in_triggered)
  then show ?thesis using t' pool_invD(8) [OF t'(2)] by (auto simp: queued_def)
qed

text \<open>
  C20. Detection is exact: in every state that a pool reaches it succeeds, it returns the index of a
  signal whose counter is zero and re-arms exactly that signal with its count, and it returns \<open>-1\<close>
  only where no signal of the pool is triggered.
\<close>

theorem pool_detect_exact:
  assumes "pool_args pool fps arr s"
    and "unr_sig_pool_create pool junk (int (length fps)) arr s = Inr s0"
    and "pool_run pool fps s0 t"
  shows "(unr_sig_pool_detect pool t = Inr (- 1, t) \<and> triggered t fps = {}) \<or>
    (\<exists>i f t'. unr_sig_pool_detect pool t = Inr (int i, t') \<and> i < length fps \<and>
       flags t (fps ! i) = Some f \<and> counter f = 0 \<and>
       flags t' (fps ! i) = Some (f\<lparr>counter := ucast (num_event f)\<rparr>) \<and>
       triggered t' fps = triggered t fps - {int i})"
proof -
  have "pool_inv pool fps s0" using pool_create_inv [OF assms(1), of junk] assms(2) by auto
  then have "pool_inv pool fps t" using pool_run_inv assms(3) by blast
  then show ?thesis by (rule detect_ok) blast+
qed

text \<open>Two signals of one and two events, pooled.\<close>

definition pool_example_state :: unr_sig_state where
  "pool_example_state = sig_example_state\<lparr>
     flags := [24 \<mapsto> \<lparr>counter = 1, f_queue = 0, num_event = 1, f_idx = - 1\<rparr>,
               48 \<mapsto> \<lparr>counter = 2, f_queue = 0, num_event = 2, f_idx = - 1\<rparr>],
     sigs := [100 \<mapsto> \<lparr>sig_dst_rank = 0, sig_flag_p = 24\<rparr>, 112 \<mapsto> \<lparr>sig_dst_rank = 0, sig_flag_p = 48\<rparr>]\<rparr>"

lemma pool_example_args: "pool_args 500 [24, 48] 100 pool_example_state"
  by (auto simp: pool_args_def pool_example_state_def sig_example_state_def new_signal_def sizeof_sig_def
      less_Suc_eq split: if_splits)

theorem pool_completion_never_fails_witness:
  "\<exists>s0 t'. unr_sig_pool_create 500 (\<lambda>_. 7) 2 100 pool_example_state = Inr s0 \<and>
     mpi_flag_event 24 (- 1) s0 = Inr t' \<and> (\<exists>q. queues t' 500 = Some q \<and> 0 \<in> set (q_list q))"
proof -
  obtain s0 where s0: "unr_sig_pool_create 500 (\<lambda>_. 7) 2 100 pool_example_state = Inr s0"
    "\<exists>f. flags s0 24 = Some f \<and> counter f = 1"
    by (auto simp: unr_sig_pool_create_def upt_rec sig_pool_add_def pool_example_state_def
        sig_example_state_def sizeof_sig_def)
  then obtain f where "flags s0 24 = Some f" "counter f = 1" by blast
  then show ?thesis
    using pool_completion_never_fails [OF pool_example_args, of "\<lambda>_. 7" s0 s0 0 f] s0 run_refl by auto
qed

theorem pool_detect_exact_witness:
  "\<exists>s0 t t'. unr_sig_pool_create 500 (\<lambda>_. 7) 2 100 pool_example_state = Inr s0 \<and>
     mpi_flag_event 24 (- 1) s0 = Inr t \<and> unr_sig_pool_detect 500 t = Inr (0, t')"
proof -
  obtain s0 t where s0: "unr_sig_pool_create 500 (\<lambda>_. 7) 2 100 pool_example_state = Inr s0"
    and t: "mpi_flag_event 24 (- 1) s0 = Inr t"
    and fl: "\<exists>f. flags t 24 = Some f \<and> counter f = 0" "\<exists>f. flags t 48 = Some f \<and> counter f = 2"
    by (auto simp: unr_sig_pool_create_def upt_rec sig_pool_add_def pool_example_state_def
        sig_example_state_def sizeof_sig_def mpi_flag_event_def queue_push_at_def uru_queue_init_def
        i32_id uru_queue_push_def)
  have tr: "triggered t [24, 48] = {0}"
    using fl by (auto simp: triggered_def less_Suc_eq)
  have run: "pool_run 500 [24, 48] s0 t"
    by (rule run_step [OF run_refl step_event [OF _ t]]) simp
  have len: "int (length [24, 48 :: nat]) = 2" by simp
  obtain i f t' where d: "unr_sig_pool_detect 500 t = Inr (int i, t')" "i < length [24, 48 :: nat]"
    "flags t ([24, 48] ! i) = Some f" "counter f = 0"
    using pool_detect_exact [OF pool_example_args _ run, of "\<lambda>_. 7"] s0 tr unfolding len by blast
  then have "i = 0" using fl(2) by (cases i) auto
  then show ?thesis using s0 t d(1) by auto
qed

end
