(* ===== verification/Uri_Base.thy ===== *)
theory Uri_Base
  imports Uru_Flag
begin

text \<open>
  The channel layer \<open>src/uri/base\<close>: the header every channel has, its table of function pointers,
  the registry that the constructors fill, and the dispatch functions of \<open>uri_channel.c\<close>,
  \<open>uri_mem.c\<close> and \<open>uri_rdma.c\<close>.

  \<open>'s\<close> is the state that the channel modules work on. A channel module is the record of its
  functions, each of which may be missing (a null pointer).
\<close>

section \<open>Channels\<close>

record uri_channel_attr =
  ch_name :: string
  ch_type :: string
  ch_description :: string
  ch_blocksize :: u64
  channel_id :: int

record uri_channel_hdr =
  attr :: uri_channel_attr
  num_devices :: int
  device_id :: int
  opened :: bool
  mem_h_offset :: u64

text \<open>
  One write of a transfer as the arrays of \<open>uri_rdma_plan_create\<close> hold it at one index: the two
  memory handles, the two offsets, the two flags with what they add, and the size.
\<close>

record uri_wrt =
  loc_mem :: addr
  loc_offset :: u64
  loc_flag_p :: addr
  loc_flag_add :: u64
  dma_size :: u64
  rmt_mem :: addr
  rmt_offset :: u64
  rmt_flag_p :: addr
  rmt_flag_add :: u64

text \<open>
  A plan handle is what the channel module returned; it passes through the layer unread.
  Closing may run forever (\<open>None\<close>).
\<close>

record 's uri_channel_func_ptrs =
  channel_open :: "(uri_channel_hdr \<Rightarrow> 's \<Rightarrow> (uru_status_t \<times> 's) res) option"
  channel_daemon :: "(uri_channel_hdr \<Rightarrow> 's \<Rightarrow> (uru_status_t \<times> 's) res) option"
  channel_close :: "(uri_channel_hdr \<Rightarrow> 's \<Rightarrow> (uru_status_t \<times> 's) res option) option"
  mem_h_size :: "(uri_channel_hdr \<Rightarrow> u64) option"
  mem_reg :: "(uri_channel_hdr \<Rightarrow> u64 \<Rightarrow> u64 \<Rightarrow> addr \<Rightarrow> 's \<Rightarrow> (uru_status_t \<times> 's) res) option"
  rdma_plan_create :: "(uri_channel_hdr \<Rightarrow> bool \<Rightarrow> (uru_transfer_t \<times> uri_wrt) list \<Rightarrow> 's \<Rightarrow> (addr \<times> 's) res) option"
  rdma_plan_start :: "(uri_channel_hdr \<Rightarrow> addr \<Rightarrow> 's \<Rightarrow> (uru_status_t \<times> 's) res) option"
  rdma_plan_destroy :: "(uri_channel_hdr \<Rightarrow> addr \<Rightarrow> 's \<Rightarrow> (uru_status_t \<times> 's) res) option"

record 's uri_channel =
  hdr :: uri_channel_hdr
  func_ptrs :: "'s uri_channel_func_ptrs option"

text \<open>\<open>memset(..., 0, sizeof(uri_channel_t))\<close>; a null name is the empty string.\<close>

definition zero_channel :: "'s uri_channel" where
  "zero_channel = \<lparr>hdr = \<lparr>attr = \<lparr>ch_name = [], ch_type = [], ch_description = [], ch_blocksize = 0, channel_id = 0\<rparr>,
     num_devices = 0, device_id = 0, opened = False, mem_h_offset = 0\<rparr>, func_ptrs = None\<rparr>"

text \<open>What \<open>sprintf\<close> writes for \<open>%d\<close>.\<close>

fun digits :: "nat \<Rightarrow> string" where
  "digits n = (if n < 10 then [char_of (48 + n)] else digits (n div 10) @ [char_of (48 + n mod 10)])"

definition show_int :: "int \<Rightarrow> string" where
  "show_int i = (if i < 0 then CHR ''-'' # digits (nat (- i)) else digits (nat i))"

section \<open>The registry\<close>

definition URI_MAX_CHANNEL_NUM :: nat where
  "URI_MAX_CHANNEL_NUM = 16"

text \<open>
  \<open>URI_CHANNEL_REGISTER\<close>: a constructor appends one channel per device of its module. The length
  of the list is \<open>uri_num_channels\<close>; the macro does not test it against the size of the array.
\<close>

definition register_one ::
  "int \<Rightarrow> ('s uri_channel \<Rightarrow> int \<Rightarrow> int \<Rightarrow> 's uri_channel res) \<Rightarrow> nat \<Rightarrow> 's uri_channel list \<Rightarrow> 's uri_channel list res" where
  "register_one n init i arr =
     (if URI_MAX_CHANNEL_NUM \<le> length arr then Inl OutOfBounds
      else res_bind (init zero_channel (int i) n) (\<lambda>c. Inr (arr @ [c])))"

definition URI_CHANNEL_REGISTER ::
  "int \<Rightarrow> ('s uri_channel \<Rightarrow> int \<Rightarrow> int \<Rightarrow> 's uri_channel res) \<Rightarrow> 's uri_channel list \<Rightarrow> 's uri_channel list res" where
  "URI_CHANNEL_REGISTER n init = fold_res (register_one n init) [0..<nat n]"

definition uri_query_channel_list :: "'s uri_channel list \<Rightarrow> 's uri_channel list res" where
  "uri_query_channel_list uri_channel_arr = uru_assert (1 \<le> length uri_channel_arr) (Inr uri_channel_arr)"

definition uri_channel_attr_get :: "'s uri_channel \<Rightarrow> uri_channel_attr" where
  "uri_channel_attr_get ch = attr (hdr ch)"

text \<open>The listing tool, \<open>tools/uri_info.c\<close>: the lines that it prints.\<close>

definition uri_info :: "'s uri_channel list \<Rightarrow> string list res" where
  "uri_info uri_channel_arr =
     res_bind (uri_query_channel_list uri_channel_arr) (\<lambda>chs.
     Inr (''Available URI Channel list:'' # map (\<lambda>ch. let attr = uri_channel_attr_get ch in
       ''- '' @ ch_name attr @ '': '' @ ch_description attr) chs))"

section \<open>Opening, polling and closing a channel\<close>

text \<open>The channel that a handle names, and the state of the modules, go in and come out.\<close>

definition with_func ::
  "('s uri_channel_func_ptrs \<Rightarrow> 'f option) \<Rightarrow> 's uri_channel \<Rightarrow> ('f \<Rightarrow> 'a res) \<Rightarrow> 'a res" where
  "with_func sel ch k =
     (case func_ptrs ch of
        None \<Rightarrow> Inl (Exit URU_ASSERT_EXIT)
      | Some fp \<Rightarrow> (case sel fp of None \<Rightarrow> Inl (Exit URU_ASSERT_EXIT) | Some f \<Rightarrow> k f))"

definition uri_channel_open ::
  "'s uri_channel \<Rightarrow> u64 \<Rightarrow> 's \<Rightarrow> (uru_status_t \<times> 's uri_channel \<times> 's) res" where
  "uri_channel_open ch off s =
     (if opened (hdr ch) then Inr (URU_CHANNEL_OPENED, ch, s)
      else let ch' = ch\<lparr>hdr := (hdr ch)\<lparr>opened := True, mem_h_offset := off\<rparr>\<rparr> in
        with_func channel_open ch' (\<lambda>f. res_bind (f (hdr ch') s) (\<lambda>(st, s). Inr (st, ch', s))))"

definition uri_channel_daemon :: "'s uri_channel \<Rightarrow> 's \<Rightarrow> (uru_status_t \<times> 's) res" where
  "uri_channel_daemon ch s =
     uru_assert (opened (hdr ch)) (with_func channel_daemon ch (\<lambda>f. f (hdr ch) s))"

text \<open>Closing may take arbitrarily long: \<open>None\<close> says that the module has not returned.\<close>

definition uri_channel_close ::
  "'s uri_channel \<Rightarrow> 's \<Rightarrow> (uru_status_t \<times> 's uri_channel \<times> 's) res option" where
  "uri_channel_close ch s =
     (if \<not> opened (hdr ch) then Some (Inl (Exit URU_ASSERT_EXIT))
      else let ch' = ch\<lparr>hdr := (hdr ch)\<lparr>opened := False\<rparr>\<rparr> in
      case with_func channel_close ch' Inr of
        Inl e \<Rightarrow> Some (Inl e)
      | Inr f \<Rightarrow> map_option (\<lambda>r. res_bind r (\<lambda>(st, s). Inr (st, ch', s))) (f (hdr ch') s))"

section \<open>Memory handles\<close>

text \<open>\<open>sizeof(uri_mem_t)\<close>: the structure has no members, which in GNU C is size zero.\<close>

definition sizeof_uri_mem :: u64 where
  "sizeof_uri_mem = 0"

definition uri_mem_h_size :: "'s uri_channel \<Rightarrow> u64 res" where
  "uri_mem_h_size ch =
     uru_assert (opened (hdr ch)) (with_func mem_h_size ch (\<lambda>f. Inr (f (hdr ch) + sizeof_uri_mem)))"

text \<open>
  The head of a memory handle of the layer above (\<open>unr_mem_t\<close>, repeated in \<open>uri_mem_get_info\<close>), and
  the store of these handles.
\<close>

record unr_mem_t =
  m_addr :: u64
  m_size :: u64
  m_rank :: int
  m_idx :: int

type_synonym mem_store = "addr \<Rightarrow> unr_mem_t option"

text \<open>
  \<open>uri_mem_get_info\<close> steps back from the channel's part of a handle to its head by the offset the
  channel was opened with.
\<close>

definition uri_mem_get_info :: "mem_store \<Rightarrow> uri_channel_hdr \<Rightarrow> addr \<Rightarrow> (u64 \<times> u64 \<times> int) res" where
  "uri_mem_get_info mems ch mem_p =
     (if mem_p < unat (mem_h_offset ch) then Inl OutOfBounds
      else case mems (mem_p - unat (mem_h_offset ch)) of
        None \<Rightarrow> Inl OutOfBounds
      | Some m \<Rightarrow> Inr (m_addr m, m_size m, m_rank m))"

text \<open>The state that every channel module extends with its own.\<close>

record uri_state = uru_state +
  mems :: mem_store

definition uri_mem_reg ::
  "'s uri_channel \<Rightarrow> u64 \<Rightarrow> u64 \<Rightarrow> addr \<Rightarrow> 's \<Rightarrow> (uru_status_t \<times> 's) res" where
  "uri_mem_reg ch mem_addr mem_size mem_h s =
     uru_assert (opened (hdr ch)) (with_func mem_reg ch (\<lambda>f. f (hdr ch) mem_addr mem_size mem_h s))"

section \<open>Transfers\<close>

text \<open>
  \<open>dma_type_arr\<close> may be null; otherwise the module sees the type of each write beside the write.
\<close>

definition uri_rdma_plan_create ::
  "'s uri_channel \<Rightarrow> bool \<Rightarrow> uru_transfer_t list option \<Rightarrow> uri_wrt list \<Rightarrow> 's \<Rightarrow> (addr \<times> 's) res" where
  "uri_rdma_plan_create ch once_now dma_type_arr wrts s =
     uru_assert (opened (hdr ch)) (with_func rdma_plan_create ch (\<lambda>f.
       case dma_type_arr of
         None \<Rightarrow> Inl (Exit URU_ASSERT_EXIT)
       | Some ts \<Rightarrow> if length ts < length wrts then Inl OutOfBounds else f (hdr ch) once_now (zip ts wrts) s))"

definition uri_rdma_plan_start :: "'s uri_channel \<Rightarrow> addr \<Rightarrow> 's \<Rightarrow> (uru_status_t \<times> 's) res" where
  "uri_rdma_plan_start ch plan_h s =
     uru_assert (opened (hdr ch)) (with_func rdma_plan_start ch (\<lambda>f. f (hdr ch) plan_h s))"

definition uri_rdma_plan_destroy :: "'s uri_channel \<Rightarrow> addr \<Rightarrow> 's \<Rightarrow> (uru_status_t \<times> 's) res" where
  "uri_rdma_plan_destroy ch plan_h s =
     uru_assert (opened (hdr ch)) (with_func rdma_plan_destroy ch (\<lambda>f. f (hdr ch) plan_h s))"

section \<open>Facts\<close>

lemma with_func_Some [simp]:
  "func_ptrs ch = Some fp \<Longrightarrow> sel fp = Some f \<Longrightarrow> with_func sel ch k = k f"
  by (simp add: with_func_def)

lemma with_func_Inr:
  "with_func sel ch k = Inr x \<longleftrightarrow> (\<exists>fp f. func_ptrs ch = Some fp \<and> sel fp = Some f \<and> k f = Inr x)"
  by (auto simp: with_func_def split: option.splits)

text \<open>A channel whose module implements every function.\<close>

definition implemented :: "'s uri_channel \<Rightarrow> bool" where
  "implemented ch \<longleftrightarrow> (\<exists>fp. func_ptrs ch = Some fp \<and> channel_open fp \<noteq> None \<and> channel_daemon fp \<noteq> None \<and>
     channel_close fp \<noteq> None \<and> mem_h_size fp \<noteq> None \<and> mem_reg fp \<noteq> None \<and> rdma_plan_create fp \<noteq> None \<and>
     rdma_plan_start fp \<noteq> None \<and> rdma_plan_destroy fp \<noteq> None)"

lemma mem_get_info_handle:
  "heads p = Some m \<Longrightarrow> uri_mem_get_info heads ch (p + unat (mem_h_offset ch)) = Inr (m_addr m, m_size m, m_rank m)"
  by (simp add: uri_mem_get_info_def)

text \<open>Registration appends the new channels in the order of their devices, up to the size of the array.\<close>

lemma register_prefix:
  assumes "\<And>i. i < n \<Longrightarrow> init zero_channel (int i) d = Inr (f i)"
  shows "n + length arr \<le> URI_MAX_CHANNEL_NUM \<Longrightarrow>
    fold_res (register_one d init) [0..<n] arr = Inr (arr @ map f [0..<n])"
  using assms by (induction n) (auto simp: fold_res_append register_one_def)

lemma register_stuck:
  assumes "\<And>i. i < n \<Longrightarrow> init zero_channel (int i) d = Inr (f i)"
    and "length arr \<le> URI_MAX_CHANNEL_NUM" "URI_MAX_CHANNEL_NUM < n + length arr"
  shows "fold_res (register_one d init) [0..<n] arr = Inl OutOfBounds"
proof -
  let ?m = "URI_MAX_CHANNEL_NUM - length arr"
  obtain r where n: "n = ?m + Suc r" using assms(2,3) by (metis add_Suc_right less_diff_conv2 less_iff_Suc_add)
  have "[0..<n] = [0..<?m] @ ?m # [Suc ?m..<n]"
    unfolding n by (simp only: upt_add_eq_append [OF zero_le] upt_conv_Cons)
  moreover have "fold_res (register_one d init) [0..<?m] arr = Inr (arr @ map f [0..<?m])"
    using assms n by (intro register_prefix) auto
  ultimately show ?thesis using assms(2) by (simp add: fold_res_append register_one_def)
qed

text \<open>
  Registering the devices of a module whose initialisation succeeds appends one initialised
  channel per device, in order, exactly as long as the registry's array has room; one device more
  writes outside the array, since the macro has no test.
\<close>

theorem register_up_to_array_size:
  assumes "length arr \<le> URI_MAX_CHANNEL_NUM" "0 \<le> d"
    and "\<And>i. i < nat d \<Longrightarrow> init zero_channel (int i) d = Inr (f i)"
  shows "URI_CHANNEL_REGISTER d init arr =
    (if length arr + nat d \<le> URI_MAX_CHANNEL_NUM then Inr (arr @ map f [0..<nat d]) else Inl OutOfBounds)"
  using assms register_prefix [of "nat d" init d f arr] register_stuck [of "nat d" init d f arr]
  unfolding URI_CHANNEL_REGISTER_def by auto

theorem register_up_to_array_size_witness:
  "URI_CHANNEL_REGISTER 17 (\<lambda>c i n. Inr c) ([] :: 's uri_channel list) = Inl OutOfBounds"
  using register_up_to_array_size [of "[] :: 's uri_channel list" 17 "\<lambda>c i n. Inr c" "\<lambda>i. zero_channel"]
  by (simp add: URI_MAX_CHANNEL_NUM_def)

end
