(* ===== verification/Uri_Mpi_Ids.thy ===== *)
theory Uri_Mpi_Ids
  imports Uru_Flag
begin

text \<open>
  The pools of recycled integers of the MPI channel (\<open>src/uri/mpi/uri_mpi_utils.c\<close>), from which it
  takes message tags and batch numbers, and their contract: an identifier in use is never handed
  out again, and identifiers of different ranks never clash.
\<close>

section \<open>The pool\<close>

text \<open>\<open>ip_stack\<close> is the allocated array \<open>recycle_stack\<close>, its length \<open>recycle_len\<close>.\<close>

record uri_mpi_int_pool =
  ip_max :: int
  ip_stack :: "int list"
  ip_top :: nat

text \<open>A pool as \<open>uri_mpi_channel_open\<close> leaves it.\<close>

definition int_pool_init :: uri_mpi_int_pool where
  "int_pool_init = \<lparr>ip_max = 1, ip_stack = [], ip_top = 0\<rparr>"

text \<open>\<open>2100000000/uru_mpi->size\<close>.\<close>

definition id_limit :: "uru_mpi_t \<Rightarrow> int" where
  "id_limit u = 2100000000 sdiv mpi_size u"

definition uri_mpi_int_pool_get :: "uru_mpi_t \<Rightarrow> uri_mpi_int_pool \<Rightarrow> (int \<times> uri_mpi_int_pool) res" where
  "uri_mpi_int_pool_get u pool =
     (if mpi_size u = 0 then Inl DivByZero
      else if length (ip_stack pool) < ip_top pool then Inl OutOfBounds
      else let (ret, pool') =
             (if ip_top pool \<noteq> 0 then (ip_stack pool ! (ip_top pool - 1), pool\<lparr>ip_top := ip_top pool - 1\<rparr>)
              else (ip_max pool, pool\<lparr>ip_max := ip_max pool + 1\<rparr>)) in
        uru_assert (ip_top pool = 0 \<longrightarrow> ip_max pool' < id_limit u)
          (uru_assert (0 \<le> ret \<and> ret < id_limit u)
            (Inr (ret * mpi_size u + mpi_rank u, pool'))))"

definition uri_mpi_int_pool_return :: "uru_mpi_t \<Rightarrow> uri_mpi_int_pool \<Rightarrow> int \<Rightarrow> uri_mpi_int_pool res" where
  "uri_mpi_int_pool_return u pool num =
     res_bind (c_rem num (mpi_size u)) (\<lambda>m.
     uru_assert (m = mpi_rank u)
       (let num' = (num - mpi_rank u) sdiv mpi_size u;
            stack = (if ip_top pool = length (ip_stack pool)
                     then ip_stack pool @ replicate (length (ip_stack pool) + 8) 0 else ip_stack pool) in
        if length stack \<le> ip_top pool then Inl OutOfBounds
        else Inr (pool\<lparr>ip_stack := stack[ip_top pool := num'], ip_top := ip_top pool + 1\<rparr>)))"

section \<open>The contract of an identifier pool\<close>

text \<open>\<open>n\<close> identifiers, one after the other.\<close>

fun get_many :: "('p \<Rightarrow> (int \<times> 'p) res) \<Rightarrow> nat \<Rightarrow> 'p \<Rightarrow> (int list \<times> 'p) res" where
  "get_many get 0 p = Inr ([], p)"
| "get_many get (Suc n) p =
     res_bind (get p) (\<lambda>(x, p). res_bind (get_many get n p) (\<lambda>(xs, p). Inr (x # xs, p)))"

fun return_many :: "('p \<Rightarrow> int \<Rightarrow> 'p res) \<Rightarrow> int list \<Rightarrow> 'p \<Rightarrow> 'p res" where
  "return_many give [] p = Inr p"
| "return_many give (x # xs) p = res_bind (give p x) (return_many give xs)"

text \<open>\<open>inv p out\<close>: in the state \<open>p\<close> exactly the identifiers of \<open>out\<close> are in use.\<close>

locale id_pool =
  fixes get :: "'p \<Rightarrow> (int \<times> 'p) res"
    and give :: "'p \<Rightarrow> int \<Rightarrow> 'p res"
    and inv :: "'p \<Rightarrow> int set \<Rightarrow> bool"
    and room :: nat
  assumes finite_out: "inv p out \<Longrightarrow> finite out"
    and get_total: "inv p out \<Longrightarrow> card out < room \<Longrightarrow> \<exists>x p'. get p = Inr (x, p')"
    and get_full: "inv p out \<Longrightarrow> room \<le> card out \<Longrightarrow> get p = Inl (Exit URU_ASSERT_EXIT)"
    and get_new: "inv p out \<Longrightarrow> get p = Inr (x, p') \<Longrightarrow> x \<notin> out \<and> inv p' (insert x out)"
    and give_used: "inv p out \<Longrightarrow> x \<in> out \<Longrightarrow> \<exists>p'. give p x = Inr p' \<and> inv p' (out - {x})"
begin

lemma get_many_distinct:
  assumes "inv p out" "get_many get n p = Inr (xs, p')"
  shows "length xs = n" "distinct xs" "set xs \<inter> out = {}" "inv p' (out \<union> set xs)"
proof -
  have "length xs = n \<and> distinct xs \<and> set xs \<inter> out = {} \<and> inv p' (out \<union> set xs)"
    using assms
  proof (induction n arbitrary: p out xs)
    case (Suc n)
    then obtain x q ys where x: "get p = Inr (x, q)" "get_many get n q = Inr (ys, p')" "xs = x # ys"
      by auto
    note new = get_new [OF Suc.prems(1) x(1)]
    with Suc.IH [OF _ x(2)] have "length ys = n \<and> distinct ys \<and> set ys \<inter> insert x out = {} \<and>
      inv p' (insert x out \<union> set ys)" by blast
    then show ?case using x(3) new by auto
  qed simp
  then show "length xs = n" "distinct xs" "set xs \<inter> out = {}" "inv p' (out \<union> set xs)" by auto
qed

lemma get_many_total:
  assumes "inv p out" "card out + n \<le> room"
  shows "\<exists>xs p'. get_many get n p = Inr (xs, p')"
  using assms
proof (induction n arbitrary: p out)
  case (Suc n)
  then obtain x q where x: "get p = Inr (x, q)" using get_total [of p out] by auto
  have new: "x \<notin> out" "inv q (insert x out)" using get_new [OF Suc.prems(1) x] by auto
  have "card (insert x out) + n \<le> room" using Suc.prems new(1) finite_out [OF Suc.prems(1)] by simp
  then show ?case using Suc.IH [OF new(2)] x by auto
qed simp

lemma return_many_all:
  assumes "inv p (out \<union> set xs)" "distinct xs" "set xs \<inter> out = {}"
  shows "\<exists>p'. return_many give xs p = Inr p' \<and> inv p' out"
  using assms
proof (induction xs arbitrary: p)
  case (Cons x xs)
  then obtain q where q: "give p x = Inr q" "inv q (out \<union> set (x # xs) - {x})"
    using give_used [of p "out \<union> set (x # xs)" x] by auto
  have "out \<union> set (x # xs) - {x} = out \<union> set xs" using Cons.prems(2,3) by auto
  then show ?case using q Cons.IH [of q] Cons.prems(2,3) by auto
qed simp

end

section \<open>The pool satisfies it\<close>

definition u_ok :: "uru_mpi_t \<Rightarrow> bool" where
  "u_ok u \<longleftrightarrow> 0 < mpi_size u \<and> mpi_size u < 2 ^ 31 \<and> 0 \<le> mpi_rank u \<and> mpi_rank u < mpi_size u"

definition mkid :: "uru_mpi_t \<Rightarrow> int \<Rightarrow> int" where
  "mkid u k = k * mpi_size u + mpi_rank u"

definition free_ids :: "uri_mpi_int_pool \<Rightarrow> int list" where
  "free_ids p = take (ip_top p) (ip_stack p)"

definition int_pool_inv :: "uru_mpi_t \<Rightarrow> uri_mpi_int_pool \<Rightarrow> int set \<Rightarrow> bool" where
  "int_pool_inv u p out \<longleftrightarrow> u_ok u \<and> ip_top p \<le> length (ip_stack p) \<and> 1 \<le> ip_max p \<and>
     (ip_max p = 1 \<or> ip_max p < id_limit u) \<and> distinct (free_ids p) \<and>
     set (free_ids p) \<subseteq> {1..<ip_max p} \<and> out = mkid u ` ({1..<ip_max p} - set (free_ids p))"

lemma mkid_inj [simp]: "u_ok u \<Longrightarrow> mkid u i = mkid u j \<longleftrightarrow> i = j"
  by (auto simp: mkid_def u_ok_def)

lemma mkid_image [simp]: "u_ok u \<Longrightarrow> mkid u k \<in> mkid u ` A \<longleftrightarrow> k \<in> A"
  by auto

lemma mkid_mod: "u_ok u \<Longrightarrow> mkid u k mod mpi_size u = mpi_rank u"
  by (simp add: mkid_def u_ok_def)

lemma sdiv_pos: "0 \<le> a \<Longrightarrow> 0 < b \<Longrightarrow> a sdiv b = a div (b::int)"
  by (cases "a = 0") (auto simp: signed_divide_int_def sgn_if)

lemma id_limit_pos: "u_ok u \<Longrightarrow> id_limit u = 2100000000 div mpi_size u"
  by (simp add: id_limit_def u_ok_def sdiv_pos)

lemma mkid_bound:
  assumes "u_ok u" "1 \<le> k" "k < id_limit u"
  shows "0 < mkid u k" "mkid u k < 2100000000"
proof -
  show "0 < mkid u k" using assms by (auto simp: mkid_def u_ok_def intro!: add_pos_nonneg)
  have "(k + 1) * mpi_size u \<le> (2100000000 div mpi_size u) * mpi_size u"
    using assms by (intro mult_right_mono) (auto simp: id_limit_pos u_ok_def)
  also have "\<dots> \<le> 2100000000" using assms(1) by (simp add: minus_mod_eq_div_mult [symmetric] u_ok_def)
  finally have "(k + 1) * mpi_size u \<le> 2100000000" .
  then show "mkid u k < 2100000000" using assms(1) by (simp add: mkid_def u_ok_def algebra_simps)
qed

lemma mkid_c_rem:
  assumes "u_ok u" "1 \<le> k"
  shows "c_rem (mkid u k) (mpi_size u) = Inr (mpi_rank u)" "(mkid u k - mpi_rank u) sdiv mpi_size u = k"
proof -
  have "0 \<le> mkid u k" using assms by (simp add: mkid_def u_ok_def)
  then show "c_rem (mkid u k) (mpi_size u) = Inr (mpi_rank u)"
    using assms(1) mkid_mod [OF assms(1)] by (simp add: u_ok_def)
  show "(mkid u k - mpi_rank u) sdiv mpi_size u = k"
    using assms by (simp add: mkid_def u_ok_def sdiv_pos)
qed

text \<open>How many identifiers may be in use at once.\<close>

definition id_room :: "uru_mpi_t \<Rightarrow> nat" where
  "id_room u = nat (id_limit u - 2)"

lemma int_pool_invD:
  assumes "int_pool_inv u p out"
  shows "u_ok u" "ip_top p \<le> length (ip_stack p)" "1 \<le> ip_max p" "ip_max p = 1 \<or> ip_max p < id_limit u"
    "distinct (free_ids p)" "set (free_ids p) \<subseteq> {1..<ip_max p}"
    "out = mkid u ` ({1..<ip_max p} - set (free_ids p))"
  using assms by (simp_all add: int_pool_inv_def)

lemma length_free_ids [simp]: "ip_top p \<le> length (ip_stack p) \<Longrightarrow> length (free_ids p) = ip_top p"
  by (simp add: free_ids_def)

lemma card_out:
  assumes "int_pool_inv u p out"
  shows "int (card out) = ip_max p - 1 - int (ip_top p)"
proof -
  note D = int_pool_invD [OF assms]
  have "card out = card ({1..<ip_max p} - set (free_ids p))"
    unfolding D(7) by (rule card_image) (simp add: inj_on_def D(1))
  also have "\<dots> = nat (ip_max p - 1) - ip_top p"
    using D(2,5,6) by (simp add: card_Diff_subset distinct_card)
  finally have c: "card out = nat (ip_max p - 1) - ip_top p" .
  have "card (set (free_ids p)) \<le> card {1..<ip_max p}" using D(6) by (intro card_mono) auto
  then have "int (ip_top p) \<le> ip_max p - 1" using D(2,3,5) by (simp add: distinct_card)
  then show ?thesis using c D(3) by simp
qed

lemma free_ids_pop:
  assumes "ip_top p \<noteq> 0" "ip_top p \<le> length (ip_stack p)"
  shows "free_ids p = free_ids (p\<lparr>ip_top := ip_top p - 1\<rparr>) @ [ip_stack p ! (ip_top p - 1)]"
  using assms take_Suc_conv_app_nth [of "ip_top p - 1" "ip_stack p"] by (simp add: free_ids_def)

lemma get_step:
  assumes inv: "int_pool_inv u p out"
  shows "card out < id_room u \<Longrightarrow> \<exists>x p'. uri_mpi_int_pool_get u p = Inr (x, p')"
    and "id_room u \<le> card out \<Longrightarrow> uri_mpi_int_pool_get u p = Inl (Exit URU_ASSERT_EXIT)"
    and "uri_mpi_int_pool_get u p = Inr (x, p') \<Longrightarrow> x \<notin> out \<and> int_pool_inv u p' (insert x out)"
proof -
  note D = int_pool_invD [OF inv]
  have card: "int (card out) = ip_max p - 1 - int (ip_top p)" by (rule card_out [OF inv])
  have sz: "mpi_size u \<noteq> 0" using D(1) by (simp add: u_ok_def)
  let ?k = "ip_stack p ! (ip_top p - 1)" and ?p = "p\<lparr>ip_top := ip_top p - 1\<rparr>"
  have recycled: "?k \<in> {1..<ip_max p} \<and> ?k \<notin> set (free_ids ?p) \<and> distinct (free_ids ?p) \<and>
      set (free_ids ?p) = set (free_ids p) - {?k} \<and> ip_max p < id_limit u" if "ip_top p \<noteq> 0"
  proof -
    note pop = free_ids_pop [OF that D(2)]
    have "distinct (free_ids ?p @ [?k])" using D(5) unfolding pop .
    moreover have s: "set (free_ids p) = insert ?k (set (free_ids ?p))" unfolding pop by simp
    ultimately show ?thesis using D(4,6) by auto
  qed
  have new: "uri_mpi_int_pool_get u p = uru_assert (ip_max p + 1 < id_limit u)
      (Inr (mkid u (ip_max p), p\<lparr>ip_max := ip_max p + 1\<rparr>))" if "ip_top p = 0"
    using that sz D(3) by (auto simp: uri_mpi_int_pool_get_def Let_def mkid_def uru_assert_def)
  have rec: "uri_mpi_int_pool_get u p = Inr (mkid u ?k, ?p)" if "ip_top p \<noteq> 0"
    using that sz D(2) recycled [OF that] by (auto simp: uri_mpi_int_pool_get_def Let_def mkid_def)
  show "\<exists>x p'. uri_mpi_int_pool_get u p = Inr (x, p')" if "card out < id_room u"
    using that card new rec by (cases "ip_top p = 0") (auto simp: id_room_def)
  show "uri_mpi_int_pool_get u p = Inl (Exit URU_ASSERT_EXIT)" if "id_room u \<le> card out"
  proof (cases "ip_top p = 0")
    case True
    then have "\<not> ip_max p + 1 < id_limit u" using that card unfolding id_room_def by linarith
    then show ?thesis using new [OF True] by simp
  next
    case False
    then have "ip_max p < id_limit u" using recycled by blast
    then have "\<not> id_room u \<le> card out" using card False unfolding id_room_def by linarith
    then show ?thesis using that by blast
  qed
  show "x \<notin> out \<and> int_pool_inv u p' (insert x out)" if g: "uri_mpi_int_pool_get u p = Inr (x, p')"
  proof (cases "ip_top p = 0")
    case True
    have x: "x = mkid u (ip_max p)" "p' = p\<lparr>ip_max := ip_max p + 1\<rparr>" "ip_max p + 1 < id_limit u"
      using g unfolding new [OF True] by simp_all
    have fr: "free_ids p = []" "free_ids p' = []" using True x(2) by (simp_all add: free_ids_def)
    have up: "{1..<ip_max p + 1} = insert (ip_max p) {1..<ip_max p}" using D(3) by auto
    have "x \<notin> out" unfolding D(7) x(1) using D(1) by simp
    moreover have "int_pool_inv u p' (insert x out)"
      using D(1,2,3) x fr up True unfolding int_pool_inv_def D(7) by simp
    ultimately show ?thesis by blast
  next
    case False
    have x: "x = mkid u ?k" "p' = ?p" using g unfolding rec [OF False] by simp_all
    note r = recycled [OF False]
    have st: "{1..<ip_max p} - set (free_ids ?p) = insert ?k ({1..<ip_max p} - set (free_ids p))"
      using r by blast
    have "?k \<in> set (free_ids p)" by (subst free_ids_pop [OF False D(2)]) simp
    then have "x \<notin> out" unfolding D(7) x(1) using D(1) by simp
    moreover have "int_pool_inv u p' (insert x out)"
      unfolding int_pool_inv_def x(2)
    proof (intro conjI)
      show "set (free_ids ?p) \<subseteq> {1..<ip_max ?p}" using r D(6) by auto
      show "insert x out = mkid u ` ({1..<ip_max ?p} - set (free_ids ?p))" using st by (simp add: D(7) x(1))
    qed (use D(1-3) r in simp_all)
    ultimately show ?thesis by blast
  qed
qed

lemma return_step:
  assumes inv: "int_pool_inv u p out" and x: "x \<in> out"
  shows "\<exists>p'. uri_mpi_int_pool_return u p x = Inr p' \<and> int_pool_inv u p' (out - {x})"
proof -
  note D = int_pool_invD [OF inv]
  obtain k where k: "x = mkid u k" "k \<in> {1..<ip_max p}" "k \<notin> set (free_ids p)"
    using x unfolding D(7) by auto
  let ?st = "if ip_top p = length (ip_stack p) then ip_stack p @ replicate (length (ip_stack p) + 8) 0 else ip_stack p"
  let ?p = "p\<lparr>ip_stack := ?st[ip_top p := k], ip_top := ip_top p + 1\<rparr>"
  have room: "ip_top p < length ?st" using D(2) by simp
  have ret: "uri_mpi_int_pool_return u p x = Inr ?p"
    unfolding uri_mpi_int_pool_return_def k(1) using mkid_c_rem [OF D(1), of k] k(2) room by (simp add: Let_def)
  have fr: "free_ids ?p = free_ids p @ [k]"
    using room D(2) take_Suc_conv_app_nth [of "ip_top p" "?st[ip_top p := k]"] by (simp add: free_ids_def)
  have "mkid u ` ({1..<ip_max p} - set (free_ids ?p)) = out - {x}"
    unfolding D(7) k(1) fr using D(1) by auto
  then have "int_pool_inv u ?p (out - {x})"
    unfolding int_pool_inv_def using D room k fr by simp
  then show ?thesis using ret by blast
qed

lemma finite_int_pool_out: "int_pool_inv u p out \<Longrightarrow> finite out"
  by (simp add: int_pool_inv_def)

lemma int_pool_init_inv [wf_rules]: "u_ok u \<Longrightarrow> int_pool_inv u int_pool_init {}"
  by (simp add: int_pool_inv_def int_pool_init_def free_ids_def)

interpretation ip: id_pool "uri_mpi_int_pool_get u" "uri_mpi_int_pool_return u" "int_pool_inv u" "id_room u" for u
  by unfold_locales (auto intro: finite_int_pool_out dest: get_step return_step simp: get_step(2))

lemma int_pool_ids:
  "int_pool_inv u p out \<Longrightarrow> x \<in> out \<Longrightarrow> 0 < x \<and> x < 2100000000 \<and> x mod mpi_size u = mpi_rank u"
  unfolding int_pool_inv_def using mkid_bound mkid_mod by fastforce

section \<open>Properties\<close>

text \<open>A history of one pool, with the set of the identifiers in use.\<close>

inductive int_pool_run :: "uru_mpi_t \<Rightarrow> uri_mpi_int_pool \<Rightarrow> int set \<Rightarrow> bool" for u where
  run_init: "int_pool_run u int_pool_init {}"
| run_get: "int_pool_run u p out \<Longrightarrow> uri_mpi_int_pool_get u p = Inr (x, p') \<Longrightarrow> int_pool_run u p' (insert x out)"
| run_return: "int_pool_run u p out \<Longrightarrow> x \<in> out \<Longrightarrow> uri_mpi_int_pool_return u p x = Inr p' \<Longrightarrow>
    int_pool_run u p' (out - {x})"

lemma int_pool_run_inv: "int_pool_run u p out \<Longrightarrow> u_ok u \<Longrightarrow> int_pool_inv u p out"
proof (induction rule: int_pool_run.induct)
  case (run_get p out x p')
  then show ?case using ip.get_new by blast
next
  case (run_return p out x p')
  then show ?case using ip.give_used by fastforce
qed (rule int_pool_init_inv)

text \<open>
  C24. After any history of a pool, the identifiers drawn for one plan are pairwise different, differ
  from all that are in use, lie strictly between 0 and 2100000000, and carry the rank of their
  process, so that pools of different processes never produce the same identifier; giving them back
  succeeds and leaves exactly the earlier ones in use.
\<close>

theorem int_pool_ids_unique:
  assumes "int_pool_run u p out" "u_ok u" "get_many (uri_mpi_int_pool_get u) n p = Inr (xs, p')"
  shows "distinct xs \<and> set xs \<inter> out = {} \<and>
    (\<forall>x \<in> set xs. 0 < x \<and> x < 2100000000 \<and> x mod mpi_size u = mpi_rank u) \<and>
    (\<exists>p''. return_many (uri_mpi_int_pool_return u) xs p' = Inr p'' \<and> int_pool_inv u p'' out)"
proof -
  have inv: "int_pool_inv u p out" using int_pool_run_inv assms(1,2) by blast
  note many = ip.get_many_distinct [OF inv assms(3)]
  show ?thesis using many int_pool_ids [OF many(4)] ip.return_many_all [OF many(4,2,3)] by blast
qed

definition example_mpi :: uru_mpi_t where
  "example_mpi = \<lparr>mpi_rank = 1, mpi_size = 2, same_node = [True, True]\<rparr>"

lemma example_mpi_ok [simp]: "u_ok example_mpi"
  by (simp add: u_ok_def example_mpi_def)

theorem int_pool_ids_unique_witness:
  "\<exists>p'. get_many (uri_mpi_int_pool_get example_mpi) 2 int_pool_init = Inr ([3, 5], p') \<and>
     (\<forall>x \<in> {3, 5}. 0 < x \<and> x < 2100000000 \<and> x mod mpi_size example_mpi = mpi_rank example_mpi)"
proof -
  obtain p' where p': "get_many (uri_mpi_int_pool_get example_mpi) 2 int_pool_init = Inr ([3, 5], p')"
    by (simp add: numeral_2_eq_2 uri_mpi_int_pool_get_def int_pool_init_def example_mpi_def
        id_limit_def signed_divide_int_def)
  show ?thesis using p' int_pool_ids_unique [OF run_init example_mpi_ok p'] by auto
qed

text \<open>
  The bound is exact: a pool refuses an identifier (and ends the process) precisely when
  \<open>2100000000 / size - 2\<close> of its identifiers are in use, however often identifiers have been
  recycled.
\<close>

theorem int_pool_capacity_exact:
  assumes "int_pool_run u p out" "u_ok u"
  shows "(uri_mpi_int_pool_get u p =
      Inl (Exit URU_ASSERT_EXIT) \<longleftrightarrow> nat (2100000000 div mpi_size u - 2) \<le> card out) \<and>
    ((\<exists>x p'. uri_mpi_int_pool_get u p = Inr (x, p')) \<longleftrightarrow> card out < nat (2100000000 div mpi_size u - 2))"
proof -
  have inv: "int_pool_inv u p out" using int_pool_run_inv assms by blast
  have room: "id_room u = nat (2100000000 div mpi_size u - 2)" using assms(2) by (simp add: id_room_def id_limit_pos)
  show ?thesis
    using ip.get_total [OF inv] ip.get_full [OF inv] unfolding room by force+
qed

theorem int_pool_capacity_exact_witness:
  "\<exists>x p'. uri_mpi_int_pool_get example_mpi int_pool_init = Inr (x, p')"
  using int_pool_capacity_exact [OF run_init example_mpi_ok] by (simp add: example_mpi_def)

end
