(* ===== verification/Uri_Mpi_Channel.thy ===== *)
theory Uri_Mpi_Channel
  imports Uri_Base Uri_Mpi_Ids
begin

text \<open>
  The MPI channel module, \<open>src/uri/mpi/uri_mpi_channel.c\<close> with the request queue of
  \<open>uri_mpi_utils.c\<close>: opening, the control messages between processes, and the daemon that
  completes operations and compacts the queue.

  MPI is outside: the calls the module issues are logged in order, and a request handle is the
  position in the log of the call that made it. What MPI answers (the messages that the probes
  find, the requests that \<open>MPI_Testsome\<close> reports) are arguments. Blocks of operations live in a
  heap by address; a freed block is gone from it, and addresses are not used twice.
\<close>

unbundle bit_operations_syntax

section \<open>Operations, batches and control messages\<close>

text \<open>An operation; \<open>op_req\<close> is its request handle.\<close>

record uri_mpi_op_t =
  op_addr :: addr
  op_size :: u64
  op_flag_p :: addr
  op_flag_add :: u64
  op_rank :: int
  op_tag :: int
  op_req :: nat
  op_flag :: u32
  op_type :: u32

definition FREE_OP :: u32 where "FREE_OP = 1"
definition KEEP_OP :: u32 where "KEEP_OP = 2"
definition FREE_ADDR :: u32 where "FREE_ADDR = 4"
definition KEEP_ADDR :: u32 where "KEEP_ADDR = 8"
definition FREE_REQ :: u32 where "FREE_REQ = 16"
definition KEEP_REQ :: u32 where "KEEP_REQ = 32"
definition FREE_TAG :: u32 where "FREE_TAG = 64"
definition KEEP_TAG :: u32 where "KEEP_TAG = 128"
definition OP_SEND :: u32 where "OP_SEND = 2"
definition OP_RECV :: u32 where "OP_RECV = 4"

lemmas op_flag_defs = FREE_OP_def KEEP_OP_def FREE_ADDR_def KEEP_ADDR_def FREE_REQ_def KEEP_REQ_def
  FREE_TAG_def KEEP_TAG_def OP_SEND_def OP_RECV_def

definition zero_op :: uri_mpi_op_t where
  "zero_op = \<lparr>op_addr = 0, op_size = 0, op_flag_p = 0, op_flag_add = 0, op_rank = 0, op_tag = 0,
     op_req = 0, op_flag = 0, op_type = 0\<rparr>"

text \<open>A pointer to an operation: its block and its index in the block.\<close>

type_synonym op_ptr = "addr \<times> nat"

text \<open>A batch of operations in memory; \<open>num_op\<close> is the length of its block.\<close>

record uri_mpi_op_batch_t =
  b_batch_id :: int
  b_ops :: addr

datatype ctrl_type =
    invalid | enlarge_max_ctrl_msg_size | create_op_batch | destroy_op_batch | start_op_batch
  | execute_op_batch

text \<open>\<open>cm_ops\<close> are the operations of the batch that follows the message, if one does.\<close>

record uri_mpi_ctrl_msg_t =
  cm_type :: ctrl_type
  cm_batch_id :: int
  cm_ops :: "uri_mpi_op_t list option"

section \<open>The state of the module\<close>

text \<open>The MPI calls with the arguments that matter; counts are C \<open>int\<close>s.\<close>

datatype mpi_call =
    MPI_Isend_ctrl int uri_mpi_ctrl_msg_t
  | MPI_Isend addr int int int
  | MPI_Irecv addr int int int
  | MPI_Send_init addr int int int
  | MPI_Recv_init addr int int int
  | MPI_Start nat
  | MPI_Request_free nat

record uri_mpi_plan_t =
  pl_send_batch :: uri_mpi_op_batch_t
  pl_recv_batch :: "uri_mpi_op_batch_t list"

text \<open>
  \<open>req_q\<close> holds \<open>req_arr\<close> and \<open>op_arr\<close> side by side (they are always written together), its length
  is \<open>arr_len\<close>; \<open>recv_batch\<close> has one table per source rank, of length \<open>recv_batch_size\<close>.
\<close>

record uri_mpi_state = uri_state +
  mpi_tag :: "uri_mpi_int_pool list"
  batch_id :: "uri_mpi_int_pool list"
  req_q :: "(nat \<times> op_ptr) list"
  arr_tail :: nat
  recv_batch :: "uri_mpi_op_batch_t option list list"
  op_heap :: "addr \<Rightarrow> uri_mpi_op_t list option"
  ctrl_heap :: "addr \<Rightarrow> uri_mpi_ctrl_msg_t option"
  mpi_plans :: "addr \<Rightarrow> uri_mpi_plan_t option"
  brk :: addr
  mpi_log :: "mpi_call list"

definition mpi_issue :: "mpi_call \<Rightarrow> ('z) uri_mpi_state_scheme \<Rightarrow> nat \<times> 'z uri_mpi_state_scheme" where
  "mpi_issue c s = (length (mpi_log s), s\<lparr>mpi_log := mpi_log s @ [c]\<rparr>)"

definition op_alloc :: "uri_mpi_op_t list \<Rightarrow> ('z) uri_mpi_state_scheme \<Rightarrow> addr \<times> 'z uri_mpi_state_scheme" where
  "op_alloc ops s = (brk s, s\<lparr>op_heap := (op_heap s)(brk s \<mapsto> ops), brk := brk s + 1\<rparr>)"

definition op_block :: "addr \<Rightarrow> ('z) uri_mpi_state_scheme \<Rightarrow> uri_mpi_op_t list res" where
  "op_block p s = (case op_heap s p of None \<Rightarrow> Inl UseAfterFree | Some ops \<Rightarrow> Inr ops)"

definition op_load :: "op_ptr \<Rightarrow> ('z) uri_mpi_state_scheme \<Rightarrow> uri_mpi_op_t res" where
  "op_load p s = res_bind (op_block (fst p) s) (\<lambda>ops.
     if snd p < length ops then Inr (ops ! snd p) else Inl OutOfBounds)"

definition op_free :: "addr \<Rightarrow> ('z) uri_mpi_state_scheme \<Rightarrow> 'z uri_mpi_state_scheme res" where
  "op_free p s = res_bind (op_block p s) (\<lambda>_. Inr (s\<lparr>op_heap := (op_heap s)(p := None)\<rparr>))"

text \<open>The conversion of a \<open>size_t\<close> to the \<open>int\<close> count of an MPI call.\<close>

definition mpi_count :: "u64 \<Rightarrow> int" where
  "mpi_count sz = i32 (uint sz)"

section \<open>Initialisation and opening\<close>

text \<open>\<open>sprintf("mpi%d", device_id)\<close> into five bytes: a longer name overflows them.\<close>

definition uri_mpi_channel_init ::
  "'s uri_channel_func_ptrs \<Rightarrow> 's uri_channel \<Rightarrow> int \<Rightarrow> int \<Rightarrow> 's uri_channel res" where
  "uri_mpi_channel_init uri_mpi_channel_func_ptrs ch dev n =
     (let name = (if n \<noteq> 1 then ''mpi'' @ show_int dev else ''mpi'') in
      if n \<noteq> 1 \<and> 5 \<le> length name then Inl OutOfBounds
      else Inr (ch\<lparr>hdr := (hdr ch)\<lparr>attr := (attr (hdr ch))\<lparr>ch_name := name, ch_type := ''mpi'',
          ch_description := ''MPI channel: Use MPI to communicate among processes. It is mainly used in intra-node communication.'',
          ch_blocksize := 4096\<rparr>, device_id := dev, num_devices := n\<rparr>,
          func_ptrs := Some uri_mpi_channel_func_ptrs\<rparr>))"

definition uri_mpi_get_num_devices :: "string option \<Rightarrow> int" where
  "uri_mpi_get_num_devices env = (case env of Some e \<Rightarrow> i32 (atoi e) | None \<Rightarrow> 1)"

text \<open>\<open>thread_multiple\<close>: MPI reports \<open>MPI_THREAD_MULTIPLE\<close>.\<close>

definition uri_mpi_channel_open ::
  "bool \<Rightarrow> uri_channel_hdr \<Rightarrow> ('z) uri_mpi_state_scheme \<Rightarrow> (uru_status_t \<times> 'z uri_mpi_state_scheme) res" where
  "uri_mpi_channel_open thread_multiple ch s =
     uru_assert thread_multiple
       (let n = nat (mpi_size (uru_mpi s)) in
        Inr (URU_STATUS_OK,
          s\<lparr>mpi_tag := replicate n int_pool_init, batch_id := replicate n int_pool_init,
            recv_batch := replicate n [], req_q := replicate 1024 (0, (0, 0)), arr_tail := 0\<rparr>))"

text \<open>\<open>uri_mpi_mem.c\<close>: the module keeps nothing in a memory handle.\<close>

definition uri_mpi_mem_h_size :: "uri_channel_hdr \<Rightarrow> u64" where
  "uri_mpi_mem_h_size ch = 0"

definition uri_mpi_mem_reg ::
  "uri_channel_hdr \<Rightarrow> u64 \<Rightarrow> u64 \<Rightarrow> addr \<Rightarrow> ('z) uri_mpi_state_scheme \<Rightarrow> (uru_status_t \<times> 'z uri_mpi_state_scheme) res" where
  "uri_mpi_mem_reg ch mem_addr mem_size mem_p s = Inr (URU_STATUS_OK, s)"

section \<open>The request queue\<close>

definition req_put :: "op_ptr \<Rightarrow> ('z) uri_mpi_state_scheme \<Rightarrow> 'z uri_mpi_state_scheme res" where
  "req_put p s = res_bind (op_load p s) (\<lambda>op.
     if length (req_q s) \<le> arr_tail s then Inl OutOfBounds
     else Inr (s\<lparr>req_q := (req_q s)[arr_tail s := (op_req op, p)], arr_tail := arr_tail s + 1\<rparr>))"

definition uri_mpi_req_que_app ::
  "op_ptr list \<Rightarrow> ('z) uri_mpi_state_scheme \<Rightarrow> 'z uri_mpi_state_scheme res" where
  "uri_mpi_req_que_app mpi_op s =
     (let s = (if length (req_q s) < arr_tail s + length mpi_op
               then s\<lparr>req_q := req_q s @ replicate ((arr_tail s + length mpi_op) * 2 - length (req_q s)) (0, (0, 0))\<rparr>
               else s) in
      fold_res req_put mpi_op s)"

text \<open>The requests that are still waiting.\<close>

definition waiting :: "('z) uri_mpi_state_scheme \<Rightarrow> (nat \<times> op_ptr) list" where
  "waiting s = take (arr_tail s) (req_q s)"

section \<open>Control messages\<close>

text \<open>The persistent request of one received operation.\<close>

definition recv_op_init :: "uri_mpi_op_t \<Rightarrow> ('z) uri_mpi_state_scheme \<Rightarrow> (uri_mpi_op_t \<times> 'z uri_mpi_state_scheme) res" where
  "recv_op_init op s =
     (if (op_type op AND OP_RECV) \<noteq> 0 then
        let (r, s) = mpi_issue (MPI_Recv_init (op_addr op) (mpi_count (op_size op)) (op_rank op) (op_tag op)) s
        in Inr (op\<lparr>op_req := r\<rparr>, s)
      else if (op_type op AND OP_SEND) \<noteq> 0 then
        let (r, s) = mpi_issue (MPI_Send_init (op_addr op) (mpi_count (op_size op)) (op_rank op) (op_tag op)) s
        in Inr (op\<lparr>op_req := r\<rparr>, s)
      else Inl (Exit URU_MPI_CHANNEL_ERROR_EXIT))"

fun recv_ops_init :: "uri_mpi_op_t list \<Rightarrow> ('z) uri_mpi_state_scheme \<Rightarrow> (uri_mpi_op_t list \<times> 'z uri_mpi_state_scheme) res" where
  "recv_ops_init [] s = Inr ([], s)"
| "recv_ops_init (op # ops) s =
     res_bind (recv_op_init op s) (\<lambda>(op, s). res_bind (recv_ops_init ops s) (\<lambda>(ops, s). Inr (op # ops, s)))"

text \<open>One operation of an \<open>execute_op_batch\<close> message: a copy of its own that starts at once.\<close>

definition exec_op :: "uri_mpi_op_t \<Rightarrow> ('z) uri_mpi_state_scheme \<Rightarrow> (op_ptr \<times> 'z uri_mpi_state_scheme) res" where
  "exec_op op s =
     res_bind
       (if (op_type op AND OP_RECV) \<noteq> 0 then
          Inr (mpi_issue (MPI_Irecv (op_addr op) (mpi_count (op_size op)) (op_rank op) (op_tag op)) s)
        else if (op_type op AND OP_SEND) \<noteq> 0 then
          Inr (mpi_issue (MPI_Isend (op_addr op) (mpi_count (op_size op)) (op_rank op) (op_tag op)) s)
        else Inl (Exit URU_MPI_CHANNEL_ERROR_EXIT)) (\<lambda>(r, s).
     uru_assert ((op_flag op AND FREE_TAG) = 0)
       (let (b, s) = op_alloc [op\<lparr>op_req := r\<rparr>] s in Inr ((b, 0), s)))"

fun exec_ops :: "uri_mpi_op_t list \<Rightarrow> ('z) uri_mpi_state_scheme \<Rightarrow> (op_ptr list \<times> 'z uri_mpi_state_scheme) res" where
  "exec_ops [] s = Inr ([], s)"
| "exec_ops (op # ops) s =
     res_bind (exec_op op s) (\<lambda>(p, s). res_bind (exec_ops ops s) (\<lambda>(ps, s). Inr (p # ps, s)))"

definition block_ptrs :: "addr \<Rightarrow> uri_mpi_op_t list \<Rightarrow> op_ptr list" where
  "block_ptrs b ops = map (\<lambda>j. (b, j)) [0..<length ops]"

definition issue_all :: "(uri_mpi_op_t \<Rightarrow> mpi_call) \<Rightarrow> uri_mpi_op_t list \<Rightarrow> ('z) uri_mpi_state_scheme \<Rightarrow> 'z uri_mpi_state_scheme" where
  "issue_all c ops s = s\<lparr>mpi_log := mpi_log s @ map c ops\<rparr>"

text \<open>The entry of a table of batches; an index outside the table is out of bounds.\<close>

definition batch_slot :: "int \<Rightarrow> int \<Rightarrow> ('z) uri_mpi_state_scheme \<Rightarrow> uri_mpi_op_batch_t option res" where
  "batch_slot src_rank bid s =
     (if src_rank < 0 \<or> length (recv_batch s) \<le> nat src_rank \<or> bid < 0 \<or>
         length (recv_batch s ! nat src_rank) \<le> nat bid then Inl OutOfBounds
      else Inr (recv_batch s ! nat src_rank ! nat bid))"

definition set_slot :: "int \<Rightarrow> int \<Rightarrow> uri_mpi_op_batch_t option \<Rightarrow> ('z) uri_mpi_state_scheme \<Rightarrow> 'z uri_mpi_state_scheme" where
  "set_slot src_rank bid b s =
     s\<lparr>recv_batch := (recv_batch s)[nat src_rank := (recv_batch s ! nat src_rank)[nat bid := b]]\<rparr>"

text \<open>\<open>batch_id * 2 + 16\<close> is computed in \<open>int\<close>.\<close>

definition grow_table :: "int \<Rightarrow> int \<Rightarrow> ('z) uri_mpi_state_scheme \<Rightarrow> 'z uri_mpi_state_scheme res" where
  "grow_table src_rank bid s =
     (let t = recv_batch s ! nat src_rank in
      if bid + 1 > int (length t)
      then if 2 ^ 31 \<le> bid * 2 + 16 then Inl IntOverflow
        else Inr (s\<lparr>recv_batch := (recv_batch s)[nat src_rank := t @ replicate (nat (bid * 2 + 16) - length t) None]\<rparr>)
      else Inr s)"

definition uri_mpi_process_ctrl_msg ::
  "int \<Rightarrow> uri_mpi_ctrl_msg_t \<Rightarrow> ('z) uri_mpi_state_scheme \<Rightarrow> 'z uri_mpi_state_scheme res" where
  "uri_mpi_process_ctrl_msg src_rank ctrl_msg s =
     (let bid = cm_batch_id ctrl_msg in
      case cm_type ctrl_msg of
        create_op_batch \<Rightarrow>
          if src_rank < 0 \<or> length (recv_batch s) \<le> nat src_rank then Inl OutOfBounds
          else res_bind (grow_table src_rank bid s) (\<lambda>s.
          (case cm_ops ctrl_msg of
             None \<Rightarrow> Inl OutOfBounds
           | Some ops \<Rightarrow>
               res_bind (batch_slot src_rank bid s) (\<lambda>slot.
               uru_assert (slot = None)
                 (res_bind (recv_ops_init ops s) (\<lambda>(ops, s).
                    let (b, s) = op_alloc ops s in
                    Inr (set_slot src_rank bid (Some \<lparr>b_batch_id = bid, b_ops = b\<rparr>) s))))))
      | destroy_op_batch \<Rightarrow>
          res_bind (batch_slot src_rank bid s) (\<lambda>slot.
          (case slot of
             None \<Rightarrow> Inl NullDeref
           | Some batch \<Rightarrow>
               res_bind (op_block (b_ops batch) s) (\<lambda>ops.
               res_bind (op_free (b_ops batch) (issue_all (\<lambda>op. MPI_Request_free (op_req op)) ops s)) (\<lambda>s.
               Inr (set_slot src_rank bid None s)))))
      | start_op_batch \<Rightarrow>
          if src_rank < 0 \<or> length (recv_batch s) \<le> nat src_rank then Inl OutOfBounds
          else uru_assert (bid < int (length (recv_batch s ! nat src_rank)))
          (res_bind (batch_slot src_rank bid s) (\<lambda>slot.
          (case slot of
             None \<Rightarrow> Inl (Exit URU_ASSERT_EXIT)
           | Some batch \<Rightarrow>
               res_bind (op_block (b_ops batch) s) (\<lambda>ops.
               uri_mpi_req_que_app (block_ptrs (b_ops batch) ops)
                 (issue_all (\<lambda>op. MPI_Start (op_req op)) ops s)))))
      | execute_op_batch \<Rightarrow>
          (case cm_ops ctrl_msg of
             None \<Rightarrow> Inl OutOfBounds
           | Some ops \<Rightarrow> res_bind (exec_ops ops s) (\<lambda>(ps, s). uri_mpi_req_que_app ps s))
      | _ \<Rightarrow> Inl (Exit URU_ASSERT_EXIT))"

section \<open>The daemon\<close>

text \<open>What a completed operation gives back, as its flag bits say.\<close>

definition release_addr :: "uri_mpi_op_t \<Rightarrow> ('z) uri_mpi_state_scheme \<Rightarrow> 'z uri_mpi_state_scheme res" where
  "release_addr op s =
     (if (op_flag op AND FREE_ADDR) \<noteq> 0
      then uru_assert ((op_flag op AND KEEP_ADDR) = 0)
        (case ctrl_heap s (op_addr op) of
           None \<Rightarrow> Inl UseAfterFree
         | Some _ \<Rightarrow> Inr (s\<lparr>ctrl_heap := (ctrl_heap s)(op_addr op := None)\<rparr>))
      else Inr s)"

definition release_req :: "uri_mpi_op_t \<Rightarrow> ('z) uri_mpi_state_scheme \<Rightarrow> 'z uri_mpi_state_scheme res" where
  "release_req op s =
     (if (op_flag op AND FREE_REQ) \<noteq> 0
      then uru_assert ((op_flag op AND KEEP_REQ) = 0) (Inr (snd (mpi_issue (MPI_Request_free (op_req op)) s)))
      else Inr s)"

definition return_tag :: "int \<Rightarrow> int \<Rightarrow> ('z) uri_mpi_state_scheme \<Rightarrow> 'z uri_mpi_state_scheme res" where
  "return_tag r tag s =
     (if r < 0 \<or> length (mpi_tag s) \<le> nat r then Inl OutOfBounds
      else res_bind (uri_mpi_int_pool_return (uru_mpi s) (mpi_tag s ! nat r) tag)
        (\<lambda>pool. Inr (s\<lparr>mpi_tag := (mpi_tag s)[nat r := pool]\<rparr>)))"

definition release_tag :: "uri_mpi_op_t \<Rightarrow> ('z) uri_mpi_state_scheme \<Rightarrow> 'z uri_mpi_state_scheme res" where
  "release_tag op s =
     (if (op_flag op AND FREE_TAG) \<noteq> 0
      then uru_assert ((op_flag op AND KEEP_TAG) = 0) (return_tag (op_rank op) (op_tag op) s)
      else Inr s)"

definition release_op :: "op_ptr \<Rightarrow> uri_mpi_op_t \<Rightarrow> ('z) uri_mpi_state_scheme \<Rightarrow> 'z uri_mpi_state_scheme res" where
  "release_op p op s =
     (if (op_flag op AND FREE_OP) \<noteq> 0
      then uru_assert ((op_flag op AND KEEP_OP) = 0) (op_free (fst p) s)
      else Inr s)"

text \<open>One operation that \<open>MPI_Testsome\<close> reports as complete.\<close>

definition complete_op :: "op_ptr \<Rightarrow> ('z) uri_mpi_state_scheme \<Rightarrow> 'z uri_mpi_state_scheme res" where
  "complete_op p s =
     uru_assert (fst p \<noteq> 0)
     (res_bind (op_load p s) (\<lambda>op.
      res_bind (mpi_flag_event (op_flag_p op) (op_flag_add op) s) (\<lambda>s.
      res_bind (release_addr op s) (\<lambda>s.
      res_bind (release_req op s) (\<lambda>s.
      res_bind (release_tag op s) (\<lambda>s. release_op p op s))))))"

text \<open>
  The removal of the completed entries. \<open>drop_done\<close> is the inner loop: it takes entries off the
  end as long as the last one is complete; \<open>compact\<close> moves the last one into the next gap.
\<close>

function drop_done :: "nat list \<Rightarrow> nat \<Rightarrow> nat \<Rightarrow> nat \<Rightarrow> nat \<times> nat" where
  "drop_done idx i cnt tail =
     (if i < cnt \<and> idx ! (cnt - 1) + 1 = tail then drop_done idx i (cnt - 1) (tail - 1) else (cnt, tail))"
  by auto

termination
  by (relation "measure (\<lambda>(idx, i, cnt, tail). cnt)") auto

declare drop_done.simps [simp del]

lemma drop_done_le: "fst (drop_done idx i cnt tail) \<le> cnt"
proof (induction idx i cnt tail rule: drop_done.induct)
  case (1 idx i cnt tail)
  then show ?case by (subst drop_done.simps) auto
qed

function compact :: "nat list \<Rightarrow> nat \<Rightarrow> nat \<Rightarrow> nat \<Rightarrow> 'a list \<Rightarrow> nat \<times> 'a list" where
  "compact idx i cnt tail arr =
     (if i < cnt then
        let (cnt', tail') = drop_done idx i cnt tail in
        if i < cnt' then compact idx (i + 1) cnt' (tail' - 1) (arr[idx ! i := arr ! (tail' - 1)])
        else (tail', arr)
      else (tail, arr))"
  by auto

termination
proof (relation "measure (\<lambda>(idx, i, cnt, tail, arr). cnt - i)")
  fix idx i cnt tail cnt' tail' p
  fix arr :: "'a list"
  assume "i < cnt" "p = drop_done idx i cnt tail" "(cnt', tail') = p" "i < cnt'"
  moreover from this have "cnt' \<le> cnt" using drop_done_le [of idx i cnt tail] by (metis fst_conv)
  ultimately show "((idx, i + 1, cnt', tail' - 1, arr[idx ! i := arr ! (tail' - 1)]), idx, i, cnt, tail, arr)
      \<in> measure (\<lambda>(idx, i, cnt, tail, arr). cnt - i)" by simp
qed simp

declare compact.simps [simp del]

text \<open>
  The queue part of the daemon. \<open>testsome\<close> is the answer of \<open>MPI_Testsome\<close> on the copied
  requests: \<open>None\<close> for \<open>MPI_UNDEFINED\<close>, otherwise the reported indices. With the assertions on, the
  order of the indices is tested.
\<close>

definition daemon_queue ::
  "(nat list \<Rightarrow> nat list option) \<Rightarrow> ('z) uri_mpi_state_scheme \<Rightarrow> 'z uri_mpi_state_scheme res" where
  "daemon_queue testsome s =
     (let copy = waiting s in
      case (if arr_tail s = 0 then Some [] else testsome (map fst copy)) of
        None \<Rightarrow> Inl (Exit URU_ASSERT_EXIT)
      | Some idx \<Rightarrow>
          uru_assert (sorted_wrt (<) idx)
            (if \<not> list_all (\<lambda>j. j < length copy) idx then Inl OutOfBounds
             else res_bind (fold_res (\<lambda>j. complete_op (snd (copy ! j))) idx s) (\<lambda>s.
               let (tail, arr) = compact idx 0 (length idx) (arr_tail s) (req_q s) in
               Inr (s\<lparr>req_q := arr, arr_tail := tail\<rparr>))))"

text \<open>\<open>msgs\<close>: the control messages, with their senders, that the probes find in this call.\<close>

definition uri_mpi_channel_daemon ::
  "(int \<times> uri_mpi_ctrl_msg_t) list \<Rightarrow> (nat list \<Rightarrow> nat list option) \<Rightarrow> uri_channel_hdr \<Rightarrow>
   ('z) uri_mpi_state_scheme \<Rightarrow> (uru_status_t \<times> 'z uri_mpi_state_scheme) res" where
  "uri_mpi_channel_daemon msgs testsome ch s =
     res_bind (fold_res (\<lambda>(src, m). uri_mpi_process_ctrl_msg src m) msgs s) (\<lambda>s.
     res_bind (daemon_queue testsome s) (\<lambda>s. Inr (URU_STATUS_OK, s)))"

text \<open>
  \<open>uri_mpi_channel_close\<close>: one round per element of \<open>rounds\<close>, which gives the messages, the answer
  of \<open>MPI_Testsome\<close> and the maximum over all ranks of the queue lengths at the start of the round.
  \<open>None\<close> means that the loop goes on after the given rounds.
\<close>

fun uri_mpi_channel_close ::
  "((int \<times> uri_mpi_ctrl_msg_t) list \<times> (nat list \<Rightarrow> nat list option) \<times> nat) list \<Rightarrow> uri_channel_hdr \<Rightarrow>
   ('z) uri_mpi_state_scheme \<Rightarrow> (uru_status_t \<times> 'z uri_mpi_state_scheme) res option" where
  "uri_mpi_channel_close [] ch s = None"
| "uri_mpi_channel_close ((msgs, testsome, max_arr_tail) # rounds) ch s =
     (case uri_mpi_channel_daemon msgs testsome ch s of
        Inl e \<Rightarrow> Some (Inl e)
      | Inr (_, s) \<Rightarrow>
          if max_arr_tail \<noteq> 0 then uri_mpi_channel_close rounds ch s else Some (Inr (URU_STATUS_OK, s)))"

end
