(* ===== verification/Uri_Mpi_Queue.thy ===== *)
theory Uri_Mpi_Queue
  imports Uri_Mpi_Channel
begin

text \<open>
  The request queue of the MPI channel across a run of its daemon: the compaction removes exactly
  the completed entries, in place and in one pass, and keeps every other one.
\<close>

section \<open>Compaction\<close>

definition gaps :: "nat list \<Rightarrow> nat \<Rightarrow> nat \<Rightarrow> nat set" where
  "gaps idx i cnt = (\<lambda>j. idx ! j) ` {i..<cnt}"

text \<open>The entries below \<open>n\<close> that are not in a gap, as a multiset.\<close>

definition kept :: "'a list \<Rightarrow> nat \<Rightarrow> nat set \<Rightarrow> 'a multiset" where
  "kept xs n H = image_mset (\<lambda>j. xs ! j) (mset_set ({..<n} - H))"

lemma mset_take_kept: "n \<le> length xs \<Longrightarrow> mset (take n xs) = kept xs n {}"
proof (induction n)
  case (Suc n)
  then have "mset (take (Suc n) xs) = add_mset (xs ! n) (kept xs n {})"
    by (simp add: take_Suc_conv_app_nth)
  also have "\<dots> = kept xs (Suc n) {}" by (simp add: kept_def lessThan_Suc)
  finally show ?case .
qed (simp add: kept_def)

lemma mset_nths_kept: "mset (nths xs (- H)) = kept xs (length xs) H"
proof (induction xs rule: rev_induct)
  case (snoc x xs)
  have "kept (xs @ [x]) (length xs) H = kept xs (length xs) H"
    unfolding kept_def by (rule image_mset_cong) (simp add: nth_append)
  moreover have "kept (xs @ [x]) (Suc (length xs)) H =
      (if length xs \<in> H then {#} else {#x#}) + kept (xs @ [x]) (length xs) H"
    by (auto simp: kept_def lessThan_Suc insert_Diff_if)
  ultimately show ?case using snoc by (simp add: nths_append)
qed (simp add: kept_def)

lemma gaps_Suc: "i < cnt \<Longrightarrow> gaps idx i cnt = insert (idx ! i) (gaps idx (Suc i) cnt)"
  by (auto simp: gaps_def Suc_le_eq) (metis atLeastLessThan_iff imageI le_neq_implies_less Suc_leI)

lemma gaps_last: "i < cnt \<Longrightarrow> gaps idx i cnt = insert (idx ! (cnt - 1)) (gaps idx i (cnt - 1))"
  by (auto simp: gaps_def) (metis Suc_pred atLeastLessThan_iff imageI less_SucE less_nat_zero_code not_gr_zero)

text \<open>One turn of each loop.\<close>

lemma drop_done_more:
  "i < cnt \<Longrightarrow> idx ! (cnt - 1) + 1 = tail \<Longrightarrow> drop_done idx i cnt tail = drop_done idx i (cnt - 1) (tail - 1)"
  by (subst drop_done.simps) simp

lemma drop_done_stop:
  "\<not> (i < cnt \<and> idx ! (cnt - 1) + 1 = tail) \<Longrightarrow> drop_done idx i cnt tail = (cnt, tail)"
  by (subst drop_done.simps) (simp only: if_False)

lemma compact_stop: "\<not> i < cnt \<Longrightarrow> compact idx i cnt tail arr = (tail, arr)"
  by (subst compact.simps) simp

lemma compact_turn:
  "i < cnt \<Longrightarrow> drop_done idx i cnt tail = (c, t) \<Longrightarrow> compact idx i cnt tail arr =
     (if i < c then compact idx (i + 1) c (t - 1) (arr[idx ! i := arr ! (t - 1)]) else (t, arr))"
  by (subst compact.simps) simp

lemma drop_done_spec:
  assumes "sorted_wrt (<) idx" "cnt \<le> length idx" "i \<le> cnt" "\<forall>j \<in> {i..<cnt}. idx ! j < tail"
    and "drop_done idx i cnt tail = (cnt', tail')"
  shows "i \<le> cnt' \<and> cnt' \<le> cnt \<and> tail' + cnt = tail + cnt' \<and> (\<forall>j \<in> {i..<cnt'}. idx ! j < tail') \<and>
    (i < cnt' \<longrightarrow> idx ! (cnt' - 1) + 1 < tail') \<and> {..<tail} - gaps idx i cnt = {..<tail'} - gaps idx i cnt'"
  using assms
proof (induction idx i cnt tail rule: drop_done.induct)
  case (1 idx i cnt tail)
  show ?case
  proof (cases "i < cnt \<and> idx ! (cnt - 1) + 1 = tail")
    case True
    have less: "idx ! j < idx ! (cnt - 1)" if "i \<le> j" "j < cnt - 1" for j
      using 1(2,3) that True by (auto simp: sorted_wrt_iff_nth_less)
    have all: "\<forall>j \<in> {i..<cnt - 1}. idx ! j < tail - 1" using less True by auto
    have dd: "drop_done idx i (cnt - 1) (tail - 1) = (cnt', tail')"
      using 1(6) drop_done_more [of i cnt idx tail] True by simp
    have "i \<le> cnt - 1" "cnt - 1 \<le> length idx" using True 1(3) by auto
    note IH = 1(1) [OF True 1(2) this(2,1) all dd]
    have nt: "{..<tail} = insert (tail - 1) {..<tail - 1}" using True by auto
    have st: "{..<tail} - gaps idx i cnt = {..<tail - 1} - gaps idx i (cnt - 1)"
    proof -
      have "gaps idx i cnt = insert (tail - 1) (gaps idx i (cnt - 1))"
        using gaps_last [of i cnt idx] True by (metis add_diff_cancel_right')
      then show ?thesis unfolding nt by auto
    qed
    show ?thesis
    proof (intro conjI)
      show "tail' + cnt = tail + cnt'" using IH True by linarith
      show "{..<tail} - gaps idx i cnt = {..<tail'} - gaps idx i cnt'" using IH st by blast
    qed (use IH True in linarith | use IH in blast)+
  next
    case False
    then have "cnt' = cnt" "tail' = tail" using 1(6) drop_done_stop [OF False] by simp_all
    moreover have "i < cnt \<longrightarrow> idx ! (cnt - 1) + 1 < tail"
    proof
      assume i: "i < cnt"
      then have "idx ! (cnt - 1) < tail" using 1(5) by auto
      then show "idx ! (cnt - 1) + 1 < tail" using False i by auto
    qed
    ultimately show ?thesis using 1(4,5) by auto
  qed
qed

text \<open>Filling the first gap with the last entry.\<close>

lemma kept_move:
  assumes "h < t" "t < length arr" "t \<notin> H" "h \<notin> H"
  shows "kept (arr[h := arr ! t]) t H = kept arr (Suc t) (insert h H)"
proof -
  have st: "{..<t} - H = insert h ({..<t} - insert h H)" using assms by auto
  have "kept (arr[h := arr ! t]) t H = add_mset (arr ! t) (image_mset ((!) (arr[h := arr ! t])) (mset_set ({..<t} - insert h H)))"
    unfolding kept_def by (subst st) (use assms in simp)
  also have "image_mset ((!) (arr[h := arr ! t])) (mset_set ({..<t} - insert h H)) = image_mset ((!) arr) (mset_set ({..<t} - insert h H))"
    by (rule image_mset_cong) auto
  also have "add_mset (arr ! t) \<dots> = image_mset ((!) arr) (mset_set (insert t ({..<t} - insert h H)))"
    by simp
  also have "insert t ({..<t} - insert h H) = {..<Suc t} - insert h H" using assms by auto
  finally show ?thesis by (simp add: kept_def)
qed

lemma compact_spec:
  assumes "sorted_wrt (<) idx" "cnt \<le> length idx" "i \<le> cnt" "\<forall>j \<in> {i..<cnt}. idx ! j < tail"
    and "tail \<le> length arr" "compact idx i cnt tail arr = (tail', arr')"
  shows "tail' + (cnt - i) = tail \<and> length arr' = length arr \<and> kept arr' tail' {} = kept arr tail (gaps idx i cnt)"
  using assms
proof (induction idx i cnt tail arr rule: compact.induct)
  case (1 idx i cnt tail arr)
  show ?case
  proof (cases "i < cnt")
    case False
    then show ?thesis using 1(4,7) compact_stop [OF False, of idx tail arr] by (simp add: gaps_def)
  next
    case True
    obtain c t where dd: "drop_done idx i cnt tail = (c, t)" by (cases "drop_done idx i cnt tail")
    note spec = drop_done_spec [OF 1(2,3,4,5) dd]
    have keep: "kept arr tail (gaps idx i cnt) = kept arr t (gaps idx i c)"
      unfolding kept_def using spec by simp
    show ?thesis
    proof (cases "i < c")
      case False
      then have "tail' = t \<and> arr' = arr" using 1(7) compact_turn [OF True dd, of arr] by simp
      moreover have "c = i" using False spec by auto
      ultimately show ?thesis using spec keep True by (auto simp: gaps_def)
    next
      case ic: True
      let ?h = "idx ! i" and ?arr = "arr[idx ! i := arr ! (t - 1)]"
      have rec: "compact idx (i + 1) c (t - 1) ?arr = (tail', arr')"
        using 1(7) compact_turn [OF True dd, of arr] ic by simp
      have sorted: "idx ! j < idx ! k" if "j < k" "k < c" for j k
        using 1(2,3) that spec by (auto simp: sorted_wrt_iff_nth_less)
      have hi: "idx ! j + 1 < t" if "i \<le> j" "j < c" for j
      proof (cases "j = c - 1")
        case False
        then have "idx ! j < idx ! (c - 1)" using sorted that by auto
        then show ?thesis using spec ic by auto
      qed (use spec ic in auto)
      have b: "\<forall>j \<in> {i + 1..<c}. idx ! j < t - 1"
      proof
        fix j
        assume "j \<in> {i + 1..<c}"
        then have "idx ! j + 1 < t" using hi [of j] by simp
        then show "idx ! j < t - 1" by simp
      qed
      have tl: "t \<le> length arr" "0 < t" using spec 1(6) hi [of i] ic by linarith+
      have len: "t - 1 \<le> length ?arr" using tl by simp
      have cl: "c \<le> length idx" "i + 1 \<le> c" using spec 1(3) ic by auto
      note IH = 1(1) [OF True dd [symmetric] refl ic 1(2) cl b len rec]
      have "?h \<notin> gaps idx (i + 1) c"
      proof
        assume "?h \<in> gaps idx (i + 1) c"
        then obtain j where "i < j" "j < c" "idx ! j = ?h"
          unfolding gaps_def image_iff by (metis Suc_eq_plus1 Suc_le_eq atLeastLessThan_iff)
        then show False using sorted [of i j] by simp
      qed
      moreover have "t - 1 \<notin> gaps idx (i + 1) c"
      proof
        assume "t - 1 \<in> gaps idx (i + 1) c"
        then obtain j where "i < j" "j < c" "idx ! j = t - 1"
          unfolding gaps_def image_iff by (metis Suc_eq_plus1 Suc_le_eq atLeastLessThan_iff)
        then show False using hi [of j] by simp
      qed
      ultimately have "kept ?arr (t - 1) (gaps idx (i + 1) c) = kept arr (Suc (t - 1)) (insert ?h (gaps idx (i + 1) c))"
        using hi [of i] ic tl by (intro kept_move) auto
      also have "insert ?h (gaps idx (i + 1) c) = gaps idx i c" using gaps_Suc [OF ic] by simp
      finally have "kept ?arr (t - 1) (gaps idx (i + 1) c) = kept arr t (gaps idx i c)" using tl by simp
      then show ?thesis using IH keep spec ic tl by auto
    qed
  qed
qed

section \<open>The daemon\<close>

text \<open>Completing an operation leaves the queue and the batches of the channel alone.\<close>

definition same_queue :: "('z) uri_mpi_state_scheme \<Rightarrow> 'z uri_mpi_state_scheme \<Rightarrow> bool" where
  "same_queue s t \<longleftrightarrow> req_q t = req_q s \<and> arr_tail t = arr_tail s \<and> recv_batch t = recv_batch s \<and>
     batch_id t = batch_id s \<and> uru_mpi t = uru_mpi s \<and> mems t = mems s \<and> brk t = brk s"

lemma same_queue_refl [simp]: "same_queue s s"
  by (simp add: same_queue_def)

lemma same_queue_trans: "same_queue s t \<Longrightarrow> same_queue t u \<Longrightarrow> same_queue s u"
  by (simp add: same_queue_def)

lemma complete_op_frame:
  assumes "complete_op p s = Inr s'"
  shows "same_queue s s'"
proof -
  obtain op s1 s2 s3 s4 where ev: "mpi_flag_event (op_flag_p op) (op_flag_add op) s = Inr s1"
    and 2: "release_addr op s1 = Inr s2" and 3: "release_req op s2 = Inr s3"
    and 4: "release_tag op s3 = Inr s4" and 5: "release_op p op s4 = Inr s'"
    using assms unfolding complete_op_def uru_assert_Inr res_bind_eq_Inr by blast
  obtain F Q where "s1 = s\<lparr>flags := F, queues := Q\<rparr>" using ev by (rule mpi_flag_event_frame)
  then have "same_queue s s1" by (simp add: same_queue_def)
  moreover have "same_queue s1 s2" using 2 by (auto simp: release_addr_def same_queue_def split: if_splits option.splits)
  moreover have "same_queue s2 s3" using 3 by (auto simp: release_req_def same_queue_def mpi_issue_def split: if_splits)
  moreover have "same_queue s3 s4" using 4 by (auto simp: release_tag_def return_tag_def same_queue_def split: if_splits)
  moreover have "same_queue s4 s'" using 5 by (auto simp: release_op_def same_queue_def op_free_def split: if_splits)
  ultimately show ?thesis by (meson same_queue_trans)
qed

lemma complete_ops_frame:
  "fold_res (\<lambda>j. complete_op (snd (copy ! j))) idx s = Inr s' \<Longrightarrow> same_queue s s'"
  by (erule fold_res_invariant) (auto dest: complete_op_frame intro: same_queue_trans)

text \<open>
  C22. After a run of the daemon's queue part the queue holds exactly the entries that waited before
  and were not reported complete, each as often as before: the compaction, which moves entries from
  the end into the gaps, loses, duplicates and keeps nothing it should not, whatever subset of the
  requests completes.
\<close>

theorem daemon_queue_keeps_waiting:
  assumes "daemon_queue testsome s = Inr s'" "arr_tail s \<le> length (req_q s)"
    and "arr_tail s \<noteq> 0 \<Longrightarrow> testsome (map fst (waiting s)) = Some idx"
    and "arr_tail s = 0 \<Longrightarrow> idx = []"
  shows "mset (waiting s') = mset (nths (waiting s) (- set idx)) \<and>
    length (waiting s') + length idx = length (waiting s) \<and> length (req_q s') = length (req_q s)"
proof -
  have t: "(if arr_tail s = 0 then Some [] else testsome (map fst (waiting s))) = Some idx"
    using assms(3,4) by auto
  obtain t where sorted: "sorted_wrt (<) idx" and lt: "\<forall>j \<in> set idx. j < length (waiting s)"
    and t: "fold_res (\<lambda>j. complete_op (snd (waiting s ! j))) idx s = Inr t"
    and r: "(case compact idx 0 (length idx) (arr_tail t) (req_q t) of
        (tail, arr) \<Rightarrow> Inr (t\<lparr>req_q := arr, arr_tail := tail\<rparr>)) = (Inr s' :: _ res)"
    using assms(1) unfolding daemon_queue_def Let_def t
    by (auto simp: list_all_iff split: if_splits)
  have q: "req_q t = req_q s" "arr_tail t = arr_tail s"
    using complete_ops_frame [OF t] by (simp_all add: same_queue_def)
  obtain tail arr where c: "compact idx 0 (length idx) (arr_tail s) (req_q s) = (tail, arr)"
    by (cases "compact idx 0 (length idx) (arr_tail s) (req_q s)")
  have lw: "length (waiting s) = arr_tail s" using assms(2) by (simp add: waiting_def)
  have "\<forall>j \<in> {0..<length idx}. idx ! j < arr_tail s" using lt lw by auto
  from compact_spec [OF sorted order_refl _ this assms(2) c]
  have spec: "tail + length idx = arr_tail s" "length arr = length (req_q s)"
    "kept arr tail {} = kept (req_q s) (arr_tail s) (gaps idx 0 (length idx))" by simp_all
  have s': "s' = t\<lparr>req_q := arr, arr_tail := tail\<rparr>" using r c q by simp
  have w: "waiting s' = take tail arr" by (simp add: s' waiting_def)
  have "gaps idx 0 (length idx) = set idx"
    by (auto simp: gaps_def in_set_conv_nth image_iff Bex_def atLeast0LessThan)
  then have "kept (req_q s) (arr_tail s) (gaps idx 0 (length idx)) = kept (waiting s) (length (waiting s)) (set idx)"
    by (simp only: kept_def lw) (intro image_mset_cong, auto simp: waiting_def)
  then have "mset (waiting s') = mset (nths (waiting s) (- set idx))"
    using spec assms(2) by (simp add: w mset_nths_kept mset_take_kept)
  moreover have "length (waiting s') + length idx = length (waiting s)" using spec assms(2) lw by (simp add: w)
  moreover have "length (req_q s') = length (req_q s)" using spec by (simp add: s')
  ultimately show ?thesis by blast
qed

text \<open>Four operations wait; the second and the last of them complete.\<close>

definition queue_example_state :: uri_mpi_state where
  "queue_example_state =
    \<lparr>uru_mpi = example_mpi, flag_pool = None, flags = (\<lambda>_. None), queues = (\<lambda>_. None), mems = (\<lambda>_. None),
     mpi_tag = [int_pool_init, int_pool_init], batch_id = [int_pool_init, int_pool_init],
     req_q = [(10, (1, 0)), (11, (2, 0)), (12, (3, 0)), (13, (4, 0)), (0, (0, 0))], arr_tail = 4,
     recv_batch = [[], []], op_heap = (\<lambda>p. if 0 < p \<and> p < 5 then Some [zero_op] else None),
     ctrl_heap = (\<lambda>_. None), mpi_plans = (\<lambda>_. None), brk = 5, mpi_log = []\<rparr>"

theorem daemon_queue_keeps_waiting_witness:
  "\<exists>s'. daemon_queue (\<lambda>_. Some [1, 3]) queue_example_state = Inr s' \<and>
     mset (waiting s') = {#(10, (1, 0)), (12, (3, 0))#}"
proof -
  obtain s' where s': "daemon_queue (\<lambda>_. Some [1, 3]) queue_example_state = Inr s'"
    by (cases "compact [1, 3] 0 2 4 (req_q queue_example_state)")
      (simp add: daemon_queue_def queue_example_state_def waiting_def complete_op_def op_load_def
        op_block_def mpi_flag_event_def zero_op_def numeral_2_eq_2 release_addr_def release_req_def
        release_tag_def release_op_def)
  have "mset (waiting s') = mset (nths (waiting queue_example_state) (- set [1, 3]))"
    using daemon_queue_keeps_waiting [OF s', of "[1, 3]"] by (simp add: queue_example_state_def)
  also have "\<dots> = {#(10, (1, 0)), (12, (3, 0))#}"
    by (simp add: queue_example_state_def waiting_def nths_Cons)
  finally show ?thesis using s' by blast
qed

end
