(* ===== verification/Uri_Mpi_Proto.thy ===== *)
theory Uri_Mpi_Proto
  imports Uri_Mpi_Queue
begin

text \<open>
  The protocol of control messages between the MPI channels of two processes: a sender announces
  batches under numbers of its pool, starts them, and withdraws them; the receiver keeps a table
  per sender. The numbers are recycled, and the messages of one sender arrive in order. Proved
  here: the receiver's assertions never fail, whatever the senders do and however the daemon's
  completions interleave with the messages.
\<close>

section \<open>The receiver's tables\<close>

definition slot :: "int \<Rightarrow> int \<Rightarrow> ('z) uri_mpi_state_scheme \<Rightarrow> uri_mpi_op_batch_t option" where
  "slot src bid s =
     (if 0 \<le> src \<and> nat src < length (recv_batch s) \<and> 0 \<le> bid \<and> nat bid < length (recv_batch s ! nat src)
      then recv_batch s ! nat src ! nat bid else None)"

definition table_range :: "int \<Rightarrow> int \<Rightarrow> ('z) uri_mpi_state_scheme \<Rightarrow> bool" where
  "table_range src bid s \<longleftrightarrow> 0 \<le> src \<and> nat src < length (recv_batch s) \<and> 0 \<le> bid \<and>
     nat bid < length (recv_batch s ! nat src)"

lemma batch_slot_range: "table_range src bid s \<Longrightarrow> batch_slot src bid s = Inr (slot src bid s)"
  by (simp add: batch_slot_def slot_def table_range_def)

lemma slot_range: "slot src bid s = Some b \<Longrightarrow> table_range src bid s"
  by (simp add: slot_def table_range_def split: if_splits)

lemma slot_cong: "recv_batch s = recv_batch t \<Longrightarrow> slot src bid s = slot src bid t"
  by (simp add: slot_def)

lemma slot_set [simp]:
  "table_range src bid s \<Longrightarrow> slot src' bid' (set_slot src bid b s) =
     (if src' = src \<and> bid' = bid then b else slot src' bid' s)"
  by (auto simp: slot_def set_slot_def table_range_def nth_list_update eq_nat_nat_iff)

lemma set_slot_simps [simp]:
  "length (recv_batch (set_slot src bid b s)) = length (recv_batch s)"
  "op_heap (set_slot src bid b s) = op_heap s" "brk (set_slot src bid b s) = brk s"
  by (simp_all add: set_slot_def)

lemma grow_table_ok:
  assumes "0 \<le> src" "nat src < length (recv_batch s)" "0 \<le> bid" "bid * 2 + 16 < 2 ^ 31"
  obtains T where "grow_table src bid s = Inr (s\<lparr>recv_batch := T\<rparr>)" "length T = length (recv_batch s)"
    "table_range src bid (s\<lparr>recv_batch := T\<rparr>)" "\<And>src' bid'. slot src' bid' (s\<lparr>recv_batch := T\<rparr>) = slot src' bid' s"
proof -
  let ?t = "recv_batch s ! nat src"
  show thesis
  proof (cases "bid + 1 > int (length ?t)")
    case False
    then show thesis using assms that [of "recv_batch s"]
      by (simp add: grow_table_def Let_def table_range_def nat_less_iff)
  next
    case True
    let ?T = "(recv_batch s)[nat src := ?t @ replicate (nat (bid * 2 + 16) - length ?t) None]"
    have "grow_table src bid s = Inr (s\<lparr>recv_batch := ?T\<rparr>)"
      using True assms(4) by (simp add: grow_table_def Let_def)
    moreover have "table_range src bid (s\<lparr>recv_batch := ?T\<rparr>)"
      using True assms by (auto simp: table_range_def nat_less_iff)
    moreover have "slot src' bid' (s\<lparr>recv_batch := ?T\<rparr>) = slot src' bid' s" for src' bid'
      using assms(2) by (cases "nat src' = nat src") (auto simp: slot_def nth_append intro!: nth_replicate, arith)
    ultimately show thesis using that [of ?T] by simp
  qed
qed

section \<open>Queueing operations\<close>

lemma op_load_cong [simp]:
  "op_load p (s\<lparr>req_q := q\<rparr>) = op_load p s" "op_load p (s\<lparr>arr_tail := t\<rparr>) = op_load p s"
  "op_load p (s\<lparr>mpi_log := l\<rparr>) = op_load p s"
  by (simp_all add: op_load_def op_block_def)

lemma req_puts_ok:
  assumes "\<forall>p \<in> set ps. \<exists>op. op_load p s = Inr op" "arr_tail s + length ps \<le> length (req_q s)"
  shows "\<exists>q. fold_res req_put ps s = Inr (s\<lparr>req_q := q, arr_tail := arr_tail s + length ps\<rparr>)"
  using assms
proof (induction ps arbitrary: s)
  case Nil
  show ?case by (rule exI [of _ "req_q s"]) simp
next
  case (Cons p ps)
  then obtain op where op: "op_load p s = Inr op" by auto
  let ?s = "s\<lparr>req_q := (req_q s)[arr_tail s := (op_req op, p)], arr_tail := arr_tail s + 1\<rparr>"
  have "req_put p s = Inr ?s" using op Cons.prems(2) by (simp add: req_put_def)
  moreover have "\<exists>q. fold_res req_put ps ?s = Inr (?s\<lparr>req_q := q, arr_tail := arr_tail ?s + length ps\<rparr>)"
    using Cons.prems by (intro Cons.IH) auto
  ultimately show ?case by auto
qed

text \<open>Appending makes room by itself, so it fails only on operations that are not there.\<close>

lemma req_que_app_ok:
  assumes "\<forall>p \<in> set ps. \<exists>op. op_load p s = Inr op"
  shows "\<exists>q. uri_mpi_req_que_app ps s = Inr (s\<lparr>req_q := q, arr_tail := arr_tail s + length ps\<rparr>)"
proof -
  let ?s = "if length (req_q s) < arr_tail s + length ps
    then s\<lparr>req_q := req_q s @ replicate ((arr_tail s + length ps) * 2 - length (req_q s)) (0, (0, 0))\<rparr> else s"
  have "\<exists>q. fold_res req_put ps ?s = Inr (?s\<lparr>req_q := q, arr_tail := arr_tail ?s + length ps\<rparr>)"
    using assms by (intro req_puts_ok) auto
  then show ?thesis by (auto simp: uri_mpi_req_que_app_def Let_def split: if_splits)
qed

section \<open>Operations that a sender may announce\<close>

definition typed_op :: "uri_mpi_op_t \<Rightarrow> bool" where
  "typed_op op \<longleftrightarrow> (op_type op AND OP_RECV) \<noteq> 0 \<or> (op_type op AND OP_SEND) \<noteq> 0"

definition keep_ops :: "uri_mpi_op_t list \<Rightarrow> bool" where
  "keep_ops ops \<longleftrightarrow> list_all (\<lambda>op. typed_op op \<and> (op_flag op AND FREE_OP) = 0) ops"

definition exec_ops_ok :: "uri_mpi_op_t list \<Rightarrow> bool" where
  "exec_ops_ok ops \<longleftrightarrow> list_all (\<lambda>op. typed_op op \<and> (op_flag op AND FREE_TAG) = 0) ops"

lemma recv_op_init_eq:
  "typed_op op \<Longrightarrow> recv_op_init op s = Inr (op\<lparr>op_req := length (mpi_log s)\<rparr>, s\<lparr>mpi_log := mpi_log s @
     [(if (op_type op AND OP_RECV) \<noteq> 0 then MPI_Recv_init else MPI_Send_init)
        (op_addr op) (mpi_count (op_size op)) (op_rank op) (op_tag op)]\<rparr>)"
  by (simp add: recv_op_init_def typed_op_def mpi_issue_def)

lemma recv_ops_init_ok:
  "keep_ops ops \<Longrightarrow> \<exists>ops' l. recv_ops_init ops s = Inr (ops', s\<lparr>mpi_log := l\<rparr>) \<and> keep_ops ops'"
proof (induction ops arbitrary: s)
  case Nil
  then show ?case by (auto intro: exI [of _ "mpi_log s"])
next
  case (Cons op ops)
  then have op: "typed_op op" "(op_flag op AND FREE_OP) = 0" and ops: "keep_ops ops" by (simp_all add: keep_ops_def)
  obtain r l where r: "recv_op_init op s = Inr (op\<lparr>op_req := r\<rparr>, s\<lparr>mpi_log := l\<rparr>)"
    using recv_op_init_eq [OF op(1)] by blast
  obtain ops' l' where "recv_ops_init ops (s\<lparr>mpi_log := l\<rparr>) = Inr (ops', s\<lparr>mpi_log := l\<rparr>\<lparr>mpi_log := l'\<rparr>)" "keep_ops ops'"
    using Cons.IH [OF ops, of "s\<lparr>mpi_log := l\<rparr>"] by blast
  then show ?case using r op by (auto simp: keep_ops_def typed_op_def intro: exI [of _ l'])
qed

text \<open>The heap grows: old blocks stay, new ones lie between the old and the new end.\<close>

definition heap_bound :: "('z) uri_mpi_state_scheme \<Rightarrow> bool" where
  "heap_bound s \<longleftrightarrow> (\<forall>p ops. op_heap s p = Some ops \<longrightarrow> p < brk s)"

definition heap_ext :: "('z) uri_mpi_state_scheme \<Rightarrow> 'z uri_mpi_state_scheme \<Rightarrow> bool" where
  "heap_ext s t \<longleftrightarrow> recv_batch t = recv_batch s \<and> brk s \<le> brk t \<and> heap_bound t \<and>
     (\<forall>p < brk s. op_heap t p = op_heap s p)"

lemma exec_op_eq:
  "typed_op op \<Longrightarrow> (op_flag op AND FREE_TAG) = 0 \<Longrightarrow> exec_op op s = Inr ((brk s, 0), s\<lparr>mpi_log := mpi_log s @
     [(if (op_type op AND OP_RECV) \<noteq> 0 then MPI_Irecv else MPI_Isend)
        (op_addr op) (mpi_count (op_size op)) (op_rank op) (op_tag op)],
     op_heap := (op_heap s)(brk s \<mapsto> [op\<lparr>op_req := length (mpi_log s)\<rparr>]), brk := brk s + 1\<rparr>)"
  by (simp add: exec_op_def typed_op_def mpi_issue_def op_alloc_def)

lemma exec_ops_ok_run:
  "exec_ops_ok ops \<Longrightarrow> heap_bound s \<Longrightarrow>
   \<exists>ps t. exec_ops ops s = Inr (ps, t) \<and> heap_ext s t \<and> (\<forall>p \<in> set ps. brk s \<le> fst p \<and> (\<exists>op. op_load p t = Inr op))"
proof (induction ops arbitrary: s)
  case Nil
  then show ?case by (simp add: heap_ext_def)
next
  case (Cons op ops)
  then have op: "typed_op op" "(op_flag op AND FREE_TAG) = 0" and ops: "exec_ops_ok ops"
    by (simp_all add: exec_ops_ok_def)
  obtain r l where e: "exec_op op s =
      Inr ((brk s, 0), s\<lparr>mpi_log := l, op_heap := (op_heap s)(brk s \<mapsto> [op\<lparr>op_req := r\<rparr>]), brk := brk s + 1\<rparr>)"
    using exec_op_eq [OF op] by blast
  let ?s = "s\<lparr>mpi_log := l, op_heap := (op_heap s)(brk s \<mapsto> [op\<lparr>op_req := r\<rparr>]), brk := brk s + 1\<rparr>"
  have hb: "heap_bound ?s" using Cons.prems(2) by (auto simp: heap_bound_def less_Suc_eq)
  obtain ps t where t: "exec_ops ops ?s = Inr (ps, t)" "heap_ext ?s t"
    "\<forall>p \<in> set ps. brk ?s \<le> fst p \<and> (\<exists>op. op_load p t = Inr op)"
    using Cons.IH [OF ops hb] by blast
  have "op_heap t (brk s) = Some [op\<lparr>op_req := r\<rparr>]" using t(2) by (simp add: heap_ext_def)
  then have "\<exists>op. op_load (brk s, 0) t = Inr op" by (simp add: op_load_def op_block_def)
  moreover have "heap_ext s t" using t(2) by (auto simp: heap_ext_def)
  moreover have "exec_ops (op # ops) s = Inr ((brk s, 0) # ps, t)" using e t(1) by simp
  ultimately show ?case using t(3) by fastforce
qed

section \<open>Senders\<close>

definition rank_mpi :: "uru_mpi_t \<Rightarrow> int \<Rightarrow> uru_mpi_t" where
  "rank_mpi u src = u\<lparr>mpi_rank := src\<rparr>"

text \<open>
  What a sender with the batch numbers \<open>out\<close> in use may send next.
\<close>

inductive sends ::
  "uru_mpi_t \<Rightarrow> uri_mpi_int_pool \<times> int set \<Rightarrow> uri_mpi_ctrl_msg_t \<Rightarrow> uri_mpi_int_pool \<times> int set \<Rightarrow> bool"
  for u where
  send_create: "uri_mpi_int_pool_get u p = Inr (bid, p') \<Longrightarrow> keep_ops ops \<Longrightarrow>
    sends u (p, out) \<lparr>cm_type = create_op_batch, cm_batch_id = bid, cm_ops = Some ops\<rparr> (p', insert bid out)"
| send_start: "bid \<in> out \<Longrightarrow>
    sends u (p, out) \<lparr>cm_type = start_op_batch, cm_batch_id = bid, cm_ops = None\<rparr> (p, out)"
| send_destroy: "bid \<in> out \<Longrightarrow> uri_mpi_int_pool_return u p bid = Inr p' \<Longrightarrow>
    sends u (p, out) \<lparr>cm_type = destroy_op_batch, cm_batch_id = bid, cm_ops = None\<rparr> (p', out - {bid})"
| send_execute: "exec_ops_ok ops \<Longrightarrow>
    sends u (p, out) \<lparr>cm_type = execute_op_batch, cm_batch_id = - 1, cm_ops = Some ops\<rparr> (p, out)"

inductive_cases sendsE: "sends u x m y"

text \<open>
  The runs of one receiver: each sender's messages are taken in the order in which it sent them,
  interleaved with those of others and with completions. \<open>P src\<close> is the batch number pool of the
  sender \<open>src\<close> for this receiver as of its last message taken, with the numbers in use. The bound on
  the batch number keeps the receiver's table size within an \<open>int\<close>; the pools would allow numbers up
  to 2100000000.
\<close>

inductive proto_run :: "uru_mpi_t \<Rightarrow> (int \<Rightarrow> uri_mpi_int_pool \<times> int set) \<Rightarrow> uri_mpi_state \<Rightarrow> bool" for u where
  run_open: "uri_mpi_channel_open tm ch s0 = Inr (st, s) \<Longrightarrow> uru_mpi s0 = u \<Longrightarrow> heap_bound s0 \<Longrightarrow>
    proto_run u (\<lambda>_. (int_pool_init, {})) s"
| run_msg: "proto_run u P s \<Longrightarrow> 0 \<le> src \<Longrightarrow> src < mpi_size u \<Longrightarrow> sends (rank_mpi u src) (P src) m y \<Longrightarrow>
    cm_batch_id m < 2 ^ 30 - 8 \<Longrightarrow> uri_mpi_process_ctrl_msg src m s = Inr s' \<Longrightarrow> proto_run u (P(src := y)) s'"
| run_complete: "proto_run u P s \<Longrightarrow> complete_op p s = Inr s' \<Longrightarrow> proto_run u P s'"

section \<open>The invariant\<close>

definition tables_inv :: "uri_mpi_state \<Rightarrow> bool" where
  "tables_inv s \<longleftrightarrow> heap_bound s \<and>
     (\<forall>src bid b. slot src bid s = Some b \<longrightarrow> (\<exists>ops. op_heap s (b_ops b) = Some ops \<and> keep_ops ops)) \<and>
     (\<forall>src bid b src' bid' b'. slot src bid s = Some b \<longrightarrow> slot src' bid' s = Some b' \<longrightarrow>
        b_ops b = b_ops b' \<longrightarrow> src = src' \<and> bid = bid')"

definition senders_inv :: "uru_mpi_t \<Rightarrow> (int \<Rightarrow> uri_mpi_int_pool \<times> int set) \<Rightarrow> uri_mpi_state \<Rightarrow> bool" where
  "senders_inv u P s \<longleftrightarrow> length (recv_batch s) = nat (mpi_size u) \<and>
     (\<forall>src. 0 \<le> src \<longrightarrow> src < mpi_size u \<longrightarrow>
        int_pool_inv (rank_mpi u src) (fst (P src)) (snd (P src)) \<and>
        (\<forall>bid. bid \<in> snd (P src) \<longleftrightarrow> slot src bid s \<noteq> None))"

definition proto_inv :: "uru_mpi_t \<Rightarrow> (int \<Rightarrow> uri_mpi_int_pool \<times> int set) \<Rightarrow> uri_mpi_state \<Rightarrow> bool" where
  "proto_inv u P s \<longleftrightarrow> tables_inv s \<and> senders_inv u P s"

lemma tables_block:
  "tables_inv s \<Longrightarrow> slot src bid s = Some b \<Longrightarrow> \<exists>ops. op_heap s (b_ops b) = Some ops \<and> keep_ops ops"
  unfolding tables_inv_def by blast

text \<open>Changes that leave tables and live blocks alone keep the invariant.\<close>

lemma tables_inv_frame:
  assumes "tables_inv s" "recv_batch t = recv_batch s" "heap_bound t"
    and "\<And>src bid b. slot src bid s = Some b \<Longrightarrow> op_heap t (b_ops b) = op_heap s (b_ops b)"
  shows "tables_inv t"
proof -
  have sl: "slot src bid t = slot src bid s" for src bid by (rule slot_cong) (rule assms(2))
  show ?thesis unfolding tables_inv_def sl
    using assms(1,3,4) unfolding tables_inv_def by metis
qed

lemma tables_inv_ext: "tables_inv s \<Longrightarrow> heap_ext s t \<Longrightarrow> tables_inv t"
proof -
  assume a: "tables_inv s" "heap_ext s t"
  have "b_ops b < brk s" if "slot src bid s = Some b" for src bid b
    using tables_block [OF a(1) that] a(1) unfolding tables_inv_def heap_bound_def by blast
  then show ?thesis using a by (intro tables_inv_frame [OF a(1)]) (auto simp: heap_ext_def)
qed

lemma senders_inv_cong: "senders_inv u P s \<Longrightarrow> recv_batch t = recv_batch s \<Longrightarrow> senders_inv u P t"
  using slot_cong [of t s] by (simp add: senders_inv_def)

text \<open>Entering a new batch and removing a live one.\<close>

lemma tables_inv_enter:
  assumes inv: "tables_inv s" and r: "table_range src bid s" and n: "slot src bid s = None"
    and k: "keep_ops ops" and b: "b_ops b = brk s"
  shows "tables_inv (set_slot src bid (Some b) (s\<lparr>op_heap := (op_heap s)(brk s \<mapsto> ops), brk := brk s + 1\<rparr>))"
    (is "tables_inv (set_slot src bid (Some b) ?s)")
proof -
  have r': "table_range src bid ?s" using r by (simp add: table_range_def)
  have sl: "slot i j (set_slot src bid (Some b) ?s) = (if i = src \<and> j = bid then Some b else slot i j s)" for i j
    using slot_set [OF r'] slot_cong [of ?s s] by simp
  have old: "b_ops c < brk s" if "slot i j s = Some c" for i j c
    using inv that unfolding tables_inv_def heap_bound_def by blast
  have "heap_bound (set_slot src bid (Some b) ?s)"
    using inv by (auto simp: tables_inv_def heap_bound_def less_Suc_eq)
  moreover have "\<exists>ops. op_heap (set_slot src bid (Some b) ?s) (b_ops c) = Some ops \<and> keep_ops ops"
    if "slot i j (set_slot src bid (Some b) ?s) = Some c" for i j c
    using that sl [of i j] k b tables_block [OF inv, of i j c] by (auto split: if_splits)
  moreover have "i = i' \<and> j = j'"
    if "slot i j (set_slot src bid (Some b) ?s) = Some c" "slot i' j' (set_slot src bid (Some b) ?s) = Some c'"
      "b_ops c = b_ops c'" for i j c i' j' c'
  proof -
    have e: "(if i = src \<and> j = bid then Some b else slot i j s) = Some c"
      "(if i' = src \<and> j' = bid then Some b else slot i' j' s) = Some c'"
      using that(1,2) unfolding sl .
    have "i = i' \<and> j = j'" if "slot i j s = Some c" "slot i' j' s = Some c'"
      using inv that \<open>b_ops c = b_ops c'\<close> unfolding tables_inv_def by blast
    moreover have "slot i j s = Some c" if "\<not> (i = src \<and> j = bid)" using e(1) that by simp
    moreover have "slot i' j' s = Some c'" if "\<not> (i' = src \<and> j' = bid)" using e(2) that by simp
    moreover have "b_ops c = brk s" if "i = src \<and> j = bid" using e(1) that b by simp
    moreover have "b_ops c' = brk s" if "i' = src \<and> j' = bid" using e(2) that b by simp
    ultimately show ?thesis using old [of i j c] old [of i' j' c'] that(3) by (metis less_irrefl)
  qed
  ultimately show ?thesis unfolding tables_inv_def by blast
qed

lemma tables_inv_remove:
  assumes inv: "tables_inv s" and sb: "slot src bid s = Some b"
  shows "tables_inv (set_slot src bid None (s\<lparr>op_heap := (op_heap s)(b_ops b := None)\<rparr>))"
    (is "tables_inv (set_slot src bid None ?s)")
proof -
  have r': "table_range src bid ?s" using slot_range [OF sb] by (simp add: table_range_def)
  have sl: "slot i j (set_slot src bid None ?s) = (if i = src \<and> j = bid then None else slot i j s)" for i j
    using slot_set [OF r'] slot_cong [of ?s s] by simp
  have ne: "b_ops c \<noteq> b_ops b" if "slot i j s = Some c" "\<not> (i = src \<and> j = bid)" for i j c
    using inv that sb unfolding tables_inv_def by metis
  have "heap_bound (set_slot src bid None ?s)" using inv by (simp add: tables_inv_def heap_bound_def)
  moreover have "\<exists>ops. op_heap (set_slot src bid None ?s) (b_ops c) = Some ops \<and> keep_ops ops"
    if "slot i j (set_slot src bid None ?s) = Some c" for i j c
    using that sl [of i j] ne [of i j c] tables_block [OF inv, of i j c] by (simp split: if_splits)
  moreover have "i = i' \<and> j = j'"
    if "slot i j (set_slot src bid None ?s) = Some c" "slot i' j' (set_slot src bid None ?s) = Some c'"
      "b_ops c = b_ops c'" for i j c i' j' c'
    using that sl [of i j] sl [of i' j'] inv unfolding tables_inv_def by (metis option.distinct(1))
  ultimately show ?thesis unfolding tables_inv_def by blast
qed

text \<open>The senders' side: one pool moves, one slot changes.\<close>

lemma senders_inv_upd:
  assumes inv: "senders_inv u P s" and src: "0 \<le> src" "src < mpi_size u"
    and pool: "int_pool_inv (rank_mpi u src) (fst y) (snd y)"
    and len: "length (recv_batch t) = length (recv_batch s)"
    and sl: "\<And>i j. i \<noteq> src \<or> j \<noteq> bid \<Longrightarrow> slot i j t = slot i j s"
    and out: "\<And>j. j \<noteq> bid \<Longrightarrow> j \<in> snd y \<longleftrightarrow> j \<in> snd (P src)" "bid \<in> snd y \<longleftrightarrow> slot src bid t \<noteq> None"
  shows "senders_inv u (P(src := y)) t"
  unfolding senders_inv_def
proof (intro conjI allI impI)
  show "length (recv_batch t) = nat (mpi_size u)" using inv len by (simp add: senders_inv_def)
next
  fix i
  assume i: "0 \<le> i" "i < mpi_size u"
  then show "int_pool_inv (rank_mpi u i) (fst ((P(src := y)) i)) (snd ((P(src := y)) i))"
    using inv pool by (simp add: senders_inv_def)
next
  fix i j
  assume i: "0 \<le> i" "i < mpi_size u"
  then have old: "j \<in> snd (P i) \<longleftrightarrow> slot i j s \<noteq> None" using inv by (simp add: senders_inv_def)
  show "j \<in> snd ((P(src := y)) i) \<longleftrightarrow> slot i j t \<noteq> None"
  proof (cases "i = src")
    case True
    then show ?thesis using old out sl [of i j] by (cases "j = bid") auto
  next
    case False
    then show ?thesis using old sl [of i j] by simp
  qed
qed

section \<open>Every message is accepted\<close>

lemma tables_inv_slots:
  assumes "tables_inv s" "\<And>i j. slot i j t = slot i j s" "op_heap t = op_heap s" "brk t = brk s"
  shows "tables_inv t"
  using assms(1) unfolding tables_inv_def assms(2) heap_bound_def assms(3,4) .

lemma senders_inv_same:
  assumes "senders_inv u P s" "length (recv_batch t) = length (recv_batch s)" "\<And>i j. slot i j t = slot i j s"
  shows "senders_inv u P t"
  using assms by (simp add: senders_inv_def)

lemma proto_inv_same:
  assumes "proto_inv u P s" "recv_batch t = recv_batch s" "op_heap t = op_heap s" "brk t = brk s"
  shows "proto_inv u P t"
  using assms tables_inv_slots [of s t] senders_inv_same [of u P s t] slot_cong [of t s]
  by (simp add: proto_inv_def)

lemma senders_invD:
  assumes "senders_inv u P s" "0 \<le> src" "src < mpi_size u" "P src = (p, out)"
  shows "int_pool_inv (rank_mpi u src) p out" "j \<in> out \<longleftrightarrow> slot src j s \<noteq> None" "nat src < length (recv_batch s)"
  using assms(1) [unfolded senders_inv_def, THEN conjunct2, rule_format, OF assms(2,3)] assms
  by (auto simp: senders_inv_def)

lemma create_accepted:
  assumes inv: "proto_inv u P s" and src: "0 \<le> src" "src < mpi_size u" and P: "P src = (p, out)"
    and get: "uri_mpi_int_pool_get (rank_mpi u src) p = Inr (bid, p')" and b: "bid < 2 ^ 30 - 8" and k: "keep_ops ops"
  shows "\<exists>s'. uri_mpi_process_ctrl_msg src \<lparr>cm_type = create_op_batch, cm_batch_id = bid, cm_ops = Some ops\<rparr> s = Inr s' \<and>
    proto_inv u (P(src := (p', insert bid out))) s'"
proof -
  have ti: "tables_inv s" and si: "senders_inv u P s" using inv by (simp_all add: proto_inv_def)
  have pool: "int_pool_inv (rank_mpi u src) p out" and out: "\<And>j. j \<in> out \<longleftrightarrow> slot src j s \<noteq> None"
    using senders_invD [OF si src P] by blast+
  note new = ip.get_new [OF pool get]
  have nb: "bid \<notin> out" and pool': "int_pool_inv (rank_mpi u src) p' (insert bid out)" using new by blast+
  have pos: "0 < bid" using int_pool_ids [OF pool'] by blast
  have len: "nat src < length (recv_batch s)" using si src by (simp add: senders_inv_def)
  obtain T where T: "grow_table src bid s = Inr (s\<lparr>recv_batch := T\<rparr>)" "length T = length (recv_batch s)"
    "table_range src bid (s\<lparr>recv_batch := T\<rparr>)" "\<And>i j. slot i j (s\<lparr>recv_batch := T\<rparr>) = slot i j s"
    using grow_table_ok [OF src(1) len, of bid] pos b by auto
  let ?s1 = "s\<lparr>recv_batch := T\<rparr>"
  have free: "slot src bid ?s1 = None" using T(4) out nb by simp
  obtain ops' l where ops': "recv_ops_init ops ?s1 = Inr (ops', ?s1\<lparr>mpi_log := l\<rparr>)" "keep_ops ops'"
    using recv_ops_init_ok [OF k] by blast
  let ?s2 = "?s1\<lparr>mpi_log := l\<rparr>"
  let ?b = "\<lparr>b_batch_id = bid, b_ops = brk ?s2\<rparr>"
  let ?s3 = "?s2\<lparr>op_heap := (op_heap ?s2)(brk ?s2 \<mapsto> ops'), brk := brk ?s2 + 1\<rparr>"
  let ?s4 = "set_slot src bid (Some ?b) ?s3"
  have sl2: "slot i j ?s2 = slot i j s" for i j using T(4) [of i j] slot_cong [of ?s2 ?s1] by simp
  have r2: "table_range src bid ?s2" using T(3) by (simp add: table_range_def)
  have "uri_mpi_process_ctrl_msg src \<lparr>cm_type = create_op_batch, cm_batch_id = bid, cm_ops = Some ops\<rparr> s = Inr ?s4"
    using src(1) len T(1) batch_slot_range [OF T(3)] free ops'(1)
    by (simp add: uri_mpi_process_ctrl_msg_def Let_def op_alloc_def)
  moreover have "tables_inv ?s2" by (rule tables_inv_slots [OF ti sl2]) simp_all
  then have "tables_inv ?s4"
    by (rule tables_inv_enter [OF _ r2 _ ops'(2)]) (use free T(4) sl2 in simp_all)
  moreover have "senders_inv u (P(src := (p', insert bid out))) ?s4"
  proof (rule senders_inv_upd [OF si src])
    have r3: "table_range src bid ?s3" using r2 by (simp add: table_range_def)
    have sl4: "slot i j ?s4 = (if i = src \<and> j = bid then Some ?b else slot i j s)" for i j
      unfolding slot_set [OF r3] using sl2 [of i j] slot_cong [of ?s3 ?s2] by simp
    show "slot i j ?s4 = slot i j s" if "i \<noteq> src \<or> j \<noteq> bid" for i j using that sl4 [of i j] by auto
    show "bid \<in> snd (p', insert bid out) \<longleftrightarrow> slot src bid ?s4 \<noteq> None" using sl4 [of src bid] by simp
  qed (use pool' T(2) P in simp_all)
  ultimately show ?thesis by (auto simp: proto_inv_def)
qed

lemma block_ptrs_load:
  "op_heap s b = Some ops \<Longrightarrow> \<forall>p \<in> set (block_ptrs b ops). \<exists>op. op_load p s = Inr op"
  by (auto simp: block_ptrs_def op_load_def op_block_def)

lemma start_accepted:
  assumes inv: "proto_inv u P s" and src: "0 \<le> src" "src < mpi_size u" and P: "P src = (p, out)" and b: "bid \<in> out"
  shows "\<exists>s'. uri_mpi_process_ctrl_msg src \<lparr>cm_type = start_op_batch, cm_batch_id = bid, cm_ops = None\<rparr> s = Inr s' \<and>
    proto_inv u P s'"
proof -
  have ti: "tables_inv s" and si: "senders_inv u P s" using inv by (simp_all add: proto_inv_def)
  obtain ba where ba: "slot src bid s = Some ba" using senders_invD(2) [OF si src P, of bid] b by auto
  obtain ops where ops: "op_heap s (b_ops ba) = Some ops" using tables_block [OF ti ba] by blast
  let ?s = "issue_all (\<lambda>op. MPI_Start (op_req op)) ops s"
  have "\<forall>p \<in> set (block_ptrs (b_ops ba) ops). \<exists>op. op_load p ?s = Inr op"
    using block_ptrs_load [OF ops] by (simp add: issue_all_def)
  from req_que_app_ok [OF this] obtain q where q: "uri_mpi_req_que_app (block_ptrs (b_ops ba) ops) ?s =
      Inr (?s\<lparr>req_q := q, arr_tail := arr_tail ?s + length (block_ptrs (b_ops ba) ops)\<rparr>)" (is "_ = Inr ?t") by blast
  note r = slot_range [OF ba]
  have "bid < int (length (recv_batch s ! nat src))" using r unfolding table_range_def by linarith
  then have "uri_mpi_process_ctrl_msg src \<lparr>cm_type = start_op_batch, cm_batch_id = bid, cm_ops = None\<rparr> s = Inr ?t"
    using batch_slot_range [OF r] ba ops q r
    by (simp add: uri_mpi_process_ctrl_msg_def op_block_def table_range_def nat_less_iff)
  moreover have "proto_inv u P ?t" by (rule proto_inv_same [OF inv]) (simp_all add: issue_all_def)
  ultimately show ?thesis by blast
qed

lemma destroy_accepted:
  assumes inv: "proto_inv u P s" and src: "0 \<le> src" "src < mpi_size u" and P: "P src = (p, out)" and b: "bid \<in> out"
    and ret: "uri_mpi_int_pool_return (rank_mpi u src) p bid = Inr p'"
  shows "\<exists>s'. uri_mpi_process_ctrl_msg src \<lparr>cm_type = destroy_op_batch, cm_batch_id = bid, cm_ops = None\<rparr> s = Inr s' \<and>
    proto_inv u (P(src := (p', out - {bid}))) s'"
proof -
  have ti: "tables_inv s" and si: "senders_inv u P s" using inv by (simp_all add: proto_inv_def)
  have pool: "int_pool_inv (rank_mpi u src) p out" using senders_invD(1) [OF si src P] .
  have pool': "int_pool_inv (rank_mpi u src) p' (out - {bid})" using ip.give_used [OF pool b] ret by auto
  obtain ba where ba: "slot src bid s = Some ba" using senders_invD(2) [OF si src P, of bid] b by auto
  obtain ops where ops: "op_heap s (b_ops ba) = Some ops" using tables_block [OF ti ba] by blast
  let ?s1 = "issue_all (\<lambda>op. MPI_Request_free (op_req op)) ops s"
  let ?s2 = "?s1\<lparr>op_heap := (op_heap ?s1)(b_ops ba := None)\<rparr>"
  let ?t = "set_slot src bid None ?s2"
  have sl1: "slot i j ?s1 = slot i j s" for i j by (rule slot_cong) (simp add: issue_all_def)
  have sl2: "slot i j ?s2 = slot i j s" for i j by (rule slot_cong) (simp add: issue_all_def)
  have r: "table_range src bid ?s2" using slot_range [OF ba] by (simp add: table_range_def issue_all_def)
  have "uri_mpi_process_ctrl_msg src \<lparr>cm_type = destroy_op_batch, cm_batch_id = bid, cm_ops = None\<rparr> s = Inr ?t"
    using batch_slot_range [OF slot_range [OF ba]] ba ops
    by (simp add: uri_mpi_process_ctrl_msg_def op_block_def op_free_def issue_all_def)
  moreover have "tables_inv ?s1" by (rule tables_inv_slots [OF ti sl1]) (simp_all add: issue_all_def)
  then have "tables_inv ?t" by (rule tables_inv_remove) (simp add: sl1 ba)
  moreover have "senders_inv u (P(src := (p', out - {bid}))) ?t"
  proof (rule senders_inv_upd [OF si src])
    have slt: "slot i j ?t = (if i = src \<and> j = bid then None else slot i j s)" for i j
      unfolding slot_set [OF r] sl2 ..
    show "slot i j ?t = slot i j s" if "i \<noteq> src \<or> j \<noteq> bid" for i j using that slt [of i j] by auto
    show "bid \<in> snd (p', out - {bid}) \<longleftrightarrow> slot src bid ?t \<noteq> None" using slt [of src bid] by simp
  qed (use pool' P in \<open>simp_all add: issue_all_def\<close>)
  ultimately show ?thesis by (auto simp: proto_inv_def)
qed

lemma execute_accepted:
  assumes inv: "proto_inv u P s" and ok: "exec_ops_ok ops"
  shows "\<exists>s'. uri_mpi_process_ctrl_msg src \<lparr>cm_type = execute_op_batch, cm_batch_id = - 1, cm_ops = Some ops\<rparr> s = Inr s' \<and>
    proto_inv u P s'"
proof -
  have ti: "tables_inv s" and si: "senders_inv u P s" using inv by (simp_all add: proto_inv_def)
  have "heap_bound s" using ti by (simp add: tables_inv_def)
  from exec_ops_ok_run [OF ok this] obtain ps t where t: "exec_ops ops s = Inr (ps, t)" "heap_ext s t"
    "\<forall>p \<in> set ps. \<exists>op. op_load p t = Inr op" by blast
  obtain q where q: "uri_mpi_req_que_app ps t = Inr (t\<lparr>req_q := q, arr_tail := arr_tail t + length ps\<rparr>)" (is "_ = Inr ?t")
    using req_que_app_ok [OF t(3)] by blast
  have "proto_inv u P t"
    using tables_inv_ext [OF ti t(2)] senders_inv_cong [OF si] t(2) by (simp add: proto_inv_def heap_ext_def)
  then have "proto_inv u P ?t" by (rule proto_inv_same) simp_all
  moreover have "uri_mpi_process_ctrl_msg src \<lparr>cm_type = execute_op_batch, cm_batch_id = - 1, cm_ops = Some ops\<rparr> s = Inr ?t"
    using t(1) q by (simp add: uri_mpi_process_ctrl_msg_def)
  ultimately show ?thesis by blast
qed

lemma msg_accepted:
  assumes inv: "proto_inv u P s" and src: "0 \<le> src" "src < mpi_size u" and m: "sends (rank_mpi u src) (P src) m y"
    and b: "cm_batch_id m < 2 ^ 30 - 8"
  shows "\<exists>s'. uri_mpi_process_ctrl_msg src m s = Inr s' \<and> proto_inv u (P(src := y)) s'"
  using m
proof (cases rule: sends.cases)
  case (send_create p bid p' ops out)
  then show ?thesis using create_accepted [OF inv src] b by simp
next
  case (send_start bid out p)
  then have "P(src := y) = P" by auto
  then show ?thesis using start_accepted [OF inv src] send_start by simp
next
  case (send_destroy bid out p p')
  then show ?thesis using destroy_accepted [OF inv src] by simp
next
  case (send_execute ops p out)
  then have "P(src := y) = P" by auto
  then show ?thesis using execute_accepted [OF inv] send_execute by simp
qed

text \<open>Completions free only blocks that no table holds.\<close>

lemma complete_op_heap:
  assumes "complete_op p s = Inr s'"
  shows "op_heap s' = op_heap s \<or>
    (\<exists>op. op_load p s = Inr op \<and> (op_flag op AND FREE_OP) \<noteq> 0 \<and> op_heap s' = (op_heap s)(fst p := None))"
proof -
  obtain op s1 s2 s3 s4 where op: "op_load p s = Inr op"
    and ev: "mpi_flag_event (op_flag_p op) (op_flag_add op) s = Inr s1"
    and 2: "release_addr op s1 = Inr s2" and 3: "release_req op s2 = Inr s3"
    and 4: "release_tag op s3 = Inr s4" and 5: "release_op p op s4 = Inr s'"
    using assms unfolding complete_op_def uru_assert_Inr res_bind_eq_Inr by blast
  obtain F Q where "s1 = s\<lparr>flags := F, queues := Q\<rparr>" using ev by (rule mpi_flag_event_frame)
  then have "op_heap s1 = op_heap s" by simp
  moreover have "op_heap s2 = op_heap s1" using 2 by (auto simp: release_addr_def split: if_splits option.splits)
  moreover have "op_heap s3 = op_heap s2" using 3 by (auto simp: release_req_def mpi_issue_def split: if_splits)
  moreover have "op_heap s4 = op_heap s3" using 4 by (auto simp: release_tag_def return_tag_def split: if_splits)
  moreover have "s' = s4 \<or> (op_flag op AND FREE_OP) \<noteq> 0 \<and> op_heap s' = (op_heap s4)(fst p := None)"
    using 5 by (auto simp: release_op_def op_free_def split: if_splits)
  ultimately show ?thesis using op by auto
qed

lemma complete_keeps_inv:
  assumes inv: "proto_inv u P s" and c: "complete_op p s = Inr s'"
  shows "proto_inv u P s'"
proof -
  have ti: "tables_inv s" and si: "senders_inv u P s" using inv by (simp_all add: proto_inv_def)
  have fr: "recv_batch s' = recv_batch s" "brk s' = brk s" using complete_op_frame [OF c] by (simp_all add: same_queue_def)
  have live: "op_heap s' (b_ops b) = op_heap s (b_ops b)" if b: "slot src bid s = Some b" for src bid b
  proof (cases "op_heap s' = op_heap s")
    case False
    then obtain op where op: "op_load p s = Inr op" "(op_flag op AND FREE_OP) \<noteq> 0" "op_heap s' = (op_heap s)(fst p := None)"
      using complete_op_heap [OF c] by blast
    obtain ops where ops: "op_heap s (b_ops b) = Some ops" "keep_ops ops" using tables_block [OF ti b] by blast
    have "fst p \<noteq> b_ops b"
    proof
      assume "fst p = b_ops b"
      then have "snd p < length ops" "op = ops ! snd p" using op(1) ops(1) by (auto simp: op_load_def op_block_def split: if_splits)
      then show False using ops(2) op(2) by (simp add: keep_ops_def list_all_length)
    qed
    then show ?thesis using op(3) by simp
  qed simp
  have "heap_bound s'" using ti complete_op_heap [OF c] fr(2) by (auto simp: tables_inv_def heap_bound_def split: if_splits)
  then have "tables_inv s'" using live by (rule tables_inv_frame [OF ti fr(1)])
  then show ?thesis using senders_inv_cong [OF si fr(1)] by (simp add: proto_inv_def)
qed

section \<open>Properties\<close>

lemma rank_mpi_ok: "u_ok u \<Longrightarrow> 0 \<le> src \<Longrightarrow> src < mpi_size u \<Longrightarrow> u_ok (rank_mpi u src)"
  by (simp add: u_ok_def rank_mpi_def)

lemma open_inv:
  assumes "uri_mpi_channel_open tm ch s0 = Inr (st, s)" "uru_mpi s0 = u" "heap_bound s0" "u_ok u"
  shows "proto_inv u (\<lambda>_. (int_pool_init, {})) s"
proof -
  have s: "recv_batch s = replicate (nat (mpi_size u)) []" "op_heap s = op_heap s0" "brk s = brk s0"
    using assms(1,2) by (auto simp: uri_mpi_channel_open_def Let_def)
  have "slot i j s = None" for i j
    by (cases "nat i < nat (mpi_size u)") (auto simp: slot_def s)
  moreover have "heap_bound s" using assms(3) s by (simp add: heap_bound_def)
  ultimately show ?thesis
    using assms(4) s(1) int_pool_init_inv [OF rank_mpi_ok [OF assms(4)]]
    by (simp add: proto_inv_def tables_inv_def senders_inv_def)
qed

lemma proto_run_inv [wf_rules]: "proto_run u P s \<Longrightarrow> u_ok u \<Longrightarrow> proto_inv u P s"
proof (induction rule: proto_run.induct)
  case (run_open tm ch s0 st s)
  then show ?case by (rule open_inv)
next
  case (run_msg P s src m y s')
  then show ?case using msg_accepted [of u P s src m y] by (metis sum.inject(2))
next
  case (run_complete P s p s')
  then show ?case using complete_keeps_inv by blast
qed

text \<open>
  C16. However batches are created, started, executed and destroyed by all the senders, with batch
  numbers recycled in any order, and however completions interleave, the receiver accepts the next
  message of every sender: the table entry of a new batch is empty, the batch of a start or destroy
  message is there, and the table holds exactly the batches that the senders have in use.
\<close>

theorem ctrl_protocol_never_fails:
  assumes "proto_run u P s" "u_ok u" "0 \<le> src" "src < mpi_size u" "sends (rank_mpi u src) (P src) m y"
    and "cm_batch_id m < 2 ^ 30 - 8"
  shows "\<exists>s'. uri_mpi_process_ctrl_msg src m s = Inr s' \<and> proto_run u (P(src := y)) s' \<and>
    (\<forall>bid. bid \<in> snd y \<longleftrightarrow> (\<exists>b. batch_slot src bid s' = Inr (Some b)))"
proof -
  obtain s' where s': "uri_mpi_process_ctrl_msg src m s = Inr s'" "proto_inv u (P(src := y)) s'"
    using msg_accepted [OF proto_run_inv [OF assms(1,2)] assms(3-6)] by blast
  have "senders_inv u (P(src := y)) s'" using s'(2) by (simp add: proto_inv_def)
  then have "bid \<in> snd y \<longleftrightarrow> slot src bid s' \<noteq> None" for bid
    using assms(3,4) by (rule senders_invD(2) [where p = "fst y"]) simp
  moreover have "slot src bid s' \<noteq> None \<longleftrightarrow> (\<exists>b. batch_slot src bid s' = Inr (Some b))" for bid
    using batch_slot_range slot_range by (auto simp: batch_slot_def slot_def split: if_splits) 
  ultimately show ?thesis using s'(1) run_msg [OF assms(1,3-6) s'(1)] by blast
qed

definition example_hdr :: uri_channel_hdr where
  "example_hdr = \<lparr>attr = \<lparr>ch_name = ''mpi'', ch_type = ''mpi'', ch_description = [], ch_blocksize = 4096, channel_id = 0\<rparr>,
     num_devices = 1, device_id = 0, opened = True, mem_h_offset = 24\<rparr>"

theorem ctrl_protocol_never_fails_witness:
  "\<exists>s s'. uri_mpi_channel_open True example_hdr queue_example_state = Inr (URU_STATUS_OK, s) \<and>
    uri_mpi_process_ctrl_msg 0 \<lparr>cm_type = create_op_batch, cm_batch_id = 2,
      cm_ops = Some [zero_op\<lparr>op_type := OP_RECV, op_flag := 34\<rparr>]\<rparr> s = Inr s' \<and>
    (\<exists>b. batch_slot 0 2 s' = Inr (Some b))"
proof -
  let ?m = "\<lparr>cm_type = create_op_batch, cm_batch_id = 2, cm_ops = Some [zero_op\<lparr>op_type := OP_RECV, op_flag := 34\<rparr>]\<rparr>"
  obtain s where s: "uri_mpi_channel_open True example_hdr queue_example_state = Inr (URU_STATUS_OK, s)"
    by (simp add: uri_mpi_channel_open_def Let_def)
  have hb: "heap_bound queue_example_state" by (simp add: heap_bound_def queue_example_state_def)
  have run: "proto_run example_mpi (\<lambda>_. (int_pool_init, {})) s"
    by (rule run_open [OF s _ hb]) (simp add: queue_example_state_def)
  obtain p where p: "uri_mpi_int_pool_get (rank_mpi example_mpi 0) int_pool_init = Inr (2, p)"
    by (simp add: uri_mpi_int_pool_get_def int_pool_init_def rank_mpi_def example_mpi_def id_limit_def
        signed_divide_int_def)
  have snd: "sends (rank_mpi example_mpi 0) (int_pool_init, {}) ?m (p, {2})"
    by (rule send_create [OF p]) (simp_all add: keep_ops_def typed_op_def op_flag_defs)
  have sz: "(0::int) \<le> 0" "0 < mpi_size example_mpi" by (simp_all add: example_mpi_def)
  from ctrl_protocol_never_fails [OF run example_mpi_ok sz snd] obtain s' where
    "uri_mpi_process_ctrl_msg 0 ?m s = Inr s'" "\<forall>bid. bid \<in> {2} \<longleftrightarrow> (\<exists>b. batch_slot 0 bid s' = Inr (Some b))"
    by (auto simp del: split_paired_Ex)
  then show ?thesis using s by blast
qed

text \<open>
  C38. A sender may withdraw a batch as soon as its own side is done. If the receiver takes the start
  and the destroy message before it has tested the requests in between, its queue keeps pointers
  into the freed batch, and completing any of these entries reads freed memory.
\<close>

theorem early_destroy_leaves_dangling:
  assumes "slot src bid s = Some b" "op_heap s (b_ops b) = Some ops" "j < length ops" "b_ops b \<noteq> 0"
  shows "\<exists>s1 s2. uri_mpi_process_ctrl_msg src \<lparr>cm_type = start_op_batch, cm_batch_id = bid, cm_ops = None\<rparr> s = Inr s1 \<and>
    uri_mpi_process_ctrl_msg src \<lparr>cm_type = destroy_op_batch, cm_batch_id = bid, cm_ops = None\<rparr> s1 = Inr s2 \<and>
    arr_tail s2 = arr_tail s + length ops \<and> complete_op (b_ops b, j) s2 = Inl UseAfterFree"
proof -
  note r = slot_range [OF assms(1)]
  let ?s = "issue_all (\<lambda>op. MPI_Start (op_req op)) ops s"
  have "\<forall>p \<in> set (block_ptrs (b_ops b) ops). \<exists>op. op_load p ?s = Inr op"
    using block_ptrs_load [OF assms(2)] by (simp add: issue_all_def)
  from req_que_app_ok [OF this] obtain q where q: "uri_mpi_req_que_app (block_ptrs (b_ops b) ops) ?s =
      Inr (?s\<lparr>req_q := q, arr_tail := arr_tail ?s + length (block_ptrs (b_ops b) ops)\<rparr>)" (is "_ = Inr ?s1") by blast
  have "bid < int (length (recv_batch s ! nat src))" using r unfolding table_range_def by linarith
  then have 1: "uri_mpi_process_ctrl_msg src \<lparr>cm_type = start_op_batch, cm_batch_id = bid, cm_ops = None\<rparr> s = Inr ?s1"
    using batch_slot_range [OF r] assms(1,2) q r
    by (simp add: uri_mpi_process_ctrl_msg_def op_block_def table_range_def nat_less_iff)
  have sl: "slot src bid ?s1 = Some b" using assms(1) slot_cong [of ?s1 s] by (simp add: issue_all_def)
  have h1: "op_heap ?s1 (b_ops b) = Some ops" using assms(2) by (simp add: issue_all_def)
  let ?s2 = "set_slot src bid None (issue_all (\<lambda>op. MPI_Request_free (op_req op)) ops ?s1
    \<lparr>op_heap := (op_heap ?s1)(b_ops b := None)\<rparr>)"
  have 2: "uri_mpi_process_ctrl_msg src \<lparr>cm_type = destroy_op_batch, cm_batch_id = bid, cm_ops = None\<rparr> ?s1 = Inr ?s2"
    using batch_slot_range [OF slot_range [OF sl]] sl h1
    by (simp add: uri_mpi_process_ctrl_msg_def op_block_def op_free_def issue_all_def)
  have "arr_tail ?s2 = arr_tail s + length ops" by (simp add: set_slot_def issue_all_def block_ptrs_def)
  moreover have "complete_op (b_ops b, j) ?s2 = Inl UseAfterFree"
    using assms(4) by (simp add: complete_op_def op_load_def op_block_def)
  ultimately show ?thesis using 1 2 by blast
qed

theorem early_destroy_leaves_dangling_witness:
  "\<exists>s1 s2. uri_mpi_process_ctrl_msg 1 \<lparr>cm_type = start_op_batch, cm_batch_id = 0, cm_ops = None\<rparr>
       (queue_example_state\<lparr>recv_batch := [[], [Some \<lparr>b_batch_id = 0, b_ops = 4\<rparr>]]\<rparr>) = Inr s1 \<and>
     uri_mpi_process_ctrl_msg 1 \<lparr>cm_type = destroy_op_batch, cm_batch_id = 0, cm_ops = None\<rparr> s1 = Inr s2 \<and>
     complete_op (4, 0) s2 = Inl UseAfterFree"
  using early_destroy_leaves_dangling [where src = 1 and bid = 0 and j = 0 and ops = "[zero_op]"
      and b = "\<lparr>b_batch_id = 0, b_ops = 4\<rparr>"
      and s = "queue_example_state\<lparr>recv_batch := [[], [Some \<lparr>b_batch_id = 0, b_ops = 4\<rparr>]]\<rparr>"]
  by (auto simp: slot_def queue_example_state_def)

end
