(* ===== verification/Uri_Mpi_Rdma.thy ===== *)
theory Uri_Mpi_Rdma
  imports Uri_Mpi_Proto
begin

text \<open>
  Transfers over the MPI channel, \<open>src/uri/mpi/uri_mpi_rdma.c\<close>: creating, starting and destroying
  a plan. The sender's half of each write becomes an operation of its own; the receivers' halves
  are sorted by rank, grouped into one batch per receiver, and announced by control messages.

  \<open>qsort\<close> of the C library is an argument, of which the theorems assume that it sorts.
\<close>

section \<open>One write\<close>

definition get_tag :: "int \<Rightarrow> ('z) uri_mpi_state_scheme \<Rightarrow> (int \<times> 'z uri_mpi_state_scheme) res" where
  "get_tag r s =
     (if r < 0 \<or> length (mpi_tag s) \<le> nat r then Inl OutOfBounds
      else res_bind (uri_mpi_int_pool_get (uru_mpi s) (mpi_tag s ! nat r))
        (\<lambda>(x, pool). Inr (x, s\<lparr>mpi_tag := (mpi_tag s)[nat r := pool]\<rparr>)))"

definition get_batch_id :: "int \<Rightarrow> ('z) uri_mpi_state_scheme \<Rightarrow> (int \<times> 'z uri_mpi_state_scheme) res" where
  "get_batch_id r s =
     (if r < 0 \<or> length (batch_id s) \<le> nat r then Inl OutOfBounds
      else res_bind (uri_mpi_int_pool_get (uru_mpi s) (batch_id s ! nat r))
        (\<lambda>(x, pool). Inr (x, s\<lparr>batch_id := (batch_id s)[nat r := pool]\<rparr>)))"

definition return_batch_id :: "int \<Rightarrow> int \<Rightarrow> ('z) uri_mpi_state_scheme \<Rightarrow> 'z uri_mpi_state_scheme res" where
  "return_batch_id r x s =
     (if r < 0 \<or> length (batch_id s) \<le> nat r then Inl OutOfBounds
      else res_bind (uri_mpi_int_pool_return (uru_mpi s) (batch_id s ! nat r) x)
        (\<lambda>pool. Inr (s\<lparr>batch_id := (batch_id s)[nat r := pool]\<rparr>)))"

definition op_types :: "uru_transfer_t \<Rightarrow> (u32 \<times> u32) res" where
  "op_types t = (case t of
       URU_TRANSFER_TYPE_DMA_PUT \<Rightarrow> Inr (OP_SEND, OP_RECV)
     | URU_TRANSFER_TYPE_DMA_GET \<Rightarrow> Inr (OP_RECV, OP_SEND)
     | URU_TRANSFER_TYPE_UNKNOWN \<Rightarrow> Inl (Exit URU_MPI_CHANNEL_ERROR_EXIT))"

text \<open>
  The body of the first loop: the sender's and the receiver's operation, and for a transfer that
  is executed at once the pointer to the running copy of the sender's.
\<close>

definition create_wrt ::
  "uri_channel_hdr \<Rightarrow> bool \<Rightarrow> uru_transfer_t \<times> uri_wrt \<Rightarrow> ('z) uri_mpi_state_scheme \<Rightarrow>
   (uri_mpi_op_t \<times> uri_mpi_op_t \<times> op_ptr list \<times> 'z uri_mpi_state_scheme) res" where
  "create_wrt ch once_now tw s = (case tw of (t, w) \<Rightarrow>
     res_bind (uri_mem_get_info (mems s) ch (loc_mem w)) (\<lambda>(send_addr, send_size, src_rank).
     res_bind (uri_mem_get_info (mems s) ch (rmt_mem w)) (\<lambda>(recv_addr, recv_size, dst_rank).
     uru_assert (src_rank = mpi_rank (uru_mpi s))
     (uru_assert (loc_offset w + dma_size w \<le> send_size)
     (uru_assert (rmt_offset w + dma_size w \<le> recv_size)
     (res_bind (op_types t) (\<lambda>(st, rt).
      res_bind (get_tag dst_rank s) (\<lambda>(tag, s).
        let send_op = zero_op\<lparr>op_addr := unat (send_addr + loc_offset w), op_size := dma_size w,
              op_flag_p := loc_flag_p w, op_flag_add := loc_flag_add w, op_rank := dst_rank, op_type := st, op_tag := tag\<rparr>;
            recv_op = zero_op\<lparr>op_addr := unat (recv_addr + rmt_offset w), op_size := dma_size w,
              op_flag_p := rmt_flag_p w, op_flag_add := rmt_flag_add w, op_rank := dst_rank, op_type := rt, op_tag := tag\<rparr> in
        if once_now then
          let (r, s) = mpi_issue ((if t = URU_TRANSFER_TYPE_DMA_PUT then MPI_Isend else MPI_Irecv)
                (op_addr send_op) (mpi_count (dma_size w)) dst_rank tag) s;
              (b, s) = op_alloc [send_op\<lparr>op_flag := FREE_OP OR FREE_TAG, op_req := r\<rparr>] s;
              recv_op = recv_op\<lparr>op_flag := FREE_OP\<rparr> in
          uru_assert ((op_flag recv_op AND FREE_TAG) = 0) (Inr (send_op, recv_op, [(b, 0)], s))
        else
          let (r, s) = mpi_issue ((if t = URU_TRANSFER_TYPE_DMA_PUT then MPI_Send_init else MPI_Recv_init)
                (op_addr send_op) (mpi_count (dma_size w)) dst_rank tag) s;
              recv_op = recv_op\<lparr>op_flag := KEEP_OP OR KEEP_REQ\<rparr> in
          uru_assert ((op_flag recv_op AND FREE_TAG) = 0)
            (Inr (send_op\<lparr>op_flag := KEEP_OP OR KEEP_REQ, op_req := r\<rparr>, recv_op, [], s))))))))))"

fun create_wrts ::
  "uri_channel_hdr \<Rightarrow> bool \<Rightarrow> (uru_transfer_t \<times> uri_wrt) list \<Rightarrow> ('z) uri_mpi_state_scheme \<Rightarrow>
   (uri_mpi_op_t list \<times> uri_mpi_op_t list \<times> op_ptr list \<times> 'z uri_mpi_state_scheme) res" where
  "create_wrts ch once_now [] s = Inr ([], [], [], s)"
| "create_wrts ch once_now (w # ws) s =
     res_bind (create_wrt ch once_now w s) (\<lambda>(send_op, recv_op, ps, s).
     res_bind (create_wrts ch once_now ws s) (\<lambda>(send_ops, recv_ops, ps', s).
     Inr (send_op # send_ops, recv_op # recv_ops, ps @ ps', s)))"

section \<open>Grouping by receiver\<close>

definition uri_mpi_op_cmp :: "uri_mpi_op_t \<Rightarrow> uri_mpi_op_t \<Rightarrow> int" where
  "uri_mpi_op_cmp op1 op2 = op_rank op1 - op_rank op2"

definition qsort_spec :: "(uri_mpi_op_t list \<Rightarrow> uri_mpi_op_t list) \<Rightarrow> bool" where
  "qsort_spec qsort \<longleftrightarrow> (\<forall>xs. mset (qsort xs) = mset xs \<and> sorted_wrt (\<lambda>a b. uri_mpi_op_cmp a b \<le> 0) (qsort xs))"

definition num_receiver :: "uri_mpi_op_t list \<Rightarrow> nat" where
  "num_receiver ops = 1 + length (filter (\<lambda>i. op_rank (ops ! i) \<noteq> op_rank (ops ! (i - 1))) [1..<length ops])"

text \<open>
  The second loop, \<open>num_receiver\<close> times: the operations from \<open>st\<close> on with the rank of the first.
  It reads one operation even where there is none.
\<close>

fun recv_runs :: "nat \<Rightarrow> uri_mpi_op_t list \<Rightarrow> uri_mpi_op_t list list res" where
  "recv_runs 0 ops = Inr []"
| "recv_runs (Suc k) [] = Inl OutOfBounds"
| "recv_runs (Suc k) (op # ops) =
     res_bind (recv_runs k (dropWhile (\<lambda>o'. op_rank o' = op_rank op) ops)) (\<lambda>runs.
     Inr ((op # takeWhile (\<lambda>o'. op_rank o' = op_rank op) ops) # runs))"

section \<open>Control messages out\<close>

text \<open>The size of a message with \<open>n\<close> operations behind it, on the 64-bit Linux of the build.\<close>

definition ctrl_msg_size :: "nat option \<Rightarrow> u64" where
  "ctrl_msg_size n = (case n of None \<Rightarrow> 16 | Some n \<Rightarrow> 24 + 56 * of_nat n)"

definition send_ctrl ::
  "int \<Rightarrow> uri_mpi_ctrl_msg_t \<Rightarrow> ('z) uri_mpi_state_scheme \<Rightarrow> op_ptr \<times> 'z uri_mpi_state_scheme" where
  "send_ctrl dst_rank msg s =
     (let c = brk s; s = s\<lparr>ctrl_heap := (ctrl_heap s)(c \<mapsto> msg), brk := brk s + 1\<rparr>;
          (r, s) = mpi_issue (MPI_Isend_ctrl dst_rank msg) s;
          (b, s) = op_alloc [zero_op\<lparr>op_addr := c, op_size := ctrl_msg_size (map_option length (cm_ops msg)),
             op_rank := dst_rank, op_flag := FREE_OP OR FREE_ADDR, op_req := r\<rparr>] s
      in ((b, 0), s))"

text \<open>One turn of the second loop for the operations of one receiver.\<close>

definition announce ::
  "bool \<Rightarrow> uri_mpi_op_t list \<Rightarrow> ('z) uri_mpi_state_scheme \<Rightarrow>
   (uri_mpi_op_batch_t \<times> op_ptr \<times> 'z uri_mpi_state_scheme) res" where
  "announce once_now run s =
     (let dst_rank = op_rank (hd run);
          (b, s) = op_alloc run s in
      res_bind (if once_now then Inr (- 1, s) else get_batch_id dst_rank s) (\<lambda>(bid, s).
        let msg = \<lparr>cm_type = (if once_now then execute_op_batch else create_op_batch), cm_batch_id = bid,
               cm_ops = Some (map (\<lambda>op. op\<lparr>op_rank := mpi_rank (uru_mpi s)\<rparr>) run)\<rparr>;
            (p, s) = send_ctrl dst_rank msg s in
        Inr (\<lparr>b_batch_id = bid, b_ops = b\<rparr>, p, s)))"

fun announce_all ::
  "bool \<Rightarrow> uri_mpi_op_t list list \<Rightarrow> ('z) uri_mpi_state_scheme \<Rightarrow>
   (uri_mpi_op_batch_t list \<times> op_ptr list \<times> 'z uri_mpi_state_scheme) res" where
  "announce_all once_now [] s = Inr ([], [], s)"
| "announce_all once_now (run # runs) s =
     res_bind (announce once_now run s) (\<lambda>(b, p, s).
     res_bind (announce_all once_now runs s) (\<lambda>(bs, ps, s). Inr (b # bs, p # ps, s)))"

section \<open>Plans\<close>

text \<open>
  The batches of a plan that is executed at once are freed again with the plan; the returned
  address is then not one of a plan.
\<close>

definition uri_mpi_rdma_plan_create ::
  "(uri_mpi_op_t list \<Rightarrow> uri_mpi_op_t list) \<Rightarrow> uri_channel_hdr \<Rightarrow> bool \<Rightarrow> (uru_transfer_t \<times> uri_wrt) list \<Rightarrow>
   ('z) uri_mpi_state_scheme \<Rightarrow> (addr \<times> 'z uri_mpi_state_scheme) res" where
  "uri_mpi_rdma_plan_create qsort ch once_now wrts s =
     res_bind (create_wrts ch once_now wrts s) (\<lambda>(send_ops, recv_ops, ps, s).
     let recv_ops = qsort recv_ops in
     res_bind (recv_runs (num_receiver recv_ops) recv_ops) (\<lambda>runs.
     res_bind (announce_all once_now runs s) (\<lambda>(batches, ps', s).
     res_bind (uri_mpi_req_que_app (ps @ ps') s) (\<lambda>s.
     let (sb, s) = op_alloc send_ops s; plan_p = brk s; s = s\<lparr>brk := brk s + 1\<rparr> in
     if once_now then
       res_bind (op_free sb s) (\<lambda>s.
       res_bind (fold_res (\<lambda>b. op_free (b_ops b)) batches s) (\<lambda>s. Inr (plan_p, s)))
     else Inr (plan_p, s\<lparr>mpi_plans := (mpi_plans s)(plan_p \<mapsto>
       \<lparr>pl_send_batch = \<lparr>b_batch_id = - 1, b_ops = sb\<rparr>, pl_recv_batch = batches\<rparr>)\<rparr>)))))"

definition load_plan :: "addr \<Rightarrow> ('z) uri_mpi_state_scheme \<Rightarrow> uri_mpi_plan_t res" where
  "load_plan plan_p s = (case mpi_plans s plan_p of None \<Rightarrow> Inl UseAfterFree | Some pl \<Rightarrow> Inr pl)"

text \<open>The receiver of a batch is the rank of its first operation.\<close>

definition batch_rank :: "uri_mpi_op_batch_t \<Rightarrow> ('z) uri_mpi_state_scheme \<Rightarrow> int res" where
  "batch_rank b s = res_bind (op_load (b_ops b, 0) s) (\<lambda>op. Inr (op_rank op))"

fun start_all ::
  "uri_mpi_op_batch_t list \<Rightarrow> ('z) uri_mpi_state_scheme \<Rightarrow> (op_ptr list \<times> 'z uri_mpi_state_scheme) res" where
  "start_all [] s = Inr ([], s)"
| "start_all (b # bs) s =
     res_bind (batch_rank b s) (\<lambda>dst_rank.
     let (p, s) = send_ctrl dst_rank \<lparr>cm_type = start_op_batch, cm_batch_id = b_batch_id b, cm_ops = None\<rparr> s in
     res_bind (start_all bs s) (\<lambda>(ps, s). Inr (p # ps, s)))"

definition uri_mpi_rdma_plan_start ::
  "uri_channel_hdr \<Rightarrow> addr \<Rightarrow> ('z) uri_mpi_state_scheme \<Rightarrow> (uru_status_t \<times> 'z uri_mpi_state_scheme) res" where
  "uri_mpi_rdma_plan_start ch plan_p s =
     res_bind (load_plan plan_p s) (\<lambda>pl.
     res_bind (start_all (pl_recv_batch pl) s) (\<lambda>(ps, s).
     res_bind (op_block (b_ops (pl_send_batch pl)) s) (\<lambda>send_ops.
     res_bind (uri_mpi_req_que_app (ps @ block_ptrs (b_ops (pl_send_batch pl)) send_ops)
       (issue_all (\<lambda>op. MPI_Start (op_req op)) send_ops s)) (\<lambda>s.
     Inr (URU_STATUS_OK, s)))))"

definition drop_send_op :: "uri_mpi_op_t \<Rightarrow> ('z) uri_mpi_state_scheme \<Rightarrow> 'z uri_mpi_state_scheme res" where
  "drop_send_op op s =
     res_bind (return_tag (op_rank op) (op_tag op) s) (\<lambda>s. Inr (snd (mpi_issue (MPI_Request_free (op_req op)) s)))"

fun destroy_all ::
  "uri_mpi_op_batch_t list \<Rightarrow> ('z) uri_mpi_state_scheme \<Rightarrow> (op_ptr list \<times> 'z uri_mpi_state_scheme) res" where
  "destroy_all [] s = Inr ([], s)"
| "destroy_all (b # bs) s =
     res_bind (batch_rank b s) (\<lambda>dst_rank.
     let (p, s) = send_ctrl dst_rank \<lparr>cm_type = destroy_op_batch, cm_batch_id = b_batch_id b, cm_ops = None\<rparr> s in
     res_bind (return_batch_id dst_rank (b_batch_id b) s) (\<lambda>s.
     res_bind (destroy_all bs s) (\<lambda>(ps, s). Inr (p # ps, s))))"

definition uri_mpi_rdma_plan_destroy ::
  "uri_channel_hdr \<Rightarrow> addr \<Rightarrow> ('z) uri_mpi_state_scheme \<Rightarrow> (uru_status_t \<times> 'z uri_mpi_state_scheme) res" where
  "uri_mpi_rdma_plan_destroy ch plan_p s =
     res_bind (load_plan plan_p s) (\<lambda>pl.
     res_bind (op_block (b_ops (pl_send_batch pl)) s) (\<lambda>send_ops.
     res_bind (fold_res drop_send_op send_ops s) (\<lambda>s.
     res_bind (destroy_all (pl_recv_batch pl) s) (\<lambda>(ps, s).
     res_bind (uri_mpi_req_que_app ps s) (\<lambda>s.
     res_bind (op_free (b_ops (pl_send_batch pl)) s) (\<lambda>s.
     res_bind (fold_res (\<lambda>b. op_free (b_ops b)) (pl_recv_batch pl) s) (\<lambda>s.
     Inr (URU_STATUS_OK, s\<lparr>mpi_plans := (mpi_plans s)(plan_p := None)\<rparr>))))))))"

text \<open>The module's table of functions, as \<open>uri_mpi_channel_init\<close> fills it.\<close>

definition uri_mpi_channel_func_ptrs ::
  "(uri_mpi_op_t list \<Rightarrow> uri_mpi_op_t list) \<Rightarrow> bool \<Rightarrow> (int \<times> uri_mpi_ctrl_msg_t) list \<Rightarrow> (nat list \<Rightarrow> nat list option) \<Rightarrow>
   ((int \<times> uri_mpi_ctrl_msg_t) list \<times> (nat list \<Rightarrow> nat list option) \<times> nat) list \<Rightarrow> uri_mpi_state uri_channel_func_ptrs" where
  "uri_mpi_channel_func_ptrs qsort thread_multiple msgs testsome rounds =
    \<lparr>channel_open = Some (uri_mpi_channel_open thread_multiple),
     channel_daemon = Some (uri_mpi_channel_daemon msgs testsome),
     channel_close = Some (uri_mpi_channel_close rounds),
     mem_h_size = Some uri_mpi_mem_h_size,
     mem_reg = Some uri_mpi_mem_reg,
     rdma_plan_create = Some (uri_mpi_rdma_plan_create qsort),
     rdma_plan_start = Some uri_mpi_rdma_plan_start,
     rdma_plan_destroy = Some uri_mpi_rdma_plan_destroy\<rparr>"

section \<open>The groups\<close>

lemma filter_upt_Suc: "filter P [Suc m..<Suc n] = map Suc (filter (\<lambda>i. P (Suc i)) [m..<n])"
  by (simp only: map_Suc_upt [symmetric] filter_map comp_def)

lemma num_receiver_Cons2 [simp]:
  "num_receiver (x # y # ops) = (if op_rank x \<noteq> op_rank y then 1 else 0) + num_receiver (y # ops)"
proof -
  let ?P = "\<lambda>xs i. op_rank (xs ! i) \<noteq> op_rank (xs ! (i - 1))"
  have up: "[1..<length (x # y # ops)] = 1 # [Suc 1..<Suc (length (y # ops))]"
    by (subst upt_conv_Cons) (simp_all del: upt.simps)
  have cg: "filter (\<lambda>i. ?P (x # y # ops) (Suc i)) [1..<length (y # ops)] = filter (?P (y # ops)) [1..<length (y # ops)]"
  proof (rule filter_cong)
    fix i
    assume "i \<in> set [1..<length (y # ops)]"
    then have "i \<noteq> 0" by (metis atLeastLessThan_iff not_one_le_zero set_upt)
    then obtain k where "i = Suc k" using not0_implies_Suc by blast
    then show "?P (x # y # ops) (Suc i) = ?P (y # ops) i" by simp
  qed simp
  have "length (filter (?P (x # y # ops)) [Suc 1..<Suc (length (y # ops))]) =
      length (filter (?P (y # ops)) [1..<length (y # ops)])"
    unfolding filter_upt_Suc cg [symmetric] by simp
  then show ?thesis unfolding num_receiver_def up by simp
qed

lemma num_receiver_single [simp]: "num_receiver [x] = 1" "num_receiver [] = 1"
  by (simp_all add: num_receiver_def)

lemma num_receiver_pos [simp]: "0 < num_receiver ops"
  by (simp add: num_receiver_def)

text \<open>The counter of the first pass is the number of turns that the second pass needs.\<close>

lemma num_receiver_run:
  "num_receiver (x # ops) =
     (case dropWhile (\<lambda>o'. op_rank o' = op_rank x) ops of [] \<Rightarrow> 1 | y # ys \<Rightarrow> Suc (num_receiver (y # ys)))"
proof (induction ops arbitrary: x)
  case (Cons y ops)
  show ?case
  proof (cases "op_rank y = op_rank x")
    case True
    then show ?thesis using Cons [of y] by simp
  qed simp
qed simp

definition is_run :: "uri_mpi_op_t list \<Rightarrow> bool" where
  "is_run run \<longleftrightarrow> run \<noteq> [] \<and> (\<forall>op \<in> set run. op_rank op = op_rank (hd run))"

lemma recv_runs_ok:
  assumes "ops \<noteq> []"
  shows "\<exists>runs. recv_runs (num_receiver ops) ops = Inr runs \<and> concat runs = ops \<and> list_all is_run runs"
  using assms
proof (induction "length ops" arbitrary: ops rule: less_induct)
  case less
  then obtain x xs where ops: "ops = x # xs" by (cases ops) auto
  let ?d = "dropWhile (\<lambda>o'. op_rank o' = op_rank x) xs" and ?t = "takeWhile (\<lambda>o'. op_rank o' = op_rank x) xs"
  have run: "is_run (x # ?t)" by (auto simp: is_run_def dest: set_takeWhileD)
  show ?case
  proof (cases ?d)
    case Nil
    have "num_receiver ops = Suc 0"
      using num_receiver_run [of x xs] unfolding ops Nil by (simp only: list.case One_nat_def)
    moreover have "?t = xs" using takeWhile_dropWhile_id [of "\<lambda>o'. op_rank o' = op_rank x" xs] unfolding Nil by simp
    ultimately show ?thesis using run by (simp add: ops)
  next
    case (Cons y ys)
    have "length ?d \<le> length xs" by (rule length_dropWhile_le)
    then have "length (y # ys) < length ops" using Cons by (simp add: ops)
    from less.hyps [OF this] obtain runs where runs: "recv_runs (num_receiver (y # ys)) (y # ys) = Inr runs"
      "concat runs = y # ys" "list_all is_run runs" by auto
    have "num_receiver ops = Suc (num_receiver (y # ys))" using Cons by (simp add: ops num_receiver_run)
    then have "recv_runs (num_receiver ops) ops = Inr ((x # ?t) # runs)" using runs(1) Cons by (simp add: ops)
    moreover have "concat ((x # ?t) # runs) = ops"
      using runs(2) takeWhile_dropWhile_id [of "\<lambda>o'. op_rank o' = op_rank x" xs] Cons by (simp add: ops)
    ultimately show ?thesis using run runs(3) by auto
  qed
qed

text \<open>With the operations sorted, no receiver has two groups.\<close>

definition rank_sorted :: "uri_mpi_op_t list \<Rightarrow> bool" where
  "rank_sorted ops \<longleftrightarrow> sorted_wrt (\<lambda>a b. op_rank a \<le> op_rank b) ops"

lemma dropWhile_rank_less:
  assumes "rank_sorted (x # xs)" "y \<in> set (dropWhile (\<lambda>o'. op_rank o' = op_rank x) xs)"
  shows "op_rank x < op_rank y"
  using assms
proof (induction xs)
  case (Cons z zs)
  show ?case
  proof (cases "op_rank z = op_rank x")
    case True
    then show ?thesis using Cons by (simp add: rank_sorted_def)
  next
    case False
    then have "op_rank x < op_rank z" "op_rank z \<le> op_rank y"
      using Cons.prems by (auto simp: rank_sorted_def)
    then show ?thesis by simp
  qed
qed simp

lemma recv_runs_distinct:
  assumes "rank_sorted ops" "recv_runs k ops = Inr runs"
  shows "distinct (map (\<lambda>run. op_rank (hd run)) runs) \<and> (\<forall>run \<in> set runs. run \<noteq> [] \<and> set run \<subseteq> set ops)"
  using assms
proof (induction k ops arbitrary: runs rule: recv_runs.induct)
  case (3 k x xs)
  let ?d = "dropWhile (\<lambda>o'. op_rank o' = op_rank x) xs"
  obtain runs' where runs': "recv_runs k ?d = Inr runs'"
    "runs = (x # takeWhile (\<lambda>o'. op_rank o' = op_rank x) xs) # runs'" using "3.prems"(2) by auto
  have "rank_sorted ?d"
    using "3.prems"(1) sorted_wrt_dropWhile [of "\<lambda>a b. op_rank a \<le> op_rank b" xs] by (simp add: rank_sorted_def)
  note IH = "3.IH" [OF this runs'(1)]
  have "op_rank x < op_rank (hd run)" if "run \<in> set runs'" for run
    using IH that dropWhile_rank_less [OF "3.prems"(1), of "hd run"] by (meson hd_in_set subsetD)
  then have "op_rank x \<notin> (\<lambda>run. op_rank (hd run)) ` set runs'" by fastforce
  moreover have "set ?d \<subseteq> set xs" by (meson set_dropWhileD subsetI)
  ultimately show ?case using IH runs'(2) by (auto dest: set_takeWhileD)
qed simp_all

lemma filter_run:
  assumes "list_all is_run runs" "distinct (map (\<lambda>run. op_rank (hd run)) runs)" "run \<in> set runs"
  shows "filter (\<lambda>op. op_rank op = op_rank (hd run)) (concat runs) = run"
  using assms
proof (induction runs)
  case (Cons r runs)
  have own: "filter (\<lambda>op. op_rank op = op_rank (hd r)) r = r" if "is_run r" for r
    using that unfolding is_run_def by (intro filter_True) blast
  have other: "filter (\<lambda>op. op_rank op = k) r = []" if "is_run r" "k \<noteq> op_rank (hd r)" for r k
    using that unfolding is_run_def filter_empty_conv by metis
  show ?case
  proof (cases "run = r")
    case True
    have "filter (\<lambda>op. op_rank op = op_rank (hd r)) (concat runs) = []"
    proof -
      have "filter (\<lambda>op. op_rank op = op_rank (hd r)) r' = []" if "r' \<in> set runs" for r'
      proof (rule other)
        show "is_run r'" using Cons.prems(1) that by (simp add: list_all_iff)
        show "op_rank (hd r) \<noteq> op_rank (hd r')" using Cons.prems(2) that by auto
      qed
      then show ?thesis by (simp add: filter_concat)
    qed
    then show ?thesis using True own Cons.prems(1) by simp
  next
    case False
    then have "run \<in> set runs" using Cons.prems(3) by simp
    moreover have "op_rank (hd run) \<noteq> op_rank (hd r)" using Cons.prems(2) imageI [OF calculation, of "\<lambda>run. op_rank (hd run)"] by auto
    ultimately show ?thesis using Cons.IH other [of r "op_rank (hd run)"] Cons.prems by simp
  qed
qed simp

lemma qsort_rank_sorted: "qsort_spec qsort \<Longrightarrow> rank_sorted (qsort ops)"
  by (simp add: qsort_spec_def rank_sorted_def uri_mpi_op_cmp_def)

text \<open>
  C32. The two passes over the sorted operations agree: the second finds as many groups as the first
  counted, every write goes into exactly one group, each group goes to one receiver and holds all
  of that receiver's operations, and no receiver gets two groups. With no write at all the loop
  reads an operation that does not exist.
\<close>

theorem mpi_groups_by_receiver:
  assumes "qsort_spec qsort" "recv_ops \<noteq> []"
  shows "(\<exists>runs. recv_runs (num_receiver (qsort recv_ops)) (qsort recv_ops) = Inr runs \<and>
      mset (concat runs) = mset recv_ops \<and> distinct (map (\<lambda>run. op_rank (hd run)) runs) \<and>
      (\<forall>run \<in> set runs. run \<noteq> [] \<and> mset run = filter_mset (\<lambda>op. op_rank op = op_rank (hd run)) (mset recv_ops))) \<and>
    recv_runs (num_receiver []) [] = Inl OutOfBounds"
proof -
  have ms: "mset (qsort recv_ops) = mset recv_ops" using assms(1) by (simp add: qsort_spec_def)
  then have ne: "qsort recv_ops \<noteq> []" using assms(2) by auto
  obtain runs where runs: "recv_runs (num_receiver (qsort recv_ops)) (qsort recv_ops) = Inr runs"
    "concat runs = qsort recv_ops" "list_all is_run runs"
    using recv_runs_ok [OF ne] by blast
  have d: "distinct (map (\<lambda>run. op_rank (hd run)) runs)"
    using recv_runs_distinct [OF qsort_rank_sorted [OF assms(1)] runs(1)] by blast
  have "run \<noteq> [] \<and> mset run = filter_mset (\<lambda>op. op_rank op = op_rank (hd run)) (mset recv_ops)"
    if "run \<in> set runs" for run
  proof
    show "run \<noteq> []" using runs(3) that by (auto simp: list_all_iff is_run_def)
    show "mset run = filter_mset (\<lambda>op. op_rank op = op_rank (hd run)) (mset recv_ops)"
      using filter_run [OF runs(3) d that] ms runs(2) by (metis mset_filter)
  qed
  then show ?thesis using runs(1,2) d ms by auto
qed

text \<open>Insertion sort by rank meets the specification.\<close>

lemma insort_spec: "qsort_spec (sort_key op_rank)"
proof -
  have "sorted_wrt (\<lambda>a b. uri_mpi_op_cmp a b \<le> 0) (sort_key op_rank xs)" for xs
    using sorted_sort_key [of op_rank xs] by (simp add: sorted_wrt_map uri_mpi_op_cmp_def)
  then show ?thesis by (simp add: qsort_spec_def)
qed

theorem mpi_groups_by_receiver_witness:
  "\<exists>runs. recv_runs (num_receiver (sort_key op_rank [zero_op\<lparr>op_rank := 3\<rparr>, zero_op, zero_op\<lparr>op_rank := 3, op_tag := 1\<rparr>]))
       (sort_key op_rank [zero_op\<lparr>op_rank := 3\<rparr>, zero_op, zero_op\<lparr>op_rank := 3, op_tag := 1\<rparr>]) = Inr runs \<and>
     distinct (map (\<lambda>run. op_rank (hd run)) runs)"
  using mpi_groups_by_receiver [OF insort_spec,
      of "[zero_op\<lparr>op_rank := 3\<rparr>, zero_op, zero_op\<lparr>op_rank := 3, op_tag := 1\<rparr>]"] by blast

section \<open>Bounds\<close>

text \<open>The addresses that a write touches in the registered memory of each side.\<close>

lemma create_wrt_checks:
  assumes "create_wrt ch once_now (t, w) s = Inr (send_op, recv_op, ps, s')"
  obtains la ls lr ra rs rr where
    "uri_mem_get_info (mems s) ch (loc_mem w) = Inr (la, ls, lr)"
    "uri_mem_get_info (mems s) ch (rmt_mem w) = Inr (ra, rs, rr)"
    "lr = mpi_rank (uru_mpi s)" "loc_offset w + dma_size w \<le> ls" "rmt_offset w + dma_size w \<le> rs"
    "op_addr send_op = unat (la + loc_offset w)" "op_addr recv_op = unat (ra + rmt_offset w)"
    "op_size send_op = dma_size w" "op_size recv_op = dma_size w" "op_rank send_op = rr" "op_rank recv_op = rr"
    "op_tag send_op = op_tag recv_op"
  using assms by (auto simp: create_wrt_def Let_def mpi_issue_def op_alloc_def split: if_splits)

lemma add_le_no_wrap:
  fixes a b c :: u64
  assumes "a + b \<le> c" "unat a + unat b < 2 ^ 64"
  shows "unat a + unat b \<le> unat c"
  using assms unat_add_bounded [of a b] by (simp add: word_le_nat_alt)

text \<open>
  Both halves of an accepted write lie inside the registered memories, end included, provided
  that offset plus size does not pass \<open>2 ^ 64\<close> on either side and no registered memory wraps around
  the address space.
\<close>

theorem mpi_write_in_bounds:
  assumes "create_wrt ch once_now (t, w) s = Inr (send_op, recv_op, ps, s')"
    and "uri_mem_get_info (mems s) ch (loc_mem w) = Inr (la, ls, lr)"
    and "uri_mem_get_info (mems s) ch (rmt_mem w) = Inr (ra, rs, rr)"
    and "unat (loc_offset w) + unat (dma_size w) < 2 ^ 64" "unat (rmt_offset w) + unat (dma_size w) < 2 ^ 64"
    and "unat la + unat ls < 2 ^ 64" "unat ra + unat rs < 2 ^ 64"
  shows "{op_addr send_op..<op_addr send_op + unat (op_size send_op)} \<subseteq> {unat la..<unat la + unat ls} \<and>
    {op_addr recv_op..<op_addr recv_op + unat (op_size recv_op)} \<subseteq> {unat ra..<unat ra + unat rs} \<and>
    lr = mpi_rank (uru_mpi s) \<and> op_rank send_op = rr \<and> op_tag send_op = op_tag recv_op"
proof -
  from create_wrt_checks [OF assms(1)] have c: "lr = mpi_rank (uru_mpi s)" "loc_offset w + dma_size w \<le> ls"
    "rmt_offset w + dma_size w \<le> rs" "op_addr send_op = unat (la + loc_offset w)"
    "op_addr recv_op = unat (ra + rmt_offset w)" "op_size send_op = dma_size w" "op_size recv_op = dma_size w"
    "op_rank send_op = rr" "op_tag send_op = op_tag recv_op"
    using assms(2,3) by auto
  have l: "unat (loc_offset w) + unat (dma_size w) \<le> unat ls" by (rule add_le_no_wrap [OF c(2) assms(4)])
  have r: "unat (rmt_offset w) + unat (dma_size w) \<le> unat rs" by (rule add_le_no_wrap [OF c(3) assms(5)])
  have "unat (la + loc_offset w) = unat la + unat (loc_offset w)"
    using l assms(6) by (intro unat_add_bounded) simp
  moreover have "unat (ra + rmt_offset w) = unat ra + unat (rmt_offset w)"
    using r assms(7) by (intro unat_add_bounded) simp
  ultimately show ?thesis using l r c by auto
qed

text \<open>Two registered regions of 4096 bytes, one of each rank.\<close>

definition rdma_example_state :: uri_mpi_state where
  "rdma_example_state = queue_example_state\<lparr>mems :=
     [1000 \<mapsto> \<lparr>m_addr = 0x10000, m_size = 4096, m_rank = 1, m_idx = 0\<rparr>,
      2000 \<mapsto> \<lparr>m_addr = 0x50000, m_size = 4096, m_rank = 0, m_idx = 0\<rparr>]\<rparr>"

definition example_wrt :: uri_wrt where
  "example_wrt = \<lparr>loc_mem = 1024, loc_offset = 96, loc_flag_p = 0, loc_flag_add = - 1, dma_size = 4000,
     rmt_mem = 2024, rmt_offset = 8, rmt_flag_p = 0, rmt_flag_add = - 1\<rparr>"

lemma example_infos:
  "uri_mem_get_info (mems rdma_example_state) example_hdr 1024 = Inr (0x10000, 4096, 1)"
  "uri_mem_get_info (mems rdma_example_state) example_hdr 2024 = Inr (0x50000, 4096, 0)"
  by (simp_all add: uri_mem_get_info_def rdma_example_state_def example_hdr_def)

lemma example_create_wrt:
  assumes "loc_mem w = 1024" "rmt_mem w = 2024" "loc_offset w + dma_size w \<le> 4096" "rmt_offset w + dma_size w \<le> 4096"
  obtains send_op recv_op ps s' where
    "create_wrt example_hdr False (URU_TRANSFER_TYPE_DMA_PUT, w) rdma_example_state = Inr (send_op, recv_op, ps, s')"
proof -
  have e: "uru_mpi rdma_example_state = example_mpi" "mpi_tag rdma_example_state = [int_pool_init, int_pool_init]"
    "mpi_rank example_mpi = 1"
    by (simp_all add: rdma_example_state_def queue_example_state_def example_mpi_def)
  obtain x p where "uri_mpi_int_pool_get example_mpi int_pool_init = Inr (x, p)"
    by (simp add: uri_mpi_int_pool_get_def int_pool_init_def example_mpi_def id_limit_def signed_divide_int_def)
  then show thesis using that assms example_infos e
    by (simp add: create_wrt_def get_tag_def op_types_def mpi_issue_def op_flag_defs)
qed

theorem mpi_write_in_bounds_witness:
  "\<exists>send_op recv_op ps s'.
     create_wrt example_hdr False (URU_TRANSFER_TYPE_DMA_PUT, example_wrt) rdma_example_state = Inr (send_op, recv_op, ps, s') \<and>
     {op_addr send_op..<op_addr send_op + unat (op_size send_op)} \<subseteq> {0x10000..<0x11000}"
proof -
  obtain send_op recv_op ps s' where c:
    "create_wrt example_hdr False (URU_TRANSFER_TYPE_DMA_PUT, example_wrt) rdma_example_state = Inr (send_op, recv_op, ps, s')"
    by (rule example_create_wrt [of example_wrt]) (simp_all add: example_wrt_def)
  from mpi_write_in_bounds [OF c, where la = "0x10000" and ls = 4096 and lr = 1 and ra = "0x50000" and rs = 4096 and rr = 0]
  have "{op_addr send_op..<op_addr send_op + unat (op_size send_op)} \<subseteq> {0x10000..<0x11000}"
    using example_infos by (simp add: example_wrt_def)
  then show ?thesis using c by blast
qed

text \<open>
  The bounds check of the code adds offset and size in 64 bits: an offset just below \<open>2 ^ 64\<close>
  passes it, and the accepted write starts before the registered memory.
\<close>

theorem mpi_bounds_check_wraps:
  "\<exists>w send_op recv_op ps s'.
     create_wrt example_hdr False (URU_TRANSFER_TYPE_DMA_PUT, w) rdma_example_state = Inr (send_op, recv_op, ps, s') \<and>
     uri_mem_get_info (mems rdma_example_state) example_hdr (loc_mem w) = Inr (0x10000, 4096, 1) \<and>
     op_addr send_op < 0x10000"
proof -
  let ?w = "example_wrt\<lparr>loc_offset := - 16, dma_size := 32\<rparr>"
  obtain send_op recv_op ps s' where c:
    "create_wrt example_hdr False (URU_TRANSFER_TYPE_DMA_PUT, ?w) rdma_example_state = Inr (send_op, recv_op, ps, s')"
    by (rule example_create_wrt [of ?w]) (simp_all add: example_wrt_def)
  have "op_addr send_op = unat (0x10000 + - 16 :: u64)"
    using create_wrt_checks [OF c] example_infos by (auto simp: example_wrt_def)
  then show ?thesis using c example_infos(1)
    by (intro exI [of _ ?w] exI [of _ send_op] exI [of _ recv_op] exI [of _ ps] exI [of _ s']) (simp add: example_wrt_def)
qed

end
