(* ===== verification/Uri_Mpi_Link.thy ===== *)
theory Uri_Mpi_Link
  imports Uri_Mpi_Rdma
begin

text \<open>
  The plan functions of the MPI channel as senders of the control protocol: every message that
  creating, starting or destroying a plan puts out is one that \<open>Uri_Mpi_Proto\<close> allows a sender, so
  the receivers of real plans never fail.
\<close>

section \<open>The messages in the log\<close>

fun ctrl_sent :: "mpi_call list \<Rightarrow> (int \<times> uri_mpi_ctrl_msg_t) list" where
  "ctrl_sent [] = []"
| "ctrl_sent (MPI_Isend_ctrl d m # cs) = (d, m) # ctrl_sent cs"
| "ctrl_sent (c # cs) = ctrl_sent cs"

lemma ctrl_sent_append [simp]: "ctrl_sent (xs @ ys) = ctrl_sent xs @ ctrl_sent ys"
  by (induction xs rule: ctrl_sent.induct) auto

text \<open>A list of messages to several receivers, each legal for the pool of its receiver.\<close>

inductive sent ::
  "uru_mpi_t \<Rightarrow> (int \<Rightarrow> uri_mpi_int_pool \<times> int set) \<Rightarrow> (int \<times> uri_mpi_ctrl_msg_t) list \<Rightarrow>
   (int \<Rightarrow> uri_mpi_int_pool \<times> int set) \<Rightarrow> bool" for u where
  sent_Nil: "sent u Q [] Q"
| sent_Cons: "sends u (Q d) m y \<Longrightarrow> sent u (Q(d := y)) ms Q' \<Longrightarrow> sent u Q ((d, m) # ms) Q'"

lemma sent_append: "sent u Q xs Q' \<Longrightarrow> sent u Q' ys Q'' \<Longrightarrow> sent u Q (xs @ ys) Q''"
  by (induction rule: sent.induct) (auto intro: sent_Cons)

lemma sent_single: "sends u (Q d) m y \<Longrightarrow> sent u Q [(d, m)] (Q(d := y))"
  by (rule sent_Cons [OF _ sent_Nil])

text \<open>The pools of the state, with the batch numbers in use for each receiver.\<close>

definition pools_agree :: "('z) uri_mpi_state_scheme \<Rightarrow> (int \<Rightarrow> uri_mpi_int_pool \<times> int set) \<Rightarrow> bool" where
  "pools_agree s Q \<longleftrightarrow> (\<forall>d. 0 \<le> d \<longrightarrow> nat d < length (batch_id s) \<longrightarrow> fst (Q d) = batch_id s ! nat d)"

definition legal ::
  "('z) uri_mpi_state_scheme \<Rightarrow> (int \<Rightarrow> uri_mpi_int_pool \<times> int set) \<Rightarrow> 'z uri_mpi_state_scheme \<Rightarrow>
   (int \<Rightarrow> uri_mpi_int_pool \<times> int set) \<Rightarrow> bool" where
  "legal s Q t Q' \<longleftrightarrow> uru_mpi t = uru_mpi s \<and> pools_agree t Q' \<and>
     (\<exists>l. mpi_log t = mpi_log s @ l \<and> sent (uru_mpi s) Q (ctrl_sent l) Q')"

lemma legal_trans: "legal s Q t Q' \<Longrightarrow> legal t Q' v Q'' \<Longrightarrow> legal s Q v Q''"
  unfolding legal_def by (fastforce intro: sent_append)

text \<open>Steps without a control message.\<close>

lemma legal_quiet:
  assumes "pools_agree s Q" "uru_mpi t = uru_mpi s" "batch_id t = batch_id s"
    and "mpi_log t = mpi_log s @ l" "ctrl_sent l = []"
  shows "legal s Q t Q"
  using assms by (auto simp: legal_def pools_agree_def intro: sent_Nil)

lemma legal_refl: "pools_agree s Q \<Longrightarrow> legal s Q s Q"
  by (rule legal_quiet [where l = "[]"]) simp_all

lemma legal_agree: "legal s Q t Q' \<Longrightarrow> pools_agree t Q'"
  by (simp add: legal_def)

section \<open>Frames\<close>

lemma send_ctrl_eq:
  "send_ctrl d m s = ((brk s + 1, 0), s\<lparr>ctrl_heap := (ctrl_heap s)(brk s \<mapsto> m),
     mpi_log := mpi_log s @ [MPI_Isend_ctrl d m],
     op_heap := (op_heap s)(brk s + 1 \<mapsto> [zero_op\<lparr>op_addr := brk s, op_size := ctrl_msg_size (map_option length (cm_ops m)),
       op_rank := d, op_flag := FREE_OP OR FREE_ADDR, op_req := length (mpi_log s)\<rparr>]),
     brk := brk s + 2\<rparr>)"
  by (simp add: send_ctrl_def Let_def mpi_issue_def op_alloc_def)

lemma req_put_frame: "req_put p s = Inr t \<Longrightarrow> \<exists>q n. t = s\<lparr>req_q := q, arr_tail := n\<rparr>"
  by (auto simp: req_put_def split: if_splits)

lemma que_app_frame:
  assumes "uri_mpi_req_que_app ps s = Inr t"
  obtains q n where "t = s\<lparr>req_q := q, arr_tail := n\<rparr>"
proof -
  have puts: "\<exists>q n. t = s\<lparr>req_q := q, arr_tail := n\<rparr>" if "fold_res req_put ps s' = Inr t" "s' = s\<lparr>req_q := q'\<rparr>" for s' q'
  proof -
    have "\<exists>q n. s' = s\<lparr>req_q := q, arr_tail := n\<rparr>" using that(2) by (intro exI [of _ q'] exI [of _ "arr_tail s"]) simp
    with that(1) show ?thesis
    proof (rule fold_res_invariant)
      fix p v v'
      assume "\<exists>q n. v = s\<lparr>req_q := q, arr_tail := n\<rparr>" "req_put p v = Inr v'"
      then obtain q n q' n' where "v = s\<lparr>req_q := q, arr_tail := n\<rparr>" "v' = v\<lparr>req_q := q', arr_tail := n'\<rparr>"
        using req_put_frame [of p v v'] by blast
      then have "v' = s\<lparr>req_q := q', arr_tail := n'\<rparr>" by simp
      then show "\<exists>q n. v' = s\<lparr>req_q := q, arr_tail := n\<rparr>" by blast
    qed
  qed
  let ?q = "if length (req_q s) < arr_tail s + length ps
    then req_q s @ replicate ((arr_tail s + length ps) * 2 - length (req_q s)) (0, (0, 0)) else req_q s"
  have "fold_res req_put ps (s\<lparr>req_q := ?q\<rparr>) = Inr t"
    using assms by (simp add: uri_mpi_req_que_app_def Let_def split: if_splits)
  from puts [OF this refl] show thesis using that by blast
qed

lemma op_free_frame: "op_free p s = Inr t \<Longrightarrow> t = s\<lparr>op_heap := (op_heap s)(p := None)\<rparr>"
  by (auto simp: op_free_def op_block_def split: option.splits)

section \<open>Announcing\<close>

lemma keep_ops_rank: "keep_ops (map (\<lambda>op. op\<lparr>op_rank := r\<rparr>) ops) = keep_ops ops"
  by (simp add: keep_ops_def list_all_iff typed_op_def)

lemma announce_legal:
  assumes "announce False run s = Inr (b, p, t)" "keep_ops run" "pools_agree s Q"
  shows "\<exists>pool. legal s Q t (Q(op_rank (hd run) := (pool, insert (b_batch_id b) (snd (Q (op_rank (hd run))))))) \<and>
    b_ops b = brk s \<and> brk t = brk s + 3 \<and> op_heap t (brk s) = Some run \<and> (\<forall>a < brk s. op_heap t a = op_heap s a)"
proof -
  let ?d = "op_rank (hd run)"
  let ?s1 = "s\<lparr>op_heap := (op_heap s)(brk s \<mapsto> run), brk := brk s + 1\<rparr>"
  obtain bid s2 where g: "get_batch_id ?d ?s1 = Inr (bid, s2)"
    and b: "b = \<lparr>b_batch_id = bid, b_ops = brk s\<rparr>"
    and t: "t = snd (send_ctrl ?d \<lparr>cm_type = create_op_batch, cm_batch_id = bid,
        cm_ops = Some (map (\<lambda>op. op\<lparr>op_rank := mpi_rank (uru_mpi s2)\<rparr>) run)\<rparr> s2)"
    using assms(1) by (auto simp: announce_def Let_def op_alloc_def split: prod.splits)
  then obtain pool where pool: "0 \<le> ?d" "nat ?d < length (batch_id s)"
    "uri_mpi_int_pool_get (uru_mpi s) (batch_id s ! nat ?d) = Inr (bid, pool)"
    "s2 = ?s1\<lparr>batch_id := (batch_id s)[nat ?d := pool]\<rparr>"
    by (auto simp: get_batch_id_def split: if_splits)
  let ?m = "\<lparr>cm_type = create_op_batch, cm_batch_id = bid, cm_ops = Some (map (\<lambda>op. op\<lparr>op_rank := mpi_rank (uru_mpi s2)\<rparr>) run)\<rparr>"
  let ?y = "(pool, insert bid (snd (Q ?d)))"
  have "fst (Q ?d) = batch_id s ! nat ?d" using assms(3) pool(1,2) by (simp add: pools_agree_def)
  then have "sends (uru_mpi s) (fst (Q ?d), snd (Q ?d)) ?m ?y"
    using pool(3) assms(2) by (intro send_create) (simp_all add: keep_ops_rank)
  then have sd: "sends (uru_mpi s) (Q ?d) ?m ?y" by simp
  have "pools_agree t (Q(?d := ?y))"
    using assms(3) pool(1,2) by (auto simp: pools_agree_def t pool(4) send_ctrl_eq nth_list_update eq_nat_nat_iff)
  then have "legal s Q t (Q(?d := ?y))"
  proof -
    have "sent (uru_mpi s) Q [(?d, ?m)] (Q(?d := ?y))" using sd by (rule sent_single)
    with \<open>pools_agree t (Q(?d := ?y))\<close> show ?thesis by (simp add: legal_def t pool(4) send_ctrl_eq)
  qed
  then show ?thesis using b by (auto simp: t pool(4) send_ctrl_eq)
qed

text \<open>
  The batches of a plan: each lies in memory, below the end of the heap, its receiver's operations
  all have the receiver's rank, and its number is in use for that receiver.
\<close>

definition batch_live :: "('z) uri_mpi_state_scheme \<Rightarrow> (int \<Rightarrow> uri_mpi_int_pool \<times> int set) \<Rightarrow> uri_mpi_op_batch_t \<Rightarrow> int \<Rightarrow> bool" where
  "batch_live s Q b d \<longleftrightarrow> b_ops b < brk s \<and> batch_rank b s = Inr d \<and> b_batch_id b \<in> snd (Q d)"

definition plan_live :: "('z) uri_mpi_state_scheme \<Rightarrow> (int \<Rightarrow> uri_mpi_int_pool \<times> int set) \<Rightarrow> uri_mpi_op_batch_t list \<Rightarrow> int list \<Rightarrow> bool" where
  "plan_live s Q bs ds \<longleftrightarrow> list_all2 (batch_live s Q) bs ds \<and> distinct ds"

lemma batch_rank_cong:
  "op_heap t (b_ops b) = op_heap s (b_ops b) \<Longrightarrow> batch_rank b t = batch_rank b s"
  by (simp add: batch_rank_def op_load_def op_block_def)

lemma batch_live_mono:
  assumes "batch_live s Q b d" "\<And>a. a < brk s \<Longrightarrow> op_heap t a = op_heap s a" "brk s \<le> brk t"
    and "snd (Q' d) = snd (Q d)"
  shows "batch_live t Q' b d"
  using assms batch_rank_cong [of t b s] by (simp add: batch_live_def)

lemma announce_all_legal:
  assumes "announce_all False runs s = Inr (bs, ps, t)" "\<forall>run \<in> set runs. keep_ops run \<and> run \<noteq> []"
    and "distinct (map (\<lambda>run. op_rank (hd run)) runs)" "pools_agree s Q"
  shows "\<exists>Q'. legal s Q t Q' \<and> plan_live t Q' bs (map (\<lambda>run. op_rank (hd run)) runs) \<and> brk s \<le> brk t \<and>
    (\<forall>a < brk s. op_heap t a = op_heap s a) \<and> (\<forall>d. d \<notin> (\<lambda>run. op_rank (hd run)) ` set runs \<longrightarrow> Q' d = Q d)"
  using assms
proof (induction runs arbitrary: s Q bs ps)
  case Nil
  then show ?case by (auto simp: plan_live_def intro: legal_refl)
next
  case (Cons run runs)
  let ?rk = "\<lambda>run. op_rank (hd run)" and ?d = "op_rank (hd run)"
  obtain b p v bs' ps' where v: "announce False run s = Inr (b, p, v)" "announce_all False runs v = Inr (bs', ps', t)"
    "bs = b # bs'" using Cons.prems(1) by auto
  have run: "keep_ops run" "run \<noteq> []" using Cons.prems(2) by auto
  obtain pool where a: "legal s Q v (Q(?d := (pool, insert (b_batch_id b) (snd (Q ?d)))))" "b_ops b = brk s"
    "brk v = brk s + 3" "op_heap v (brk s) = Some run" "\<forall>a < brk s. op_heap v a = op_heap s a"
    using announce_legal [OF v(1) run(1) Cons.prems(4)] by blast
  let ?Q = "Q(?d := (pool, insert (b_batch_id b) (snd (Q ?d))))"
  obtain Q' where Q': "legal v ?Q t Q'" "plan_live t Q' bs' (map ?rk runs)" "brk v \<le> brk t"
    "\<forall>a < brk v. op_heap t a = op_heap v a" "\<forall>d. d \<notin> ?rk ` set runs \<longrightarrow> Q' d = ?Q d"
  proof -
    have "\<forall>run \<in> set runs. keep_ops run \<and> run \<noteq> []" "distinct (map ?rk runs)" using Cons.prems(2,3) by simp_all
    from Cons.IH [OF v(2) this legal_agree [OF a(1)]] show ?thesis using that by blast
  qed
  have dn: "?d \<notin> ?rk ` set runs" using Cons.prems(3) by simp
  have "batch_live v ?Q b ?d"
    using a(2-4) run(2) by (simp add: batch_live_def batch_rank_def op_load_def op_block_def hd_conv_nth)
  then have "batch_live t Q' b ?d"
    by (rule batch_live_mono) (use Q'(3-5) dn in auto)
  then have "plan_live t Q' bs (map ?rk (run # runs))" using Q'(2) v(3) dn by (simp add: plan_live_def)
  moreover have "\<forall>d. d \<notin> ?rk ` set (run # runs) \<longrightarrow> Q' d = Q d" using Q'(5) by simp
  ultimately show ?case using legal_trans [OF a(1) Q'(1)] Q'(3,4) a(3,5) by (intro exI [of _ Q']) auto
qed

section \<open>The writes\<close>

lemma keep_flags: "(KEEP_OP OR KEEP_REQ) AND FREE_OP = 0" "(KEEP_OP OR KEEP_REQ) AND FREE_TAG = 0"
  by (simp_all add: op_flag_defs)

lemma op_types_typed: "op_types t = Inr (a, b) \<Longrightarrow> (a = OP_SEND \<and> b = OP_RECV) \<or> (a = OP_RECV \<and> b = OP_SEND)"
  by (auto simp: op_types_def split: uru_transfer_t.splits)

lemma create_wrt_Inr:
  assumes "create_wrt ch False (ty, w) s = Inr (send_op, recv_op, ps, t)"
  shows "\<exists>a b tag s1. op_types ty = Inr (a, b) \<and> get_tag (op_rank recv_op) s = Inr (tag, s1) \<and>
    op_type recv_op = b \<and> op_flag recv_op = KEEP_OP OR KEEP_REQ \<and> op_tag send_op = tag \<and> op_rank send_op = op_rank recv_op \<and> 
    t = s1\<lparr>mpi_log := mpi_log s1 @ [(if ty = URU_TRANSFER_TYPE_DMA_PUT then MPI_Send_init else MPI_Recv_init)
      (op_addr send_op) (mpi_count (dma_size w)) (op_rank recv_op) tag]\<rparr>"
  using assms by (auto simp: create_wrt_def Let_def mpi_issue_def split: if_splits)

lemma create_wrt_legal:
  assumes "create_wrt ch False tw s = Inr (send_op, recv_op, ps, t)" "pools_agree s Q"
  shows "legal s Q t Q \<and> typed_op recv_op \<and> (op_flag recv_op AND FREE_OP) = 0"
proof -
  obtain ty w where tw: "tw = (ty, w)" by (cases tw)
  let ?c = "\<lambda>tag. (if ty = URU_TRANSFER_TYPE_DMA_PUT then MPI_Send_init else MPI_Recv_init)
    (op_addr send_op) (mpi_count (dma_size w)) (op_rank recv_op) tag"
  obtain a b tag s1 where ty: "op_types ty = Inr (a, b)" and tag: "get_tag (op_rank recv_op) s = Inr (tag, s1)"
    and r: "op_type recv_op = b" "op_flag recv_op = KEEP_OP OR KEEP_REQ"
    and t: "t = s1\<lparr>mpi_log := mpi_log s1 @ [?c tag]\<rparr>"
    using create_wrt_Inr [OF assms(1) [unfolded tw]] by blast
  obtain ts where "s1 = s\<lparr>mpi_tag := ts\<rparr>" using tag by (auto simp: get_tag_def split: if_splits)
  then have "legal s Q t Q" by (intro legal_quiet [OF assms(2), where l = "[?c tag]"]) (auto simp: t)
  moreover have "typed_op recv_op" using op_types_typed [OF ty] r(1) by (auto simp: typed_op_def op_flag_defs)
  ultimately show ?thesis using r(2) by (simp add: keep_flags)
qed

lemma create_wrts_legal:
  assumes "create_wrts ch False ws s = Inr (send_ops, recv_ops, ps, t)" "pools_agree s Q"
  shows "legal s Q t Q \<and> keep_ops recv_ops"
  using assms
proof (induction ws arbitrary: s send_ops recv_ops ps)
  case Nil
  then show ?case by (simp add: legal_refl keep_ops_def)
next
  case (Cons w ws)
  obtain so ro ps1 v sos ros ps2 where v: "create_wrt ch False w s = Inr (so, ro, ps1, v)"
    "create_wrts ch False ws v = Inr (sos, ros, ps2, t)" "recv_ops = ro # ros"
    using Cons.prems(1) by auto
  note a = create_wrt_legal [OF v(1) Cons.prems(2)]
  then have "legal v Q t Q \<and> keep_ops ros" using Cons.IH [OF v(2)] legal_agree by blast
  then show ?case using a v(3) legal_trans by (auto simp: keep_ops_def)
qed

section \<open>Starting and withdrawing batches\<close>

lemma send_ctrl_heap:
  "send_ctrl d m s = (p, t) \<Longrightarrow> (\<forall>a < brk s. op_heap t a = op_heap s a) \<and> brk s \<le> brk t"
  by (auto simp: send_ctrl_eq)

lemma send_ctrl_legal:
  assumes "send_ctrl d m s = (p, t)" "pools_agree s Q" "sends (uru_mpi s) (Q d) m (Q d)"
  shows "legal s Q t Q"
proof -
  have "sent (uru_mpi s) Q [(d, m)] (Q(d := Q d))" using assms(3) by (rule sent_single)
  then show ?thesis using assms(1,2) by (auto simp: legal_def send_ctrl_eq pools_agree_def)
qed

lemma start_all_legal:
  assumes "start_all bs s = Inr (ps, t)" "list_all2 (batch_live s Q) bs ds" "pools_agree s Q"
  shows "legal s Q t Q \<and> brk s \<le> brk t \<and> (\<forall>a < brk s. op_heap t a = op_heap s a)"
  using assms
proof (induction bs arbitrary: s ps ds)
  case Nil
  then show ?case by (simp add: legal_refl)
next
  case (Cons b bs)
  obtain d ds' where ds: "ds = d # ds'" "batch_live s Q b d" "list_all2 (batch_live s Q) bs ds'"
    using Cons.prems(2) by (cases ds) auto
  have rk: "batch_rank b s = Inr d" "b_batch_id b \<in> snd (Q d)" using ds(2) by (simp_all add: batch_live_def)
  let ?m = "\<lparr>cm_type = start_op_batch, cm_batch_id = b_batch_id b, cm_ops = None\<rparr>"
  obtain p v where v: "send_ctrl d ?m s = (p, v)" by (cases "send_ctrl d ?m s")
  obtain ps' where t: "start_all bs v = Inr (ps', t)" using Cons.prems(1) rk(1) v by auto
  have "sends (uru_mpi s) (fst (Q d), snd (Q d)) ?m (fst (Q d), snd (Q d))" using rk(2) by (rule send_start)
  then have lv: "legal s Q v Q" using send_ctrl_legal [OF v Cons.prems(3)] by simp
  note hp = send_ctrl_heap [OF v]
  have "list_all2 (batch_live v Q) bs ds'"
    using ds(3) by (rule list_all2_mono) (use hp in \<open>auto intro: batch_live_mono\<close>)
  from Cons.IH [OF t this legal_agree [OF lv]] show ?case using legal_trans [OF lv] hp by auto
qed

lemma destroy_all_legal:
  assumes "destroy_all bs s = Inr (ps, t)" "plan_live s Q bs ds" "pools_agree s Q"
  shows "\<exists>Q'. legal s Q t Q' \<and> (\<forall>d. d \<notin> set ds \<longrightarrow> Q' d = Q d)"
  using assms
proof (induction bs arbitrary: s Q ps ds)
  case Nil
  then show ?case by (auto intro: legal_refl)
next
  case (Cons b bs)
  obtain d ds' where ds: "ds = d # ds'" "batch_live s Q b d" "list_all2 (batch_live s Q) bs ds'" "d \<notin> set ds'" "distinct ds'"
    using Cons.prems(2) by (cases ds) (auto simp: plan_live_def)
  have rk: "batch_rank b s = Inr d" "b_batch_id b \<in> snd (Q d)" using ds(2) by (simp_all add: batch_live_def)
  let ?m = "\<lparr>cm_type = destroy_op_batch, cm_batch_id = b_batch_id b, cm_ops = None\<rparr>"
  obtain p v where v: "send_ctrl d ?m s = (p, v)" by (cases "send_ctrl d ?m s")
  obtain w ps' where w: "return_batch_id d (b_batch_id b) v = Inr w" "destroy_all bs w = Inr (ps', t)"
    using Cons.prems(1) rk(1) v by auto
  then obtain pool where pool: "0 \<le> d" "nat d < length (batch_id v)"
    "uri_mpi_int_pool_return (uru_mpi v) (batch_id v ! nat d) (b_batch_id b) = Inr pool"
    "w = v\<lparr>batch_id := (batch_id v)[nat d := pool]\<rparr>"
    by (auto simp: return_batch_id_def split: if_splits)
  have vs: "uru_mpi v = uru_mpi s" "batch_id v = batch_id s" "mpi_log v = mpi_log s @ [MPI_Isend_ctrl d ?m]"
    using v by (auto simp: send_ctrl_eq)
  let ?y = "(pool, snd (Q d) - {b_batch_id b})"
  have "fst (Q d) = batch_id s ! nat d" using Cons.prems(3) pool(1,2) vs by (simp add: pools_agree_def)
  then have "sends (uru_mpi s) (fst (Q d), snd (Q d)) ?m ?y"
    using pool(3) rk(2) vs by (intro send_destroy) simp_all
  then have "sends (uru_mpi s) (Q d) ?m ?y" by simp
  then have "sent (uru_mpi s) Q [(d, ?m)] (Q(d := ?y))" by (rule sent_single)
  moreover have "pools_agree w (Q(d := ?y))"
    using Cons.prems(3) pool(1,2) vs by (auto simp: pools_agree_def pool(4) nth_list_update eq_nat_nat_iff)
  ultimately have lw: "legal s Q w (Q(d := ?y))" using vs by (auto simp: legal_def pool(4))
  note hp = send_ctrl_heap [OF v]
  have "list_all2 (batch_live w (Q(d := ?y))) bs ds'"
  proof (rule list_all2_all_nthI)
    show "length bs = length ds'" using ds(3) by (rule list_all2_lengthD)
    fix i
    assume i: "i < length bs"
    then have "batch_live s Q (bs ! i) (ds' ! i)" using ds(3) by (simp add: list_all2_conv_all_nth)
    moreover have "ds' ! i \<noteq> d" using ds(4) i list_all2_lengthD [OF ds(3)] by auto
    ultimately show "batch_live w (Q(d := ?y)) (bs ! i) (ds' ! i)"
      using hp by (auto intro!: batch_live_mono [of s Q] simp: pool(4))
  qed
  then have "plan_live w (Q(d := ?y)) bs ds'" using ds(5) by (simp add: plan_live_def)
  from Cons.IH [OF w(2) this legal_agree [OF lw]] obtain Q' where
    Q': "legal w (Q(d := ?y)) t Q'" "\<forall>e. e \<notin> set ds' \<longrightarrow> Q' e = (Q(d := ?y)) e" by blast
  have "\<forall>e. e \<notin> set ds \<longrightarrow> Q' e = Q e" using Q'(2) ds(1) by simp
  then show ?case using legal_trans [OF lw Q'(1)] by blast
qed

lemma drop_send_ops_legal:
  assumes "fold_res drop_send_op ops s = Inr t" "pools_agree s Q"
  shows "legal s Q t Q \<and> op_heap t = op_heap s \<and> brk t = brk s"
  using assms(1)
proof (rule fold_res_invariant)
  show "legal s Q s Q \<and> op_heap s = op_heap s \<and> brk s = brk s" using legal_refl [OF assms(2)] by simp
  fix op v w
  assume v: "legal s Q v Q \<and> op_heap v = op_heap s \<and> brk v = brk s" and w: "drop_send_op op v = Inr w"
  then obtain ts where w': "w = v\<lparr>mpi_tag := ts, mpi_log := mpi_log v @ [MPI_Request_free (op_req op)]\<rparr>"
    by (auto simp: drop_send_op_def return_tag_def mpi_issue_def split: if_splits)
  have "legal v Q w Q" by (rule legal_quiet [OF legal_agree [of s Q], where l = "[MPI_Request_free (op_req op)]"]) (use v w' in auto)
  then show "legal s Q w Q \<and> op_heap w = op_heap s \<and> brk w = brk s" using v w' legal_trans by auto
qed

lemma legal_frame:
  assumes "legal s Q t Q'" "uru_mpi t' = uru_mpi t" "batch_id t' = batch_id t" "mpi_log t' = mpi_log t"
  shows "legal s Q t' Q'"
  using assms by (simp add: legal_def pools_agree_def)

lemma ctrl_sent_noctrl: "(\<And>op. ctrl_sent [c op] = []) \<Longrightarrow> ctrl_sent (map c ops) = []"
proof (induction ops)
  case (Cons op ops)
  have "ctrl_sent (map c (op # ops)) = ctrl_sent [c op] @ ctrl_sent (map c ops)"
    using ctrl_sent_append [of "[c op]" "map c ops"] by simp
  then show ?case using Cons by simp
qed simp

section \<open>Plans\<close>

lemma create_legal:
  assumes "uri_mpi_rdma_plan_create qsort ch False wrts s = Inr (plan_p, t)" "qsort_spec qsort" "pools_agree s Q"
  shows "\<exists>Q' pl ds. legal s Q t Q' \<and> mpi_plans t plan_p = Some pl \<and> plan_live t Q' (pl_recv_batch pl) ds"
proof -
  obtain sos ros ps v runs bs ps' w x where
    v: "create_wrts ch False wrts s = Inr (sos, ros, ps, v)" and
    runs: "recv_runs (num_receiver (qsort ros)) (qsort ros) = Inr runs" and
    w: "announce_all False runs v = Inr (bs, ps', w)" and
    x: "uri_mpi_req_que_app (ps @ ps') w = Inr x" and
    t: "plan_p = brk x + 1" "t = x\<lparr>op_heap := (op_heap x)(brk x \<mapsto> sos), brk := brk x + 2,
      mpi_plans := (mpi_plans x)(plan_p \<mapsto> \<lparr>pl_send_batch = \<lparr>b_batch_id = - 1, b_ops = brk x\<rparr>, pl_recv_batch = bs\<rparr>)\<rparr>"
    using assms(1) by (auto simp: uri_mpi_rdma_plan_create_def Let_def op_alloc_def)
  note cw = create_wrts_legal [OF v assms(3)]
  have sorted: "rank_sorted (qsort ros)" by (rule qsort_rank_sorted [OF assms(2)])
  note rd = recv_runs_distinct [OF sorted runs]
  have "set (qsort ros) = set ros" using assms(2) by (metis mset_eq_setD qsort_spec_def)
  then have "\<forall>run \<in> set runs. keep_ops run \<and> run \<noteq> []"
    using rd cw unfolding keep_ops_def list_all_iff by blast
  from announce_all_legal [OF w this _ legal_agree [of s Q v Q]] obtain Q' where
    Q': "legal v Q w Q'" "plan_live w Q' bs (map (\<lambda>run. op_rank (hd run)) runs)"
    using rd cw by blast
  obtain q n where xq: "x = w\<lparr>req_q := q, arr_tail := n\<rparr>" using x by (rule que_app_frame)
  have "legal s Q w Q'" using cw Q'(1) legal_trans by blast
  then have lt: "legal s Q t Q'" by (rule legal_frame) (simp_all add: t(2) xq)
  have "plan_live t Q' bs (map (\<lambda>run. op_rank (hd run)) runs)"
    using Q'(2) unfolding plan_live_def
    by (auto elim!: list_all2_mono intro: batch_live_mono simp: t(2) xq)
  then show ?thesis using lt t by auto
qed

lemma start_legal:
  assumes "uri_mpi_rdma_plan_start ch plan_p s = Inr (st, t)" "mpi_plans s plan_p = Some pl"
    and "plan_live s Q (pl_recv_batch pl) ds" "pools_agree s Q"
  shows "legal s Q t Q"
proof -
  obtain ps v sos where v: "start_all (pl_recv_batch pl) s = Inr (ps, v)" and
    x: "uri_mpi_req_que_app (ps @ block_ptrs (b_ops (pl_send_batch pl)) sos)
      (issue_all (\<lambda>op. MPI_Start (op_req op)) sos v) = Inr t"
    using assms(1,2) by (auto simp: uri_mpi_rdma_plan_start_def load_plan_def)
  have lv: "legal s Q v Q" using start_all_legal [OF v _ assms(4)] assms(3) by (auto simp: plan_live_def)
  obtain q n where "t = issue_all (\<lambda>op. MPI_Start (op_req op)) sos v\<lparr>req_q := q, arr_tail := n\<rparr>"
    using x by (rule que_app_frame)
  then have "legal v Q t Q"
    by (intro legal_quiet [OF legal_agree [OF lv], where l = "map (\<lambda>op. MPI_Start (op_req op)) sos"])
      (auto simp: issue_all_def ctrl_sent_noctrl)
  then show ?thesis using legal_trans [OF lv] by blast
qed

lemma destroy_legal:
  assumes "uri_mpi_rdma_plan_destroy ch plan_p s = Inr (st, t)" "mpi_plans s plan_p = Some pl"
    and "plan_live s Q (pl_recv_batch pl) ds" "pools_agree s Q"
  shows "\<exists>Q'. legal s Q t Q' \<and> (\<forall>d. d \<notin> set ds \<longrightarrow> Q' d = Q d)"
proof -
  obtain sos v ps w x y where v: "fold_res drop_send_op sos s = Inr v"
    and w: "destroy_all (pl_recv_batch pl) v = Inr (ps, w)" and x: "uri_mpi_req_que_app ps w = Inr x"
    and y: "fold_res (\<lambda>b. op_free (b_ops b)) (pl_recv_batch pl) (x\<lparr>op_heap := (op_heap x)(b_ops (pl_send_batch pl) := None)\<rparr>) = Inr y"
    and t: "t = y\<lparr>mpi_plans := (mpi_plans y)(plan_p := None)\<rparr>"
    using assms(1,2) op_free_frame by (fastforce simp: uri_mpi_rdma_plan_destroy_def load_plan_def)
  note d = drop_send_ops_legal [OF v assms(4)]
  have "plan_live v Q (pl_recv_batch pl) ds"
    using assms(3) d unfolding plan_live_def by (auto elim!: list_all2_mono intro: batch_live_mono)
  from destroy_all_legal [OF w this legal_agree [of s Q v Q]] obtain Q' where
    Q': "legal v Q w Q'" "\<forall>d. d \<notin> set ds \<longrightarrow> Q' d = Q d" using d by blast
  obtain q n where xq: "x = w\<lparr>req_q := q, arr_tail := n\<rparr>" using x by (rule que_app_frame)
  have "\<exists>h. y = x\<lparr>op_heap := h\<rparr>" using y
  proof (rule fold_res_invariant)
    show "\<exists>h. x\<lparr>op_heap := (op_heap x)(b_ops (pl_send_batch pl) := None)\<rparr> = x\<lparr>op_heap := h\<rparr>" by blast
    fix b z z'
    assume "\<exists>h. z = x\<lparr>op_heap := h\<rparr>" "op_free (b_ops b) z = Inr z'"
    then obtain h where "z' = x\<lparr>op_heap := h\<rparr>\<lparr>op_heap := h(b_ops b := None)\<rparr>" using op_free_frame by fastforce
    then show "\<exists>h. z' = x\<lparr>op_heap := h\<rparr>" by (intro exI [of _ "h(b_ops b := None)"]) simp
  qed
  then obtain h where yh: "y = x\<lparr>op_heap := h\<rparr>" by blast
  have "legal s Q w Q'" using d Q'(1) legal_trans by blast
  then have "legal s Q t Q'" by (rule legal_frame) (simp_all add: t yh xq)
  then show ?thesis using Q'(2) by blast
qed

section \<open>Properties\<close>

text \<open>
  C17. Creating a plan sends its receivers only messages that the control protocol allows: each
  announces a batch under a number that was free for that receiver, with operations the receiver
  accepts, and the plan that results holds exactly live batches, at most one per receiver.
\<close>

theorem mpi_plan_create_legal:
  assumes "uri_mpi_rdma_plan_create qsort ch False wrts s = Inr (plan_p, t)" "qsort_spec qsort" "pools_agree s Q"
  shows "\<exists>Q' l pl ds. mpi_log t = mpi_log s @ l \<and> sent (uru_mpi s) Q (ctrl_sent l) Q' \<and> pools_agree t Q' \<and>
    mpi_plans t plan_p = Some pl \<and> plan_live t Q' (pl_recv_batch pl) ds"
  using create_legal [OF assms] by (fastforce simp: legal_def)

text \<open>
  C18. Starting a live plan any time sends only start messages that the protocol allows and changes
  no pool; destroying it sends only destroy messages that the protocol allows, and the numbers in
  use for receivers that the plan does not address stay as they are.
\<close>

theorem mpi_plan_start_destroy_legal:
  assumes "mpi_plans s plan_p = Some pl" "plan_live s Q (pl_recv_batch pl) ds" "pools_agree s Q"
  shows "(uri_mpi_rdma_plan_start ch plan_p s = Inr (st, t) \<longrightarrow>
      (\<exists>l. mpi_log t = mpi_log s @ l \<and> sent (uru_mpi s) Q (ctrl_sent l) Q \<and> pools_agree t Q)) \<and>
    (uri_mpi_rdma_plan_destroy ch plan_p s = Inr (st, u) \<longrightarrow>
      (\<exists>Q' l. mpi_log u = mpi_log s @ l \<and> sent (uru_mpi s) Q (ctrl_sent l) Q' \<and> pools_agree u Q' \<and>
        (\<forall>d. d \<notin> set ds \<longrightarrow> Q' d = Q d)))"
  using start_legal [OF _ assms, of ch st t] destroy_legal [OF _ assms, of ch st u] by (auto simp: legal_def)

text \<open>One write of 4000 bytes to rank 0, planned, started and destroyed by rank 1.\<close>

lemma example_pool_get: "\<exists>p. uri_mpi_int_pool_get example_mpi int_pool_init = Inr (3, p) \<and>
    p = \<lparr>ip_max = 2, ip_stack = [], ip_top = 0\<rparr>"
  by (simp add: uri_mpi_int_pool_get_def int_pool_init_def example_mpi_def id_limit_def signed_divide_int_def)

lemma example_plan:
  "\<exists>plan_p t t1 t2. uri_mpi_rdma_plan_create (sort_key op_rank) example_hdr False
      [(URU_TRANSFER_TYPE_DMA_PUT, example_wrt)] rdma_example_state = Inr (plan_p, t) \<and>
    uri_mpi_rdma_plan_start example_hdr plan_p t = Inr (URU_STATUS_OK, t1) \<and>
    uri_mpi_rdma_plan_destroy example_hdr plan_p t = Inr (URU_STATUS_OK, t2)"
proof -
  have e: "uru_mpi rdma_example_state = example_mpi" "mpi_tag rdma_example_state = [int_pool_init, int_pool_init]"
    "batch_id rdma_example_state = [int_pool_init, int_pool_init]"
    "arr_tail rdma_example_state = 4" "length (req_q rdma_example_state) = 5" "brk rdma_example_state = 5"
    "mpi_rank example_mpi = 1" "mpi_size example_mpi = 2"
    by (simp_all add: rdma_example_state_def queue_example_state_def example_mpi_def)
  have r: "uri_mpi_int_pool_return example_mpi \<lparr>ip_max = 2, ip_stack = [], ip_top = 0\<rparr> 3 =
      Inr \<lparr>ip_max = 2, ip_stack = 1 # replicate 7 0, ip_top = 1\<rparr>"
    by (simp add: uri_mpi_int_pool_return_def e signed_divide_int_def numeral_eq_Suc)
  show ?thesis using example_infos example_pool_get e r
    by (auto simp: uri_mpi_rdma_plan_create_def create_wrt_def get_tag_def op_types_def mpi_issue_def
        op_flag_defs example_wrt_def num_receiver_def announce_def get_batch_id_def send_ctrl_def op_alloc_def
        Let_def uri_mpi_req_que_app_def req_put_def op_load_def op_block_def
        uri_mpi_rdma_plan_start_def uri_mpi_rdma_plan_destroy_def load_plan_def batch_rank_def issue_all_def
        block_ptrs_def drop_send_op_def return_tag_def return_batch_id_def op_free_def)
qed

lemma example_pools_agree: "pools_agree rdma_example_state (\<lambda>_. (int_pool_init, {}))"
  by (auto simp: pools_agree_def rdma_example_state_def queue_example_state_def nth_Cons')

theorem mpi_plan_create_legal_witness:
  "\<exists>plan_p t Q' l. uri_mpi_rdma_plan_create (sort_key op_rank) example_hdr False
      [(URU_TRANSFER_TYPE_DMA_PUT, example_wrt)] rdma_example_state = Inr (plan_p, t) \<and>
    mpi_log t = mpi_log rdma_example_state @ l \<and>
    sent (uru_mpi rdma_example_state) (\<lambda>_. (int_pool_init, {})) (ctrl_sent l) Q'"
proof -
  obtain plan_p t where c: "uri_mpi_rdma_plan_create (sort_key op_rank) example_hdr False
      [(URU_TRANSFER_TYPE_DMA_PUT, example_wrt)] rdma_example_state = Inr (plan_p, t)"
    using example_plan by blast
  show ?thesis using mpi_plan_create_legal [OF c insort_spec example_pools_agree] c by blast
qed

theorem mpi_plan_start_destroy_legal_witness:
  "\<exists>plan_p (s :: uri_mpi_state) t u Q l l' Q'. uri_mpi_rdma_plan_start example_hdr plan_p s = Inr (URU_STATUS_OK, t) \<and>
    mpi_log t = mpi_log s @ l \<and> sent (uru_mpi s) Q (ctrl_sent l) Q \<and>
    uri_mpi_rdma_plan_destroy example_hdr plan_p s = Inr (URU_STATUS_OK, u) \<and>
    mpi_log u = mpi_log s @ l' \<and> sent (uru_mpi s) Q (ctrl_sent l') Q'"
proof -
  obtain plan_p s t u where c: "uri_mpi_rdma_plan_create (sort_key op_rank) example_hdr False
      [(URU_TRANSFER_TYPE_DMA_PUT, example_wrt)] rdma_example_state = Inr (plan_p, s)"
    "uri_mpi_rdma_plan_start example_hdr plan_p s = Inr (URU_STATUS_OK, t)"
    "uri_mpi_rdma_plan_destroy example_hdr plan_p s = Inr (URU_STATUS_OK, u)"
    using example_plan by blast
  obtain Q pl ds where live: "legal rdma_example_state (\<lambda>_. (int_pool_init, {})) s Q" "mpi_plans s plan_p = Some pl"
    "plan_live s Q (pl_recv_batch pl) ds"
    using create_legal [OF c(1) insort_spec example_pools_agree] by blast
  note legal = mpi_plan_start_destroy_legal [OF live(2,3) legal_agree [OF live(1)], of example_hdr URU_STATUS_OK t u]
  obtain l where l: "mpi_log t = mpi_log s @ l" "sent (uru_mpi s) Q (ctrl_sent l) Q" using legal c(2) by blast
  obtain l' Q' where l': "mpi_log u = mpi_log s @ l'" "sent (uru_mpi s) Q (ctrl_sent l') Q'" using legal c(3) by blast
  show ?thesis
    by (rule exI [of _ plan_p], rule exI [of _ s], rule exI [of _ t], rule exI [of _ u], rule exI [of _ Q],
        rule exI [of _ l], rule exI [of _ l'], rule exI [of _ Q']) (simp add: c l l')
qed

end
