(* ===== verification/Uri_Mpi_Pair.thy ===== *)
theory Uri_Mpi_Pair
  imports Uri_Mpi_Link
begin

text \<open>
  Both ends of a transfer over the MPI channel: what the process that creates and starts a plan asks of
  MPI, and what the receiver of its control messages asks of MPI. Every write becomes two MPI
  operations that meet: they have the same tag and the same size, go in opposite directions, and lie at
  the two addresses that the write names.
\<close>

section \<open>The data operations in a log\<close>

record data_op =
  d_sends :: bool
  d_addr :: addr
  d_count :: int
  d_peer :: int
  d_tag :: int

fun data_ops :: "mpi_call list \<Rightarrow> data_op list" where
  "data_ops [] = []"
| "data_ops (c # cs) = (case c of
      MPI_Isend a n r t \<Rightarrow> [\<lparr>d_sends = True, d_addr = a, d_count = n, d_peer = r, d_tag = t\<rparr>]
    | MPI_Send_init a n r t \<Rightarrow> [\<lparr>d_sends = True, d_addr = a, d_count = n, d_peer = r, d_tag = t\<rparr>]
    | MPI_Irecv a n r t \<Rightarrow> [\<lparr>d_sends = False, d_addr = a, d_count = n, d_peer = r, d_tag = t\<rparr>]
    | MPI_Recv_init a n r t \<Rightarrow> [\<lparr>d_sends = False, d_addr = a, d_count = n, d_peer = r, d_tag = t\<rparr>]
    | _ \<Rightarrow> []) @ data_ops cs"

lemma data_ops_append [simp]: "data_ops (xs @ ys) = data_ops xs @ data_ops ys"
  by (induction xs) auto

lemma data_ops_step: "data_ops [c] = [d] \<Longrightarrow> data_ops (c # cs) = d # data_ops cs"
  using data_ops_append [of "[c]" cs] by (simp del: data_ops.simps)

text \<open>What was appended to the log between two states.\<close>

definition new_calls :: "('z) uri_mpi_state_scheme \<Rightarrow> 'z uri_mpi_state_scheme \<Rightarrow> mpi_call list" where
  "new_calls s t = drop (length (mpi_log s)) (mpi_log t)"

definition logs :: "('z) uri_mpi_state_scheme \<Rightarrow> mpi_call list \<Rightarrow> 'z uri_mpi_state_scheme \<Rightarrow> bool" where
  "logs s l t \<longleftrightarrow> mpi_log t = mpi_log s @ l \<and> uru_mpi t = uru_mpi s \<and> mems t = mems s"

lemma logs_new: "logs s l t \<Longrightarrow> new_calls s t = l"
  by (simp add: logs_def new_calls_def)

lemma logs_refl [simp]: "logs s [] s"
  by (simp add: logs_def)

lemma logs_trans: "logs s l t \<Longrightarrow> logs t l' u \<Longrightarrow> logs s (l @ l') u"
  by (simp add: logs_def)

lemma logs_env: "logs s l t \<Longrightarrow> uru_mpi t = uru_mpi s \<and> mems t = mems s"
  by (simp add: logs_def)

section \<open>The two halves of a write\<close>

definition side_addr :: "mem_store \<Rightarrow> uri_channel_hdr \<Rightarrow> addr \<Rightarrow> u64 \<Rightarrow> addr" where
  "side_addr m ch h off = (case uri_mem_get_info m ch h of Inl _ \<Rightarrow> 0 | Inr (a, _, _) \<Rightarrow> unat (a + off))"

text \<open>The process at the other end of a write.\<close>

definition wrt_rank :: "mem_store \<Rightarrow> uri_channel_hdr \<Rightarrow> uru_transfer_t \<times> uri_wrt \<Rightarrow> int" where
  "wrt_rank m ch tw = (case uri_mem_get_info m ch (rmt_mem (snd tw)) of Inl _ \<Rightarrow> 0 | Inr (_, _, r) \<Rightarrow> r)"

definition local_half :: "mem_store \<Rightarrow> uri_channel_hdr \<Rightarrow> uru_transfer_t \<times> uri_wrt \<Rightarrow> int \<Rightarrow> data_op" where
  "local_half m ch tw tag =
     \<lparr>d_sends = (fst tw = URU_TRANSFER_TYPE_DMA_PUT), d_addr = side_addr m ch (loc_mem (snd tw)) (loc_offset (snd tw)),
      d_count = mpi_count (dma_size (snd tw)), d_peer = wrt_rank m ch tw, d_tag = tag\<rparr>"

definition remote_half :: "mem_store \<Rightarrow> uri_channel_hdr \<Rightarrow> int \<Rightarrow> uru_transfer_t \<times> uri_wrt \<Rightarrow> int \<Rightarrow> data_op" where
  "remote_half m ch me tw tag =
     \<lparr>d_sends = (fst tw \<noteq> URU_TRANSFER_TYPE_DMA_PUT), d_addr = side_addr m ch (rmt_mem (snd tw)) (rmt_offset (snd tw)),
      d_count = mpi_count (dma_size (snd tw)), d_peer = me, d_tag = tag\<rparr>"

text \<open>The MPI operation that an operation structure stands for.\<close>

definition op_half :: "uri_mpi_op_t \<Rightarrow> data_op" where
  "op_half op = \<lparr>d_sends = ((op_type op AND OP_RECV) = 0), d_addr = op_addr op, d_count = mpi_count (op_size op),
     d_peer = op_rank op, d_tag = op_tag op\<rparr>"

section \<open>Creating the halves of one write\<close>

lemma create_wrt_pair:
  assumes "create_wrt ch once tw s = Inr (so, ro, ps, t)"
  shows "\<exists>l. logs s l t \<and> data_ops l = [local_half (mems s) ch tw (op_tag ro)] \<and> ctrl_sent l = [] \<and>
      op_half (ro\<lparr>op_rank := me\<rparr>) = remote_half (mems s) ch me tw (op_tag ro) \<and> op_rank ro = wrt_rank (mems s) ch tw \<and>
      (\<exists>s1. get_tag (op_rank ro) s = Inr (op_tag ro, s1) \<and> mpi_tag t = mpi_tag s1)"
proof -
  obtain ty w where tw: "tw = (ty, w)" by (cases tw)
  show ?thesis using assms
    by (cases ty; cases once)
      (auto simp: tw create_wrt_def Let_def mpi_issue_def op_alloc_def op_types_def get_tag_def logs_def local_half_def
        remote_half_def side_addr_def wrt_rank_def op_half_def zero_op_def op_flag_defs split: if_splits)
qed

text \<open>The tags in use for every peer.\<close>

definition tags_ok :: "('z) uri_mpi_state_scheme \<Rightarrow> (int \<Rightarrow> int set) \<Rightarrow> bool" where
  "tags_ok s out \<longleftrightarrow> (\<forall>r. 0 \<le> r \<longrightarrow> nat r < length (mpi_tag s) \<longrightarrow> int_pool_inv (uru_mpi s) (mpi_tag s ! nat r) (out r))"

lemma get_tag_fresh:
  assumes "get_tag r s = Inr (x, s1)" "tags_ok s out" "mpi_tag t = mpi_tag s1" "uru_mpi t = uru_mpi s"
  shows "x \<notin> out r \<and> tags_ok t (out(r := insert x (out r)))"
proof -
  obtain pool where p: "0 \<le> r" "nat r < length (mpi_tag s)" "uri_mpi_int_pool_get (uru_mpi s) (mpi_tag s ! nat r) = Inr (x, pool)"
      "s1 = s\<lparr>mpi_tag := (mpi_tag s)[nat r := pool]\<rparr>"
    using assms(1) by (auto simp: get_tag_def split: if_splits)
  have "int_pool_inv (uru_mpi s) (mpi_tag s ! nat r) (out r)" using assms(2) p(1,2) by (simp add: tags_ok_def)
  note n = ip.get_new [OF this p(3)]
  have "tags_ok t (out(r := insert x (out r)))"
    using assms(2-4) n p(1,2) by (auto simp: tags_ok_def p(4) nth_list_update eq_nat_nat_iff)
  then show ?thesis using n by blast
qed

section \<open>All writes of a plan\<close>

lemma create_wrts_pair:
  assumes "create_wrts ch once ws s = Inr (sos, ros, ps, t)"
  shows "\<exists>l. logs s l t \<and> length ros = length ws \<and> data_ops l = map2 (local_half (mems s) ch) ws (map op_tag ros) \<and> ctrl_sent l = [] \<and>
      map (\<lambda>ro. op_half (ro\<lparr>op_rank := me\<rparr>)) ros = map2 (remote_half (mems s) ch me) ws (map op_tag ros) \<and>
      map op_rank ros = map (wrt_rank (mems s) ch) ws"
  using assms
proof (induction ws arbitrary: s sos ros ps)
  case Nil
  then show ?case by (auto intro: exI [of _ "[]"])
next
  case (Cons w ws)
  obtain so ro ps1 v sos' ros' ps2 where v: "create_wrt ch once w s = Inr (so, ro, ps1, v)"
    "create_wrts ch once ws v = Inr (sos', ros', ps2, t)" "ros = ro # ros'"
    using Cons.prems by auto
  obtain l where l: "logs s l v" "data_ops l = [local_half (mems s) ch w (op_tag ro)]" "ctrl_sent l = []"
      "op_half (ro\<lparr>op_rank := me\<rparr>) = remote_half (mems s) ch me w (op_tag ro)" "op_rank ro = wrt_rank (mems s) ch w"
    using create_wrt_pair [OF v(1)] by blast
  obtain l' where "logs v l' t" "length ros' = length ws" "data_ops l' = map2 (local_half (mems s) ch) ws (map op_tag ros')"
      "ctrl_sent l' = []" "map (\<lambda>ro. op_half (ro\<lparr>op_rank := me\<rparr>)) ros' = map2 (remote_half (mems s) ch me) ws (map op_tag ros')"
      "map op_rank ros' = map (wrt_rank (mems s) ch) ws"
    using Cons.IH [OF v(2)] logs_env [OF l(1)] by auto
  then show ?case using l logs_trans [OF l(1)] v(3) by (intro exI [of _ "l @ l'"]) simp
qed

text \<open>No two operations for one peer share a tag, and none takes a tag that was in use.\<close>

lemma create_wrts_fresh:
  assumes "create_wrts ch once ws s = Inr (sos, ros, ps, t)" "tags_ok s out"
  shows "distinct (map (\<lambda>ro. (op_rank ro, op_tag ro)) ros) \<and> (\<forall>ro \<in> set ros. op_tag ro \<notin> out (op_rank ro))"
  using assms
proof (induction ws arbitrary: s sos ros ps out)
  case (Cons w ws)
  obtain so ro ps1 v sos' ros' ps2 where v: "create_wrt ch once w s = Inr (so, ro, ps1, v)"
    "create_wrts ch once ws v = Inr (sos', ros', ps2, t)" "ros = ro # ros'"
    using Cons.prems by auto
  obtain l s1 where l: "logs s l v" "get_tag (op_rank ro) s = Inr (op_tag ro, s1)" "mpi_tag v = mpi_tag s1"
    using create_wrt_pair [OF v(1)] by blast
  let ?out = "out(op_rank ro := insert (op_tag ro) (out (op_rank ro)))"
  have fresh: "op_tag ro \<notin> out (op_rank ro)" and ok: "tags_ok v ?out"
    using get_tag_fresh [OF l(2) Cons.prems(2) l(3)] logs_env [OF l(1)] by auto
  have tl: "distinct (map (\<lambda>ro. (op_rank ro, op_tag ro)) ros')" "\<And>x. x \<in> set ros' \<Longrightarrow> op_tag x \<notin> ?out (op_rank x)"
    using Cons.IH [OF v(2) ok] by blast+
  have "op_tag x \<notin> out (op_rank x) \<and> (op_rank x, op_tag x) \<noteq> (op_rank ro, op_tag ro)" if "x \<in> set ros'" for x
    using tl(2) [OF that] by (cases "op_rank x = op_rank ro") simp_all
  then show ?case using fresh tl(1) v(3) by fastforce
qed simp

section \<open>The messages\<close>

text \<open>The operations that a message brings to its receiver.\<close>

definition brings :: "uri_mpi_ctrl_msg_t \<Rightarrow> uri_mpi_op_t list" where
  "brings m = (if cm_type m = create_op_batch \<or> cm_type m = execute_op_batch
     then (case cm_ops m of None \<Rightarrow> [] | Some ops \<Rightarrow> ops) else [])"

definition batch_msg :: "bool \<Rightarrow> int \<Rightarrow> uri_mpi_op_t list \<Rightarrow> uri_mpi_op_batch_t \<Rightarrow> int \<times> uri_mpi_ctrl_msg_t" where
  "batch_msg once me run b = (op_rank (hd run), \<lparr>cm_type = (if once then execute_op_batch else create_op_batch),
     cm_batch_id = b_batch_id b, cm_ops = Some (map (\<lambda>op. op\<lparr>op_rank := me\<rparr>) run)\<rparr>)"

lemma announce_pair:
  assumes "announce once run s = Inr (b, p, t)"
  shows "\<exists>l. logs s l t \<and> data_ops l = [] \<and> ctrl_sent l = [batch_msg once (mpi_rank (uru_mpi s)) run b]"
proof -
  let ?s1 = "s\<lparr>op_heap := (op_heap s)(brk s \<mapsto> run), brk := Suc (brk s)\<rparr>"
  obtain bid v where g: "(if once then Inr (- 1, ?s1) else get_batch_id (op_rank (hd run)) ?s1) = Inr (bid, v)"
    and b: "b = \<lparr>b_batch_id = bid, b_ops = brk s\<rparr>"
    and t: "t = snd (send_ctrl (op_rank (hd run)) \<lparr>cm_type = (if once then execute_op_batch else create_op_batch),
        cm_batch_id = bid, cm_ops = Some (map (\<lambda>op. op\<lparr>op_rank := mpi_rank (uru_mpi v)\<rparr>) run)\<rparr> v)"
    using assms by (auto simp: announce_def Let_def op_alloc_def split: prod.splits)
  have "logs s [] v" using g by (auto simp: logs_def get_batch_id_def split: if_splits)
  then show ?thesis unfolding t send_ctrl_eq by (simp add: logs_def batch_msg_def b)
qed

lemma announce_all_pair:
  assumes "announce_all once runs s = Inr (bs, ps, t)"
  shows "\<exists>l. logs s l t \<and> data_ops l = [] \<and> length bs = length runs \<and>
    ctrl_sent l = map2 (batch_msg once (mpi_rank (uru_mpi s))) runs bs"
  using assms
proof (induction runs arbitrary: s bs ps)
  case Nil
  then show ?case by (auto intro: exI [of _ "[]"])
next
  case (Cons run runs)
  obtain b p v bs' ps' where v: "announce once run s = Inr (b, p, v)" "announce_all once runs v = Inr (bs', ps', t)" "bs = b # bs'"
    using Cons.prems by auto
  obtain l where l: "logs s l v" "data_ops l = []" "ctrl_sent l = [batch_msg once (mpi_rank (uru_mpi s)) run b]"
    using announce_pair [OF v(1)] by blast
  obtain l' where "logs v l' t" "data_ops l' = []" "length bs' = length runs"
      "ctrl_sent l' = map2 (batch_msg once (mpi_rank (uru_mpi s))) runs bs'"
    using Cons.IH [OF v(2)] logs_env [OF l(1)] by auto
  then show ?case using l logs_trans [OF l(1)] v(3) by (intro exI [of _ "l @ l'"]) simp
qed

lemma que_app_logs: "uri_mpi_req_que_app ps s = Inr t \<Longrightarrow> logs s [] t"
  by (erule que_app_frame) (simp add: logs_def)

lemma op_frees_logs:
  assumes "fold_res (\<lambda>b. op_free (b_ops b)) bs s = Inr t"
  shows "logs s [] t"
  using assms
proof (rule fold_res_invariant)
  fix b u v
  assume "logs s [] u" "op_free (b_ops b) u = Inr v"
  then show "logs s [] v" using op_free_frame by (fastforce simp: logs_def)
qed simp

text \<open>The parts of creating a plan, for both ways.\<close>

lemma create_parts:
  assumes "uri_mpi_rdma_plan_create qsort ch once wrts s = Inr (p, t)" "qsort_spec qsort"
  obtains sos ros ps v runs bs ps' w l where "create_wrts ch once wrts s = Inr (sos, ros, ps, v)"
    "recv_runs (num_receiver (qsort ros)) (qsort ros) = Inr runs" "mset (qsort ros) = mset ros" "rank_sorted (qsort ros)"
    "announce_all once runs v = Inr (bs, ps', w)" "logs w [] t"
proof -
  show thesis
  proof (cases once)
    case True
    obtain sos ros ps v runs bs ps' w x y where v: "create_wrts ch once wrts s = Inr (sos, ros, ps, v)"
        "recv_runs (num_receiver (qsort ros)) (qsort ros) = Inr runs" "announce_all once runs v = Inr (bs, ps', w)"
      and x: "uri_mpi_req_que_app (ps @ ps') w = Inr x"
        "op_free (brk x) (x\<lparr>op_heap := (op_heap x)(brk x \<mapsto> sos), brk := brk x + 2\<rparr>) = Inr y"
        "fold_res (\<lambda>b. op_free (b_ops b)) bs y = Inr t"
      using assms(1) True by (auto simp: uri_mpi_rdma_plan_create_def Let_def op_alloc_def)
    have "logs x [] y" using op_free_frame [OF x(2)] by (simp add: logs_def)
    then have "logs w [] t" using logs_trans [OF que_app_logs [OF x(1)]] logs_trans [OF _ op_frees_logs [OF x(3)]] by fastforce
    then show thesis using that [OF v(1,2) _ _ v(3)] assms(2) qsort_rank_sorted by (auto simp: qsort_spec_def)
  next
    case False
    obtain sos ros ps v runs bs ps' w x where v: "create_wrts ch once wrts s = Inr (sos, ros, ps, v)"
        "recv_runs (num_receiver (qsort ros)) (qsort ros) = Inr runs" "announce_all once runs v = Inr (bs, ps', w)"
      and x: "uri_mpi_req_que_app (ps @ ps') w = Inr x" "t = x\<lparr>op_heap := (op_heap x)(brk x \<mapsto> sos), brk := brk x + 2,
        mpi_plans := (mpi_plans x)(p \<mapsto> \<lparr>pl_send_batch = \<lparr>b_batch_id = - 1, b_ops = brk x\<rparr>, pl_recv_batch = bs\<rparr>)\<rparr>"
      using assms(1) False by (auto simp: uri_mpi_rdma_plan_create_def Let_def op_alloc_def)
    have "logs x [] t" by (simp add: x(2) logs_def)
    then have "logs w [] t" using logs_trans [OF que_app_logs [OF x(1)]] by fastforce
    then show thesis using that [OF v(1,2) _ _ v(3)] assms(2) qsort_rank_sorted by (auto simp: qsort_spec_def)
  qed
qed

section \<open>At the receiver\<close>

text \<open>The calls that make requests for received operations, one for each.\<close>

lemma recv_ops_init_pair:
  assumes "recv_ops_init ops s = Inr (ops', t)"
  shows "\<exists>l. logs s l t \<and> data_ops l = map op_half ops \<and> length l = length ops \<and>
    map op_half ops' = map op_half ops \<and> map op_req ops' = [length (mpi_log s)..<length (mpi_log s) + length ops] \<and>
    map op_flag_p ops' = map op_flag_p ops \<and> map op_flag_add ops' = map op_flag_add ops \<and>
    map op_flag ops' = map op_flag ops \<and> op_heap t = op_heap s \<and> brk t = brk s \<and> recv_batch t = recv_batch s \<and>
    req_q t = req_q s \<and> arr_tail t = arr_tail s \<and> flags t = flags s"
  using assms
proof (induction ops arbitrary: s ops')
  case Nil
  then show ?case by (auto intro: exI [of _ "[]"])
next
  case (Cons op ops)
  obtain op1 v ops1 where v: "recv_op_init op s = Inr (op1, v)" "recv_ops_init ops v = Inr (ops1, t)" "ops' = op1 # ops1"
    using Cons.prems by auto
  obtain c where c: "v = s\<lparr>mpi_log := mpi_log s @ [c]\<rparr>" "data_ops [c] = [op_half op]" "op1 = op\<lparr>op_req := length (mpi_log s)\<rparr>"
    using v(1) by (auto simp: recv_op_init_def mpi_issue_def op_half_def split: if_splits)
  obtain l where l: "logs v l t" "data_ops l = map op_half ops" "length l = length ops" "map op_half ops1 = map op_half ops"
      "map op_req ops1 = [length (mpi_log v)..<length (mpi_log v) + length ops]"
      "map op_flag_p ops1 = map op_flag_p ops" "map op_flag_add ops1 = map op_flag_add ops"
      "map op_flag ops1 = map op_flag ops" "op_heap t = op_heap v" "brk t = brk v" "recv_batch t = recv_batch v"
      "req_q t = req_q v" "arr_tail t = arr_tail v" "flags t = flags v"
    using Cons.IH [OF v(2)] by blast
  have "logs s [c] v" using c(1) by (simp add: logs_def)
  note lt = logs_trans [OF this l(1)]
  have "data_ops ([c] @ l) = map op_half (op # ops)" using data_ops_step [OF c(2), of l] l(2) by (simp del: data_ops.simps)
  moreover have "op_half op1 = op_half op" using c(3) by (simp add: op_half_def)
  moreover have "map op_req ops' = [length (mpi_log s)..<length (mpi_log s) + length (op # ops)]"
    using l(5) by (simp add: v(3) c upt_conv_Cons del: upt_Suc)
  ultimately show ?case using lt l c v(3) by (intro exI [of _ "[c] @ l"]) (simp del: data_ops.simps)
qed

lemma exec_ops_pair:
  assumes "exec_ops ops s = Inr (ps, t)"
  shows "\<exists>l. logs s l t \<and> data_ops l = map op_half ops"
  using assms
proof (induction ops arbitrary: s ps)
  case Nil
  then show ?case by (auto intro: exI [of _ "[]"])
next
  case (Cons op ops)
  obtain p1 v ps1 where v: "exec_op op s = Inr (p1, v)" "exec_ops ops v = Inr (ps1, t)" using Cons.prems by auto
  obtain c where c: "logs s [c] v" "data_ops [c] = [op_half op]"
    using v(1) by (auto simp: exec_op_def mpi_issue_def op_alloc_def op_half_def logs_def split: if_splits)
  obtain l where "logs v l t" "data_ops l = map op_half ops" using Cons.IH [OF v(2)] by blast
  then show ?case using logs_trans [OF c(1)] data_ops_step [OF c(2), of l]
    by (intro exI [of _ "[c] @ l"]) (simp del: data_ops.simps)
qed

lemma data_ops_no: "(\<And>op. data_ops [c op] = []) \<Longrightarrow> data_ops (map c ops) = []"
proof (induction ops)
  case (Cons op ops)
  have "data_ops (map c (op # ops)) = data_ops [c op] @ data_ops (map c ops)"
    using data_ops_append [of "[c op]" "map c ops"] by simp
  then show ?case using Cons by simp
qed simp

lemma process_create:
  assumes "uri_mpi_process_ctrl_msg src m s = Inr t" "cm_type m = create_op_batch"
  obtains ops v ops' w l where "cm_ops m = Some ops" "grow_table src (cm_batch_id m) s = Inr v"
    "recv_ops_init ops v = Inr (ops', w)"
    "t = set_slot src (cm_batch_id m) (Some \<lparr>b_batch_id = cm_batch_id m, b_ops = brk w\<rparr>)
       (w\<lparr>op_heap := (op_heap w)(brk w \<mapsto> ops'), brk := brk w + 1\<rparr>)"
    "table_range src (cm_batch_id m) v"
  using assms
  by (auto simp: uri_mpi_process_ctrl_msg_def Let_def op_alloc_def batch_slot_def table_range_def
      split: if_splits option.splits)

lemma grow_logs: "grow_table src bid s = Inr t \<Longrightarrow> logs s [] t \<and> op_heap t = op_heap s \<and> brk t = brk s"
  by (auto simp: grow_table_def Let_def logs_def split: if_splits)

lemma process_pair:
  assumes "uri_mpi_process_ctrl_msg src m s = Inr t"
  shows "\<exists>l. logs s l t \<and> data_ops l = map op_half (brings m)"
proof (cases "cm_type m")
  case create_op_batch
  from process_create [OF assms this] obtain ops v ops' w where
    o: "cm_ops m = Some ops" "grow_table src (cm_batch_id m) s = Inr v" "recv_ops_init ops v = Inr (ops', w)"
    and t: "t = set_slot src (cm_batch_id m) (Some \<lparr>b_batch_id = cm_batch_id m, b_ops = brk w\<rparr>)
       (w\<lparr>op_heap := (op_heap w)(brk w \<mapsto> ops'), brk := brk w + 1\<rparr>)" by metis
  obtain l where l: "logs v l w" "data_ops l = map op_half ops" using recv_ops_init_pair [OF o(3)] by blast
  have "logs w [] t" by (simp add: t set_slot_def logs_def)
  then have "logs s l t" using grow_logs [OF o(2)] l(1) by (simp add: logs_def)
  then show ?thesis using l(2) o(1) create_op_batch by (auto simp: brings_def)
next
  case execute_op_batch
  then obtain ops ps v where v: "cm_ops m = Some ops" "exec_ops ops s = Inr (ps, v)" "uri_mpi_req_que_app ps v = Inr t"
    using assms by (auto simp: uri_mpi_process_ctrl_msg_def Let_def split: option.splits)
  obtain l where l: "logs s l v" "data_ops l = map op_half ops" using exec_ops_pair [OF v(2)] by blast
  then show ?thesis using logs_trans [OF l(1) que_app_logs [OF v(3)]] v(1) execute_op_batch by (auto simp: brings_def)
next
  case start_op_batch
  then obtain b :: uri_mpi_op_batch_t and ops where v: "uri_mpi_req_que_app (block_ptrs (b_ops b) ops) (issue_all (\<lambda>op. MPI_Start (op_req op)) ops s) = Inr t"
    using assms by (auto simp: uri_mpi_process_ctrl_msg_def Let_def split: if_splits option.splits)
  have "logs s (map (\<lambda>op. MPI_Start (op_req op)) ops) t" using que_app_logs [OF v] by (simp add: logs_def issue_all_def)
  then show ?thesis using start_op_batch data_ops_no [of "\<lambda>op. MPI_Start (op_req op)" ops] by (auto simp: brings_def)
next
  case destroy_op_batch
  then obtain b :: uri_mpi_op_batch_t and ops v where v: "op_free (b_ops b) (issue_all (\<lambda>op. MPI_Request_free (op_req op)) ops s) = Inr v"
      "t = set_slot src (cm_batch_id m) None v"
    using assms by (auto simp: uri_mpi_process_ctrl_msg_def Let_def split: option.splits)
  have "logs s (map (\<lambda>op. MPI_Request_free (op_req op)) ops) t"
    using op_free_frame [OF v(1)] by (simp add: v(2) set_slot_def logs_def issue_all_def)
  then show ?thesis using destroy_op_batch data_ops_no [of "\<lambda>op. MPI_Request_free (op_req op)" ops] by (auto simp: brings_def)
qed (use assms in \<open>simp_all add: uri_mpi_process_ctrl_msg_def Let_def\<close>)

section \<open>Every write meets its other half\<close>

text \<open>The message for one receiver brings the receiver's halves of its writes, and no others.\<close>

definition halves_for :: "int \<Rightarrow> mem_store \<Rightarrow> uri_channel_hdr \<Rightarrow> int \<Rightarrow> (uru_transfer_t \<times> uri_wrt) list \<Rightarrow> int list \<Rightarrow> data_op list" where
  "halves_for rb m ch me wrts tags =
     map (\<lambda>(tw, tag). remote_half m ch me tw tag) (filter (\<lambda>(tw, _). wrt_rank m ch tw = rb) (zip wrts tags))"

lemma halves_for_ops:
  assumes "map (\<lambda>ro. op_half (ro\<lparr>op_rank := me\<rparr>)) ros = map2 (remote_half m ch me) wrts (map op_tag ros)"
    and "map op_rank ros = map (wrt_rank m ch) wrts" "length ros = length wrts"
  shows "halves_for rb m ch me wrts (map op_tag ros) = map (\<lambda>ro. op_half (ro\<lparr>op_rank := me\<rparr>)) (filter (\<lambda>ro. op_rank ro = rb) ros)"
  using assms
proof (induction wrts arbitrary: ros)
  case (Cons w wrts)
  then obtain ro ros' where ros: "ros = ro # ros'" by (cases ros) auto
  then show ?case using Cons.IH [of ros'] Cons.prems by (simp add: halves_for_def)
qed (simp add: halves_for_def)

lemma batch_msgs_fst: "length bs = length runs \<Longrightarrow> map fst (map2 (batch_msg once me) runs bs) = map (\<lambda>run. op_rank (hd run)) runs"
  by (induction bs runs rule: list_induct2) (simp_all add: batch_msg_def)

lemma batch_msgs_elem:
  assumes "(rb, m) \<in> set (map2 (batch_msg once me) runs bs)"
  shows "\<exists>run \<in> set runs. rb = op_rank (hd run) \<and> cm_type m = (if once then execute_op_batch else create_op_batch) \<and>
    brings m = map (\<lambda>op. op\<lparr>op_rank := me\<rparr>) run"
proof -
  obtain run b where "(run, b) \<in> set (zip runs bs)" "(rb, m) = batch_msg once me run b" using assms by auto
  then show ?thesis by (intro bexI [of _ run]) (auto simp: batch_msg_def brings_def dest: set_zip_leftD)
qed

text \<open>One message per receiver, with the receiver's operations of the plan.\<close>

lemma create_messages:
  assumes "uri_mpi_rdma_plan_create qsort ch once wrts s = Inr (p, t)" "qsort_spec qsort" "wrts \<noteq> []"
  obtains sos ros ps v l l' where "create_wrts ch once wrts s = Inr (sos, ros, ps, v)" "logs s l v" "new_calls s t = l @ l'"
    "data_ops l' = []" "distinct (map fst (ctrl_sent (new_calls s t)))"
    "fst ` set (ctrl_sent (new_calls s t)) = op_rank ` set ros"
    "\<And>rb m. (rb, m) \<in> set (ctrl_sent (new_calls s t)) \<Longrightarrow>
      cm_type m = (if once then execute_op_batch else create_op_batch) \<and>
      mset (brings m) = mset (map (\<lambda>op. op\<lparr>op_rank := mpi_rank (uru_mpi s)\<rparr>) (filter (\<lambda>op. op_rank op = rb) ros))"
proof -
  obtain sos ros ps v runs bs ps' w where v: "create_wrts ch once wrts s = Inr (sos, ros, ps, v)"
    and runs: "recv_runs (num_receiver (qsort ros)) (qsort ros) = Inr runs" "mset (qsort ros) = mset ros" "rank_sorted (qsort ros)"
    and w: "announce_all once runs v = Inr (bs, ps', w)" "logs w [] t"
    using create_parts [OF assms(1,2)] by metis
  let ?me = "mpi_rank (uru_mpi s)"
  obtain l where l: "logs s l v" "length ros = length wrts" "ctrl_sent l = []"
    using create_wrts_pair [OF v] by blast
  obtain l' where l': "logs v l' w" "data_ops l' = []" "length bs = length runs" "ctrl_sent l' = map2 (batch_msg once ?me) runs bs"
    using announce_all_pair [OF w(1)] logs_env [OF l(1)] by auto
  have new: "new_calls s t = l @ l'" using logs_trans [OF logs_trans [OF l(1) l'(1)] w(2)] by (simp add: logs_new)
  have ne: "qsort ros \<noteq> []" using runs(2) l(2) assms(3) by (metis length_0_conv mset_zero_iff)
  obtain runs' where "recv_runs (num_receiver (qsort ros)) (qsort ros) = Inr runs'" "concat runs' = qsort ros" "list_all is_run runs'"
    using recv_runs_ok [OF ne] by blast
  then have rr: "concat runs = qsort ros" "list_all is_run runs" using runs(1) by auto
  have dr: "distinct (map (\<lambda>run. op_rank (hd run)) runs)" using recv_runs_distinct [OF runs(3,1)] by blast
  have msgs: "map fst (ctrl_sent (new_calls s t)) = map (\<lambda>run. op_rank (hd run)) runs"
    using l(3) l'(4) batch_msgs_fst [OF l'(3)] by (simp add: new del: map_map)
  have fs: "fst ` set (ctrl_sent (new_calls s t)) = op_rank ` set ros"
  proof -
    have "op_rank ` set run = {op_rank (hd run)}" if "run \<in> set runs" for run
    proof -
      have ne: "run \<noteq> []" and eq: "\<forall>op \<in> set run. op_rank op = op_rank (hd run)"
        using rr(2) that unfolding list_all_iff is_run_def by blast+
      have sub: "op_rank ` set run \<subseteq> {op_rank (hd run)}" by (rule image_subsetI) (use eq in blast)
      show ?thesis using sub imageI [OF hd_in_set [OF ne], of op_rank] by blast
    qed
    then have "(\<lambda>run. op_rank (hd run)) ` set runs = op_rank ` set (concat runs)"
      by (simp add: image_UN UNION_singleton_eq_range)
    also have "\<dots> = op_rank ` set ros" using rr(1) runs(2) by (metis set_mset_mset)
    finally show ?thesis using arg_cong [OF msgs, of set] by simp
  qed
  have br: "cm_type m = (if once then execute_op_batch else create_op_batch) \<and>
      mset (brings m) = mset (map (\<lambda>op. op\<lparr>op_rank := ?me\<rparr>) (filter (\<lambda>op. op_rank op = rb) ros))"
    if "(rb, m) \<in> set (ctrl_sent (new_calls s t))" for rb m
  proof -
    have "(rb, m) \<in> set (map2 (batch_msg once ?me) runs bs)" using that l(3) l'(4) by (simp add: new)
    from batch_msgs_elem [OF this] obtain run where run: "run \<in> set runs" "rb = op_rank (hd run)"
      "cm_type m = (if once then execute_op_batch else create_op_batch)" "brings m = map (\<lambda>op. op\<lparr>op_rank := ?me\<rparr>) run" by blast
    have "mset run = mset (filter (\<lambda>op. op_rank op = rb) ros)"
      using filter_run [OF rr(2) dr run(1)] rr(1) runs(2) run(2) by (metis mset_filter)
    then show ?thesis using run(3,4) by simp
  qed
  have "distinct (map fst (ctrl_sent (new_calls s t)))" using dr unfolding msgs .
  from that [OF v l(1) new l'(2) this fs br] show thesis .
qed

lemma create_pairs:
  assumes "uri_mpi_rdma_plan_create qsort ch once wrts s = Inr (p, t)" "qsort_spec qsort" "wrts \<noteq> []" "tags_ok s out"
  shows "\<exists>tags. length tags = length wrts \<and>
    data_ops (new_calls s t) = map2 (local_half (mems s) ch) wrts tags \<and>
    distinct (zip (map (wrt_rank (mems s) ch) wrts) tags) \<and>
    (\<forall>(r, x) \<in> set (zip (map (wrt_rank (mems s) ch) wrts) tags). x \<notin> out r) \<and>
    distinct (map fst (ctrl_sent (new_calls s t))) \<and>
    fst ` set (ctrl_sent (new_calls s t)) = wrt_rank (mems s) ch ` set wrts \<and>
    (\<forall>(rb, m) \<in> set (ctrl_sent (new_calls s t)).
      cm_type m = (if once then execute_op_batch else create_op_batch) \<and>
      mset (map op_half (brings m)) = mset (halves_for rb (mems s) ch (mpi_rank (uru_mpi s)) wrts tags))"
proof -
  let ?me = "mpi_rank (uru_mpi s)" and ?rk = "wrt_rank (mems s) ch" and ?cs = "ctrl_sent (new_calls s t)"
  obtain sos ros ps v l l' where v: "create_wrts ch once wrts s = Inr (sos, ros, ps, v)" and m: "logs s l v" "new_calls s t = l @ l'"
    "data_ops l' = []" "distinct (map fst ?cs)" "fst ` set ?cs = op_rank ` set ros" and
    br: "\<And>rb m. (rb, m) \<in> set ?cs \<Longrightarrow> cm_type m = (if once then execute_op_batch else create_op_batch) \<and>
      mset (brings m) = mset (map (\<lambda>op. op\<lparr>op_rank := ?me\<rparr>) (filter (\<lambda>op. op_rank op = rb) ros))"
    by (rule create_messages [OF assms(1-3)]) (rule that)
  obtain k where k: "logs s k v" "length ros = length wrts" "data_ops k = map2 (local_half (mems s) ch) wrts (map op_tag ros)"
      "map (\<lambda>ro. op_half (ro\<lparr>op_rank := ?me\<rparr>)) ros = map2 (remote_half (mems s) ch ?me) wrts (map op_tag ros)"
      "map op_rank ros = map ?rk wrts"
    using create_wrts_pair [OF v, of ?me] by blast
  have "k = l" using logs_new [OF k(1)] logs_new [OF m(1)] by simp
  have z: "zip (map ?rk wrts) (map op_tag ros) = map (\<lambda>ro. (op_rank ro, op_tag ro)) ros"
    using k(2) unfolding k(5) [symmetric] by (simp add: zip_map_map zip_same_conv_map)
  have rks: "op_rank ` set ros = ?rk ` set wrts" using arg_cong [OF k(5), of set] by simp
  have hv: "mset (map op_half (brings x)) = mset (halves_for rb (mems s) ch ?me wrts (map op_tag ros))"
    if "(rb, x) \<in> set ?cs" for rb x
  proof -
    have "mset (brings x) = mset (map (\<lambda>op. op\<lparr>op_rank := ?me\<rparr>) (filter (\<lambda>op. op_rank op = rb) ros))" using br [OF that] by blast
    then have "mset (map op_half (brings x)) = mset (map op_half (map (\<lambda>op. op\<lparr>op_rank := ?me\<rparr>) (filter (\<lambda>op. op_rank op = rb) ros)))"
      by (metis mset_map)
    then show ?thesis using halves_for_ops [OF k(4,5,2)] by (simp add: comp_def)
  qed
  show ?thesis
  proof (intro exI [of _ "map op_tag ros"] conjI)
    show "distinct (zip (map ?rk wrts) (map op_tag ros))" "\<forall>(r, x) \<in> set (zip (map ?rk wrts) (map op_tag ros)). x \<notin> out r"
      using create_wrts_fresh [OF v assms(4)] unfolding z by auto
    show "distinct (map fst ?cs)" by (rule m(4))
    show "length (map op_tag ros) = length wrts" using k(2) by simp
    show "data_ops (new_calls s t) = map2 (local_half (mems s) ch) wrts (map op_tag ros)" using k(3) \<open>k = l\<close> m(2,3) by simp
    show "fst ` set ?cs = ?rk ` set wrts" using m(5) rks by simp
    show "\<forall>(rb, x) \<in> set ?cs. cm_type x = (if once then execute_op_batch else create_op_batch) \<and>
        mset (map op_half (brings x)) = mset (halves_for rb (mems s) ch ?me wrts (map op_tag ros))" using hv br by blast
  qed
qed

text \<open>With the tags distinct, the tag finds the partner.\<close>

lemma halves_partner:
  assumes "distinct (zip (map (wrt_rank m ch) wrts) tags)" "length tags = length wrts" "i < length wrts" "wrt_rank m ch (wrts ! i) = rb"
  shows "filter (\<lambda>d. d_tag d = tags ! i) (halves_for rb m ch me wrts tags) = [remote_half m ch me (wrts ! i) (tags ! i)]"
  using assms
proof (induction wrts arbitrary: tags i)
  case (Cons w wrts)
  obtain x xs where tags: "tags = x # xs" using Cons.prems(2) by (cases tags) auto
  have d: "distinct (zip (map (wrt_rank m ch) wrts) xs)" "(wrt_rank m ch w, x) \<notin> set (zip (map (wrt_rank m ch) wrts) xs)"
    using Cons.prems(1) by (simp_all add: tags)
  have len: "length xs = length wrts" using Cons.prems(2) by (simp add: tags)
  have el: "(wrt_rank m ch (wrts ! j), xs ! j) \<in> set (zip (map (wrt_rank m ch) wrts) xs)" if "j < length wrts" for j
    using that len by (auto simp: set_zip intro!: exI [of _ j])
  show ?case
  proof (cases i)
    case 0
    have "filter (\<lambda>d. d_tag d = x) (halves_for rb m ch me wrts xs) = []"
    proof -
      have "d_tag d \<noteq> x" if dm: "d \<in> set (halves_for rb m ch me wrts xs)" for d
      proof -
        obtain j where j: "j < length wrts" "wrt_rank m ch (wrts ! j) = rb" "d = remote_half m ch me (wrts ! j) (xs ! j)"
          using dm len by (auto simp: halves_for_def set_zip)
        have "xs ! j \<noteq> x" using el [OF j(1)] j(2) d(2) Cons.prems(4) 0 by auto
        then show ?thesis using j(3) by (simp add: remote_half_def)
      qed
      then show ?thesis by (simp add: filter_empty_conv)
    qed
    then show ?thesis using Cons.prems(4) 0 by (simp add: tags halves_for_def remote_half_def)
  next
    case (Suc j)
    then have j: "j < length wrts" "wrt_rank m ch (wrts ! j) = rb" using Cons.prems(3,4) by simp_all
    have "\<not> (wrt_rank m ch w = rb \<and> x = xs ! j)" using el [OF j(1)] j(2) d(2) by auto
    then show ?thesis using Cons.IH [OF d(1) len j] Suc by (auto simp: tags halves_for_def remote_half_def)
  qed
qed simp

text \<open>
  C4. The two ends of a transfer over MPI meet. Creating a plan asks MPI for one operation per write,
  with the address of the local block, and sends one message to every process it writes to and to no
  other. Whenever a receiver takes its message, it asks MPI for exactly the other halves of the writes
  to it: for each write there is one operation with its tag, and this has the address of the remote
  block, the same size, the opposite direction and this process as its peer. The tag is not one that an
  earlier operation between the two still uses.
\<close>

theorem mpi_halves_meet:
  assumes "uri_mpi_rdma_plan_create qsort ch once wrts s = Inr (p, s')" "qsort_spec qsort" "wrts \<noteq> []" "tags_ok s out"
    and "(rb, m) \<in> set (ctrl_sent (new_calls s s'))" "uri_mpi_process_ctrl_msg (mpi_rank (uru_mpi s)) m t = Inr t'"
  shows "distinct (map fst (ctrl_sent (new_calls s s'))) \<and>
    fst ` set (ctrl_sent (new_calls s s')) = wrt_rank (mems s) ch ` set wrts \<and>
    (\<exists>tags. length tags = length wrts \<and>
      data_ops (new_calls s s') = map2 (local_half (mems s) ch) wrts tags \<and>
      mset (data_ops (new_calls t t')) = mset (halves_for rb (mems s) ch (mpi_rank (uru_mpi s)) wrts tags) \<and>
      (\<forall>i < length wrts. wrt_rank (mems s) ch (wrts ! i) = rb \<longrightarrow> tags ! i \<notin> out rb \<and>
        filter_mset (\<lambda>d. d_tag d = tags ! i) (mset (data_ops (new_calls t t'))) =
          {#remote_half (mems s) ch (mpi_rank (uru_mpi s)) (wrts ! i) (tags ! i)#}))"
proof -
  let ?me = "mpi_rank (uru_mpi s)" and ?rk = "wrt_rank (mems s) ch"
  obtain tags where c: "length tags = length wrts" "data_ops (new_calls s s') = map2 (local_half (mems s) ch) wrts tags"
      "distinct (zip (map ?rk wrts) tags)" "\<forall>(r, x) \<in> set (zip (map ?rk wrts) tags). x \<notin> out r"
      "distinct (map fst (ctrl_sent (new_calls s s')))" "fst ` set (ctrl_sent (new_calls s s')) = ?rk ` set wrts"
      "\<forall>(rb, m) \<in> set (ctrl_sent (new_calls s s')). cm_type m = (if once then execute_op_batch else create_op_batch) \<and>
        mset (map op_half (brings m)) = mset (halves_for rb (mems s) ch ?me wrts tags)"
    using create_pairs [OF assms(1-4)] by blast
  obtain l where "logs t l t'" "data_ops l = map op_half (brings m)" using process_pair [OF assms(6)] by blast
  then have got: "mset (data_ops (new_calls t t')) = mset (halves_for rb (mems s) ch ?me wrts tags)"
    using c(7) assms(5) by (auto simp: logs_new)
  have "tags ! i \<notin> out rb \<and> filter_mset (\<lambda>d. d_tag d = tags ! i) (mset (data_ops (new_calls t t'))) =
      {#remote_half (mems s) ch ?me (wrts ! i) (tags ! i)#}" if i: "i < length wrts" "?rk (wrts ! i) = rb" for i
  proof
    have "(?rk (wrts ! i), tags ! i) \<in> set (zip (map ?rk wrts) tags)"
      using i(1) c(1) by (auto simp: set_zip intro!: exI [of _ i])
    then show "tags ! i \<notin> out rb" using c(4) i(2) by blast
    show "filter_mset (\<lambda>d. d_tag d = tags ! i) (mset (data_ops (new_calls t t'))) = {#remote_half (mems s) ch ?me (wrts ! i) (tags ! i)#}"
      using arg_cong [OF halves_partner [OF c(3,1) i, of ?me], of mset] unfolding got by simp
  qed
  then show ?thesis using c(1,2,5,6) got by blast
qed

text \<open>A receiver that has the number free takes the message.\<close>

lemma process_create_ok:
  assumes "cm_type m = create_op_batch" "cm_ops m = Some ops" "keep_ops ops" "0 \<le> src" "nat src < length (recv_batch t)"
    and "0 \<le> cm_batch_id m" "cm_batch_id m * 2 + 16 < 2 ^ 31" "slot src (cm_batch_id m) t = None"
  shows "\<exists>t'. uri_mpi_process_ctrl_msg src m t = Inr t'"
proof -
  obtain T where T: "grow_table src (cm_batch_id m) t = Inr (t\<lparr>recv_batch := T\<rparr>)" "length T = length (recv_batch t)"
      "table_range src (cm_batch_id m) (t\<lparr>recv_batch := T\<rparr>)" "\<And>i j. slot i j (t\<lparr>recv_batch := T\<rparr>) = slot i j t"
    using grow_table_ok [OF assms(4-7)] by metis
  have "batch_slot src (cm_batch_id m) (t\<lparr>recv_batch := T\<rparr>) = Inr None"
    using batch_slot_range [OF T(3)] T(4) assms(8) by simp
  moreover obtain ops' l where "recv_ops_init ops (t\<lparr>recv_batch := T\<rparr>) = Inr (ops', t\<lparr>recv_batch := T\<rparr>\<lparr>mpi_log := l\<rparr>)"
    using recv_ops_init_ok [OF assms(3)] by blast
  ultimately show ?thesis
    using assms(1,2,4,5) T(1) by (simp add: uri_mpi_process_ctrl_msg_def Let_def op_alloc_def)
qed

text \<open>The write of the other examples, with flags \<open>a\<close> and \<open>b\<close>.\<close>

definition noting :: "(addr \<Rightarrow> uru_flag_t option) \<Rightarrow> uri_mpi_state" where
  "noting F = rdma_example_state\<lparr>flags := F\<rparr>"

definition noting_wrt :: "addr \<Rightarrow> addr \<Rightarrow> uru_transfer_t \<times> uri_wrt" where
  "noting_wrt a b = (URU_TRANSFER_TYPE_DMA_PUT, example_wrt\<lparr>loc_flag_p := a, rmt_flag_p := b\<rparr>)"

lemma noting_plain: "noting (\<lambda>_. None) = rdma_example_state" "noting_wrt 0 0 = (URU_TRANSFER_TYPE_DMA_PUT, example_wrt)"
  by (simp_all add: noting_def rdma_example_state_def queue_example_state_def noting_wrt_def example_wrt_def)

lemma noting_simps:
  "uru_mpi (noting F) = example_mpi" "mems (noting F) = mems rdma_example_state"
  "mpi_tag (noting F) = [int_pool_init, int_pool_init]" "batch_id (noting F) = [int_pool_init, int_pool_init]"
  "arr_tail (noting F) = 4" "length (req_q (noting F)) = 5" "brk (noting F) = 5" "mpi_log (noting F) = []" "flags (noting F) = F"
  by (simp_all add: noting_def rdma_example_state_def queue_example_state_def)

lemma noting_tags: "tags_ok (noting F) (\<lambda>_. {})"
  using int_pool_init_inv [OF example_mpi_ok] by (simp add: tags_ok_def noting_simps nth_Cons')

lemma noting_rank: "wrt_rank (mems rdma_example_state) example_hdr (noting_wrt a b) = 0"
  using example_infos by (simp add: wrt_rank_def noting_wrt_def example_wrt_def)

lemma noting_plan:
  "\<exists>p t. uri_mpi_rdma_plan_create (sort_key op_rank) example_hdr False [noting_wrt a b] (noting F) = Inr (p, t) \<and>
    arr_tail t \<le> length (req_q t) \<and> flags t = F \<and> (\<exists>pl. mpi_plans t p = Some pl \<and> b_ops (pl_send_batch pl) \<noteq> 0)"
proof -
  have e: "mpi_rank example_mpi = 1" "mpi_size example_mpi = 2" by (simp_all add: example_mpi_def)
  show ?thesis using example_infos example_pool_get e
    by (auto simp: noting_simps noting_wrt_def uri_mpi_rdma_plan_create_def create_wrt_def get_tag_def op_types_def mpi_issue_def
        op_flag_defs example_wrt_def num_receiver_def announce_def get_batch_id_def send_ctrl_def op_alloc_def
        Let_def uri_mpi_req_que_app_def req_put_def op_load_def op_block_def)
qed

lemma example_create:
  obtains p s' m where "uri_mpi_rdma_plan_create (sort_key op_rank) example_hdr False [noting_wrt a b] (noting F) = Inr (p, s')"
    "arr_tail s' \<le> length (req_q s')" "flags s' = F" "\<exists>pl. mpi_plans s' p = Some pl \<and> b_ops (pl_send_batch pl) \<noteq> 0"
    "ctrl_sent (new_calls (noting F) s') = [(0, m)]" "cm_batch_id m = 3" "cm_type m = create_op_batch"
    "\<exists>ops. cm_ops m = Some ops \<and> keep_ops ops"
proof -
  obtain p s' where c: "uri_mpi_rdma_plan_create (sort_key op_rank) example_hdr False [noting_wrt a b] (noting F) = Inr (p, s')"
    "arr_tail s' \<le> length (req_q s')" "flags s' = F" "\<exists>pl. mpi_plans s' p = Some pl \<and> b_ops (pl_send_batch pl) \<noteq> 0"
    using noting_plan by blast
  have f: "distinct (map fst (ctrl_sent (new_calls (noting F) s')))"
      "fst ` set (ctrl_sent (new_calls (noting F) s')) = {0}"
      "\<forall>(rb, m) \<in> set (ctrl_sent (new_calls (noting F) s')). cm_type m = create_op_batch"
    using create_pairs [OF c(1) insort_spec _ noting_tags] noting_rank [of a b]
    by (auto simp: noting_simps simp del: set_map split: if_splits)
  have "length (ctrl_sent (new_calls (noting F) s')) = card {0 :: int}"
    using distinct_card [OF f(1)] f(2) by (metis length_map set_map)
  then obtain d m where m: "ctrl_sent (new_calls (noting F) s') = [(d, m)]"
    by (auto simp: length_Suc_conv)
  then have d: "d = 0" "cm_type m = create_op_batch" using f(2,3) by auto
  have "pools_agree (noting F) (\<lambda>_. (int_pool_init, {}))" by (auto simp: pools_agree_def noting_simps nth_Cons')
  then obtain Q where "legal (noting F) (\<lambda>_. (int_pool_init, {})) s' Q"
    using create_legal [OF c(1) insort_spec] by blast
  then have "sent example_mpi (\<lambda>_. (int_pool_init, {})) [(0, m)] Q"
    using m d by (auto simp: legal_def new_calls_def noting_simps)
  then obtain y where "sends example_mpi (int_pool_init, {}) m y" by (cases) auto
  then have "cm_batch_id m = 3 \<and> (\<exists>ops. cm_ops m = Some ops \<and> keep_ops ops)"
    by (rule sendsE) (use d(2) example_pool_get in auto)
  then show thesis using that c m d by blast
qed

theorem mpi_halves_meet_witness:
  "\<exists>p s' m t'. uri_mpi_rdma_plan_create (sort_key op_rank) example_hdr False
      [(URU_TRANSFER_TYPE_DMA_PUT, example_wrt)] rdma_example_state = Inr (p, s') \<and>
    uri_mpi_process_ctrl_msg 1 m queue_example_state = Inr t' \<and>
    map (\<lambda>d. (d_sends d, d_addr d, d_count d, d_peer d)) (data_ops (new_calls rdma_example_state s')) = [(True, 0x10060, 4000, 0)] \<and>
    map (\<lambda>d. (d_sends d, d_addr d, d_count d, d_peer d)) (data_ops (new_calls queue_example_state t')) = [(False, 0x50008, 4000, 1)]"
proof -
  obtain p s' m where c: "uri_mpi_rdma_plan_create (sort_key op_rank) example_hdr False
      [(URU_TRANSFER_TYPE_DMA_PUT, example_wrt)] rdma_example_state = Inr (p, s')"
    "ctrl_sent (new_calls rdma_example_state s') = [(0, m)]" "cm_batch_id m = 3" "cm_type m = create_op_batch"
    "\<exists>ops. cm_ops m = Some ops \<and> keep_ops ops"
    using example_create [of 0 0 "\<lambda>_. None", unfolded noting_plain] by metis
  have tags: "tags_ok rdma_example_state (\<lambda>_. {})" using noting_tags [of "\<lambda>_. None"] by (simp add: noting_plain)
  obtain ops where ops: "cm_ops m = Some ops" "keep_ops ops" using c(5) by blast
  obtain t' where t': "uri_mpi_process_ctrl_msg 1 m queue_example_state = Inr t'"
    using process_create_ok [OF c(4) ops, of 1 queue_example_state] c(3)
    by (auto simp: queue_example_state_def slot_def)
  have me: "mpi_rank (uru_mpi rdma_example_state) = 1"
    by (simp add: rdma_example_state_def queue_example_state_def example_mpi_def)
  note r = mpi_halves_meet [OF c(1) insort_spec _ tags, unfolded me c(2), OF _ _ t', of 0]
  obtain tags where tg: "length tags = 1"
      "data_ops (new_calls rdma_example_state s') =
        map2 (local_half (mems rdma_example_state) example_hdr) [(URU_TRANSFER_TYPE_DMA_PUT, example_wrt)] tags"
      "mset (data_ops (new_calls queue_example_state t')) =
        mset (halves_for 0 (mems rdma_example_state) example_hdr 1 [(URU_TRANSFER_TYPE_DMA_PUT, example_wrt)] tags)"
    using r by auto
  obtain x where x: "tags = [x]" using tg(1) by (auto simp: length_Suc_conv)
  have rk: "wrt_rank (mems rdma_example_state) example_hdr (URU_TRANSFER_TYPE_DMA_PUT, example_wrt) = 0"
    using example_infos by (simp add: wrt_rank_def example_wrt_def)
  have "data_ops (new_calls queue_example_state t') =
      [remote_half (mems rdma_example_state) example_hdr 1 (URU_TRANSFER_TYPE_DMA_PUT, example_wrt) x]"
    using tg(3) rk by (simp add: x halves_for_def mset_single_iff)
  then show ?thesis using c(1) t' tg(2) rk example_infos
    by (intro exI [of _ p] exI [of _ s'] exI [of _ m] exI [of _ t'])
      (simp add: x local_half_def remote_half_def side_addr_def example_wrt_def mpi_count_def i32_id)
qed

end
