(* ===== verification/Uri_Mpi_Start.thy ===== *)
theory Uri_Mpi_Start
  imports Uri_Mpi_Pair
begin

text \<open>
  Starting a plan on the MPI channel, seen from both ends: the persistent requests that the process and
  its receivers start are those of the two halves of every write, and when MPI completes them each side
  adds the write's number to its own flag.
\<close>

section \<open>Started operations\<close>

text \<open>
  The operations that the calls \<open>cs\<close> set in motion; \<open>log\<close> is the whole log, in which a persistent
  request is the position of the call that made it.
\<close>

fun started :: "mpi_call list \<Rightarrow> mpi_call list \<Rightarrow> data_op list" where
  "started log [] = []"
| "started log (c # cs) = (case c of
      MPI_Start r \<Rightarrow> if r < length log then data_ops [log ! r] else []
    | MPI_Isend a n r t \<Rightarrow> data_ops [c]
    | MPI_Irecv a n r t \<Rightarrow> data_ops [c]
    | _ \<Rightarrow> []) @ started log cs"

lemma started_append [simp]: "started log (xs @ ys) = started log xs @ started log ys"
  by (induction xs) simp_all

lemma started_requests:
  assumes "log = pre @ l @ post" "map req xs = [length pre..<length pre + length l]"
  shows "started log (map (\<lambda>x. MPI_Start (req x)) xs) = data_ops l"
  using assms
proof (induction xs arbitrary: pre l)
  case Nil
  then show ?case by (cases l) (simp_all add: upt_conv_Cons del: upt_Suc)
next
  case (Cons x xs)
  then obtain c l' where l: "l = c # l'" by (cases l) auto
  have r: "req x = length pre" "map req xs = [length (pre @ [c])..<length (pre @ [c]) + length l']"
    using Cons.prems(2) by (simp_all add: l upt_conv_Cons del: upt_Suc)
  have "started log (map (\<lambda>x. MPI_Start (req x)) xs) = data_ops l'"
    using Cons.IH [of "pre @ [c]" l'] Cons.prems(1) r(2) by (simp add: l del: upt_Suc)
  moreover have "log ! req x = c" "req x < length log" using Cons.prems(1) r(1) by (simp_all add: l)
  ultimately show ?case using data_ops_append [of "[c]" l'] by (simp add: l del: data_ops.simps)
qed

section \<open>The requests of a kept plan\<close>

lemma create_wrt_request:
  assumes "create_wrt ch False tw s = Inr (so, ro, ps, t)"
  shows "op_req so = length (mpi_log s) \<and> length (mpi_log t) = length (mpi_log s) + 1 \<and> ps = []"
proof -
  obtain ty w where tw: "tw = (ty, w)" by (cases tw)
  show ?thesis using assms
    by (auto simp: tw create_wrt_def Let_def mpi_issue_def get_tag_def split: if_splits)
qed

lemma create_wrts_requests:
  assumes "create_wrts ch False ws s = Inr (sos, ros, ps, t)"
  shows "map op_req sos = [length (mpi_log s)..<length (mpi_log s) + length ws] \<and>
    length (mpi_log t) = length (mpi_log s) + length ws \<and> ps = []"
  using assms
proof (induction ws arbitrary: s sos ros ps)
  case (Cons w ws)
  obtain so ro ps1 v sos' ros' ps2 where v: "create_wrt ch False w s = Inr (so, ro, ps1, v)"
    "create_wrts ch False ws v = Inr (sos', ros', ps2, t)" "sos = so # sos'" "ps = ps1 @ ps2"
    using Cons.prems by auto
  show ?case using create_wrt_request [OF v(1)] Cons.IH [OF v(2)] v(3,4)
    by (simp add: upt_conv_Cons del: upt_Suc)
qed simp

text \<open>The flag that an operation counts down and by how much, and those of a write on either side.\<close>

definition op_note :: "uri_mpi_op_t \<Rightarrow> addr \<times> u64" where
  "op_note op = (op_flag_p op, op_flag_add op)"

definition loc_note :: "uru_transfer_t \<times> uri_wrt \<Rightarrow> addr \<times> u64" where
  "loc_note tw = (loc_flag_p (snd tw), loc_flag_add (snd tw))"

definition rmt_note :: "uru_transfer_t \<times> uri_wrt \<Rightarrow> addr \<times> u64" where
  "rmt_note tw = (rmt_flag_p (snd tw), rmt_flag_add (snd tw))"

text \<open>Operations that belong to a batch stay where they are when they complete.\<close>

definition keeps :: "uri_mpi_op_t \<Rightarrow> bool" where
  "keeps op \<longleftrightarrow> op_flag op = KEEP_OP OR KEEP_REQ"

lemma keeps_flags:
  "keeps op \<Longrightarrow> op_flag op AND FREE_OP = 0 \<and> op_flag op AND FREE_ADDR = 0 \<and> op_flag op AND FREE_REQ = 0 \<and> op_flag op AND FREE_TAG = 0"
  by (simp add: keeps_def op_flag_defs)

lemma create_wrt_notes:
  assumes "create_wrt ch False tw s = Inr (so, ro, ps, t)"
  shows "op_note so = loc_note tw \<and> op_note ro = rmt_note tw \<and> keeps so \<and> keeps ro"
proof -
  obtain ty w where tw: "tw = (ty, w)" by (cases tw)
  show ?thesis using assms
    by (auto simp: tw create_wrt_def Let_def mpi_issue_def op_note_def loc_note_def rmt_note_def keeps_def zero_op_def split: if_splits)
qed

lemma create_wrts_notes:
  assumes "create_wrts ch False ws s = Inr (sos, ros, ps, t)"
  shows "map op_note sos = map loc_note ws \<and> map op_note ros = map rmt_note ws \<and> (\<forall>op \<in> set sos \<union> set ros. keeps op)"
  using assms
proof (induction ws arbitrary: s sos ros ps)
  case (Cons w ws)
  obtain so ro ps1 v sos' ros' ps2 where v: "create_wrt ch False w s = Inr (so, ro, ps1, v)"
    "create_wrts ch False ws v = Inr (sos', ros', ps2, t)" "sos = so # sos'" "ros = ro # ros'"
    using Cons.prems by auto
  show ?case using create_wrt_notes [OF v(1)] Cons.IH [OF v(2)] v(3,4) by auto
qed simp

text \<open>A plan that is kept, in the state where it was made.\<close>

lemma create_kept:
  assumes "uri_mpi_rdma_plan_create qsort ch False wrts s = Inr (p, t)" "qsort_spec qsort"
  shows "\<exists>pl sos l l'. mpi_plans t p = Some pl \<and> op_heap t (b_ops (pl_send_batch pl)) = Some sos \<and>
    new_calls s t = l @ l' \<and> mpi_log t = mpi_log s @ l @ l' \<and>
    map op_req sos = [length (mpi_log s)..<length (mpi_log s) + length l] \<and> data_ops l' = [] \<and>
    map op_note sos = map loc_note wrts \<and> (\<forall>op \<in> set sos. keeps op) \<and>
    (\<forall>a \<in> insert (b_ops (pl_send_batch pl)) (b_ops ` set (pl_recv_batch pl)). a < brk t) \<and>
    list_all2 (\<lambda>b (d, m). batch_rank b t = Inr d \<and> cm_batch_id m = b_batch_id b) (pl_recv_batch pl) (ctrl_sent (new_calls s t))"
proof -
  obtain sos ros ps v runs bs ps' w x where
    v: "create_wrts ch False wrts s = Inr (sos, ros, ps, v)" and
    runs: "recv_runs (num_receiver (qsort ros)) (qsort ros) = Inr runs" and
    w: "announce_all False runs v = Inr (bs, ps', w)" and
    x: "uri_mpi_req_que_app (ps @ ps') w = Inr x" and
    t: "p = brk x + 1" "t = x\<lparr>op_heap := (op_heap x)(brk x \<mapsto> sos), brk := brk x + 2,
      mpi_plans := (mpi_plans x)(p \<mapsto> \<lparr>pl_send_batch = \<lparr>b_batch_id = - 1, b_ops = brk x\<rparr>, pl_recv_batch = bs\<rparr>)\<rparr>"
    using assms(1) by (auto simp: uri_mpi_rdma_plan_create_def Let_def op_alloc_def)
  obtain l where l: "logs s l v" "ctrl_sent l = []" using create_wrts_pair [OF v, of 0] by blast
  obtain l' where l': "logs v l' w" "data_ops l' = []" "length bs = length runs"
      "ctrl_sent l' = map2 (batch_msg False (mpi_rank (uru_mpi v))) runs bs"
    using announce_all_pair [OF w] by blast
  note rq = create_wrts_requests [OF v]
  have len: "length l = length wrts" using rq l(1) by (simp add: logs_def)
  obtain q n where xq: "x = w\<lparr>req_q := q, arr_tail := n\<rparr>" using x by (rule que_app_frame)
  have log: "mpi_log t = mpi_log s @ l @ l'" using l(1) l'(1) by (simp add: logs_def t(2) xq)
  have sorted: "rank_sorted (qsort ros)" by (rule qsort_rank_sorted [OF assms(2)])
  note rd = recv_runs_distinct [OF sorted runs]
  let ?Q = "\<lambda>d. (batch_id v ! nat d, {})"
  have "set (qsort ros) = set ros" using assms(2) by (metis mset_eq_setD qsort_spec_def)
  then have "\<forall>run \<in> set runs. keep_ops run \<and> run \<noteq> []"
    using rd create_wrts_legal [OF v, of "\<lambda>d. (batch_id s ! nat d, {})"]
    unfolding keep_ops_def list_all_iff pools_agree_def by fastforce
  from announce_all_legal [OF w this, of ?Q] obtain Q' where
    Q': "plan_live w Q' bs (map (\<lambda>run. op_rank (hd run)) runs)"
    using rd by (auto simp: pools_agree_def)
  have lv: "list_all2 (\<lambda>b run. b_ops b < brk w \<and> batch_rank b w = Inr (op_rank (hd run))) bs runs"
    using Q' by (auto simp: plan_live_def list_all2_conv_all_nth batch_live_def)
  then have lt: "\<forall>b \<in> set bs. b_ops b < brk w" by (fastforce simp: list_all2_conv_all_nth in_set_conv_nth)
  have "list_all2 (\<lambda>b (d, m). batch_rank b t = Inr d \<and> cm_batch_id m = b_batch_id b) bs (ctrl_sent l')"
    unfolding l'(4)
  proof (rule list_all2_all_nthI)
    fix i
    assume i: "i < length bs"
    then have "b_ops (bs ! i) < brk w" "batch_rank (bs ! i) w = Inr (op_rank (hd (runs ! i)))"
      using lv by (auto simp: list_all2_conv_all_nth)
    moreover from this have "batch_rank (bs ! i) t = batch_rank (bs ! i) w"
      by (intro batch_rank_cong) (simp add: t(2) xq)
    ultimately show "case map2 (batch_msg False (mpi_rank (uru_mpi v))) runs bs ! i of
        (d, m) \<Rightarrow> batch_rank (bs ! i) t = Inr d \<and> cm_batch_id m = b_batch_id (bs ! i)"
      using i l'(3) by (simp add: batch_msg_def)
  qed (use l'(3) in simp)
  then have "list_all2 (\<lambda>b (d, m). batch_rank b t = Inr d \<and> cm_batch_id m = b_batch_id b) bs (ctrl_sent (new_calls s t))"
    using l(2) log by (simp add: new_calls_def)
  then show ?thesis using rq len l'(2) log create_wrts_notes [OF v] lt
    by (intro exI [of _ "\<lparr>pl_send_batch = \<lparr>b_batch_id = - 1, b_ops = brk x\<rparr>, pl_recv_batch = bs\<rparr>"] exI [of _ sos]
        exI [of _ l] exI [of _ l']) (auto simp: t(2) new_calls_def xq)
qed

section \<open>Starting it\<close>

definition start_msg :: "int \<Rightarrow> uri_mpi_ctrl_msg_t" where
  "start_msg bid = \<lparr>cm_type = start_op_batch, cm_batch_id = bid, cm_ops = None\<rparr>"

lemma batch_ranks_kept:
  assumes "list_all2 (\<lambda>b (d, m). batch_rank b s = Inr d \<and> cm_batch_id m = b_batch_id b) bs dms"
    and "\<forall>b \<in> set bs. op_heap t (b_ops b) = op_heap s (b_ops b)"
  shows "list_all2 (\<lambda>b (d, m). batch_rank b t = Inr d \<and> cm_batch_id m = b_batch_id b) bs dms"
  using assms(1)
proof (rule list.rel_mono_strong)
  fix b dm
  assume "b \<in> set bs" and b: "case dm of (d, m) \<Rightarrow> batch_rank b s = Inr d \<and> cm_batch_id m = b_batch_id b"
  then have "batch_rank b t = batch_rank b s" using assms(2) by (intro batch_rank_cong) blast
  then show "case dm of (d, m) \<Rightarrow> batch_rank b t = Inr d \<and> cm_batch_id m = b_batch_id b" using b by simp
qed

lemma start_all_sends:
  assumes "start_all bs s = Inr (ps, t)" "list_all2 (\<lambda>b (d, m). batch_rank b s = Inr d \<and> cm_batch_id m = b_batch_id b) bs dms"
    and "\<forall>b \<in> set bs. b_ops b < brk s"
  shows "\<exists>l. mpi_log t = mpi_log s @ l \<and> ctrl_sent l = map (\<lambda>(d, m). (d, start_msg (cm_batch_id m))) dms \<and>
    (\<forall>log. started log l = []) \<and> (\<forall>a < brk s. op_heap t a = op_heap s a) \<and> req_q t = req_q s \<and> arr_tail t = arr_tail s"
  using assms
proof (induction bs arbitrary: s ps dms)
  case Nil
  then show ?case by simp
next
  case (Cons b bs)
  obtain d m dms' where dms: "dms = (d, m) # dms'" "batch_rank b s = Inr d" "cm_batch_id m = b_batch_id b"
      "list_all2 (\<lambda>b (d, m). batch_rank b s = Inr d \<and> cm_batch_id m = b_batch_id b) bs dms'"
    using Cons.prems(2) by (auto simp: list_all2_Cons1)
  let ?m = "start_msg (b_batch_id b)"
  obtain p v where v: "send_ctrl d ?m s = (p, v)" by (cases "send_ctrl d ?m s")
  obtain ps' where t: "start_all bs v = Inr (ps', t)" using Cons.prems(1) dms(2) v by (auto simp: start_msg_def)
  note hp = send_ctrl_heap [OF v]
  have "list_all2 (\<lambda>b (d, m). batch_rank b v = Inr d \<and> cm_batch_id m = b_batch_id b) bs dms'"
    by (rule batch_ranks_kept [OF dms(4)]) (use Cons.prems(3) hp in auto)
  moreover have "\<forall>b \<in> set bs. b_ops b < brk v" using Cons.prems(3) hp by auto
  ultimately obtain l where l: "mpi_log t = mpi_log v @ l" "ctrl_sent l = map (\<lambda>(d, m). (d, start_msg (cm_batch_id m))) dms'"
      "\<forall>log. started log l = []" "\<forall>a < brk v. op_heap t a = op_heap v a" "req_q t = req_q v" "arr_tail t = arr_tail v"
    using Cons.IH [OF t] by blast
  have "mpi_log v = mpi_log s @ [MPI_Isend_ctrl d ?m]" "req_q v = req_q s" "arr_tail v = arr_tail s"
    using v by (auto simp: send_ctrl_eq)
  then show ?case using l hp dms(1,3) by (intro exI [of _ "MPI_Isend_ctrl d ?m # l"]) auto
qed

text \<open>
  Between making a plan and starting it a process may do whatever leaves the memory of the plan alone,
  and so may a receiver with the batch that it was sent.
\<close>

definition plan_kept :: "addr \<Rightarrow> ('z) uri_mpi_state_scheme \<Rightarrow> 'z uri_mpi_state_scheme \<Rightarrow> bool" where
  "plan_kept p s t \<longleftrightarrow> (\<exists>l. mpi_log t = mpi_log s @ l) \<and> mpi_plans t p = mpi_plans s p \<and>
     (\<forall>pl. mpi_plans s p = Some pl \<longrightarrow>
        (\<forall>a \<in> insert (b_ops (pl_send_batch pl)) (b_ops ` set (pl_recv_batch pl)). op_heap t a = op_heap s a \<and> a < brk t))"

definition batch_kept :: "int \<Rightarrow> int \<Rightarrow> ('z) uri_mpi_state_scheme \<Rightarrow> 'z uri_mpi_state_scheme \<Rightarrow> bool" where
  "batch_kept src bid s t \<longleftrightarrow> (\<exists>l. mpi_log t = mpi_log s @ l) \<and> slot src bid t = slot src bid s \<and>
     (\<forall>b. slot src bid s = Some b \<longrightarrow> op_heap t (b_ops b) = op_heap s (b_ops b))"

text \<open>The pointers that a started plan, or batch, leaves in the request queue.\<close>

definition plan_ptrs :: "addr \<Rightarrow> ('z) uri_mpi_state_scheme \<Rightarrow> op_ptr list" where
  "plan_ptrs p s = (case mpi_plans s p of None \<Rightarrow> [] | Some pl \<Rightarrow>
     (case op_heap s (b_ops (pl_send_batch pl)) of None \<Rightarrow> [] | Some ops \<Rightarrow> block_ptrs (b_ops (pl_send_batch pl)) ops))"

definition batch_ptrs :: "int \<Rightarrow> int \<Rightarrow> ('z) uri_mpi_state_scheme \<Rightarrow> op_ptr list" where
  "batch_ptrs src bid s = (case slot src bid s of None \<Rightarrow> [] | Some b \<Rightarrow>
     (case op_heap s (b_ops b) of None \<Rightarrow> [] | Some ops \<Rightarrow> block_ptrs (b_ops b) ops))"

lemma req_put_waiting:
  "req_put p s = Inr t \<Longrightarrow> arr_tail t = arr_tail s + 1 \<and> length (req_q t) = length (req_q s) \<and>
     map snd (waiting t) = map snd (waiting s) @ [p]"
  by (auto simp: req_put_def waiting_def take_Suc_conv_app_nth split: if_splits)

lemma req_puts_waiting: "fold_res req_put ps s = Inr t \<Longrightarrow> map snd (waiting t) = map snd (waiting s) @ ps"
proof (induction ps arbitrary: s)
  case (Cons p ps)
  then obtain u where "req_put p s = Inr u" "fold_res req_put ps u = Inr t" by auto
  then show ?case using Cons.IH req_put_waiting by fastforce
qed simp

lemma que_app_waiting:
  assumes "uri_mpi_req_que_app ps s = Inr t" "arr_tail s \<le> length (req_q s)"
  shows "map snd (waiting t) = map snd (waiting s) @ ps"
proof -
  let ?s = "if length (req_q s) < arr_tail s + length ps
    then s\<lparr>req_q := req_q s @ replicate ((arr_tail s + length ps) * 2 - length (req_q s)) (0, (0, 0))\<rparr> else s"
  have "fold_res req_put ps ?s = Inr t" using assms(1) by (simp add: uri_mpi_req_que_app_def Let_def)
  from req_puts_waiting [OF this] show ?thesis using assms(2) by (simp add: waiting_def)
qed

lemma start_pair:
  assumes "uri_mpi_rdma_plan_create qsort ch False wrts s = Inr (p, s1)" "qsort_spec qsort"
    and "plan_kept p s1 s2" "uri_mpi_rdma_plan_start ch p s2 = Inr (st, s3)"
  shows "ctrl_sent (new_calls s2 s3) = map (\<lambda>(d, m). (d, start_msg (cm_batch_id m))) (ctrl_sent (new_calls s s1)) \<and>
    started (mpi_log s3) (new_calls s2 s3) = data_ops (new_calls s s1) \<and>
    (arr_tail s2 \<le> length (req_q s2) \<longrightarrow> (\<exists>cs. map snd (waiting s3) = map snd (waiting s2) @ cs @ plan_ptrs p s2))"
proof -
  obtain pl sos l l' where c: "mpi_plans s1 p = Some pl" "op_heap s1 (b_ops (pl_send_batch pl)) = Some sos"
      "new_calls s s1 = l @ l'" "mpi_log s1 = mpi_log s @ l @ l'"
      "map op_req sos = [length (mpi_log s)..<length (mpi_log s) + length l]" "data_ops l' = []"
      "list_all2 (\<lambda>b (d, m). batch_rank b s1 = Inr d \<and> cm_batch_id m = b_batch_id b) (pl_recv_batch pl) (ctrl_sent (new_calls s s1))"
    using create_kept [OF assms(1,2)] by blast
  obtain l2 where l2: "mpi_log s2 = mpi_log s1 @ l2" and pl: "mpi_plans s2 p = Some pl"
    and sb: "op_heap s2 (b_ops (pl_send_batch pl)) = Some sos" "b_ops (pl_send_batch pl) < brk s2"
    and rb: "\<forall>b \<in> set (pl_recv_batch pl). op_heap s2 (b_ops b) = op_heap s1 (b_ops b) \<and> b_ops b < brk s2"
    using assms(3) c(1,2) unfolding plan_kept_def by auto
  obtain ps v sos' where v: "start_all (pl_recv_batch pl) s2 = Inr (ps, v)" and so: "op_block (b_ops (pl_send_batch pl)) v = Inr sos'"
    and x: "uri_mpi_req_que_app (ps @ block_ptrs (b_ops (pl_send_batch pl)) sos')
      (issue_all (\<lambda>op. MPI_Start (op_req op)) sos' v) = Inr s3"
    using assms(4) pl by (auto simp: uri_mpi_rdma_plan_start_def load_plan_def)
  have "list_all2 (\<lambda>b (d, m). batch_rank b s2 = Inr d \<and> cm_batch_id m = b_batch_id b) (pl_recv_batch pl) (ctrl_sent (new_calls s s1))"
    by (rule batch_ranks_kept [OF c(7)]) (use rb in blast)
  from start_all_sends [OF v this] obtain k where k: "mpi_log v = mpi_log s2 @ k"
      "ctrl_sent k = map (\<lambda>(d, m). (d, start_msg (cm_batch_id m))) (ctrl_sent (new_calls s s1))"
      "\<And>log. started log k = []" "\<forall>a < brk s2. op_heap v a = op_heap s2 a" "req_q v = req_q s2" "arr_tail v = arr_tail s2"
    using rb by blast
  have "sos' = sos" using so sb k(4) by (simp add: op_block_def)
  obtain q n where "s3 = issue_all (\<lambda>op. MPI_Start (op_req op)) sos' v\<lparr>req_q := q, arr_tail := n\<rparr>"
    using x by (rule que_app_frame)
  then have log: "mpi_log s3 = mpi_log s2 @ k @ map (\<lambda>op. MPI_Start (op_req op)) sos"
    using k(1) \<open>sos' = sos\<close> by (simp add: issue_all_def)
  have "started (mpi_log s3) (map (\<lambda>op. MPI_Start (op_req op)) sos) = data_ops l"
    by (rule started_requests [where pre = "mpi_log s" and post = "l' @ l2 @ k @ map (\<lambda>op. MPI_Start (op_req op)) sos"])
      (use log l2 c(4,5) in simp_all)
  moreover have "map snd (waiting s3) = map snd (waiting s2) @ ps @ plan_ptrs p s2" if "arr_tail s2 \<le> length (req_q s2)"
    using que_app_waiting [OF x] that k(5,6) pl sb(1) \<open>sos' = sos\<close>
    by (simp add: waiting_def issue_all_def plan_ptrs_def)
  ultimately show ?thesis using k log c(3,6) by (auto simp: new_calls_def ctrl_sent_noctrl)
qed

text \<open>The receiver's side.\<close>

lemma receive_kept:
  assumes "uri_mpi_process_ctrl_msg src m t = Inr t1" "cm_type m = create_op_batch"
  shows "\<exists>b ops l. slot src (cm_batch_id m) t1 = Some b \<and> op_heap t1 (b_ops b) = Some ops \<and> b_ops b = brk t \<and>
    mpi_log t1 = mpi_log t @ l \<and> map op_req ops = [length (mpi_log t)..<length (mpi_log t) + length l] \<and>
    map op_half ops = map op_half (brings m) \<and> map op_flag_p ops = map op_flag_p (brings m) \<and>
    map op_flag_add ops = map op_flag_add (brings m) \<and> map op_flag ops = map op_flag (brings m)"
proof -
  obtain ops v ops' w where o: "cm_ops m = Some ops" "grow_table src (cm_batch_id m) t = Inr v"
    "recv_ops_init ops v = Inr (ops', w)"
    and t1: "t1 = set_slot src (cm_batch_id m) (Some \<lparr>b_batch_id = cm_batch_id m, b_ops = brk w\<rparr>)
       (w\<lparr>op_heap := (op_heap w)(brk w \<mapsto> ops'), brk := brk w + 1\<rparr>)"
    and r: "table_range src (cm_batch_id m) v"
    using process_create [OF assms] by metis
  obtain l where l: "logs v l w" "length l = length ops" "map op_half ops' = map op_half ops"
      "map op_req ops' = [length (mpi_log v)..<length (mpi_log v) + length ops]"
      "map op_flag_p ops' = map op_flag_p ops" "map op_flag_add ops' = map op_flag_add ops" "recv_batch w = recv_batch v" "map op_flag ops' = map op_flag ops"
      "brk w = brk v"
    using recv_ops_init_pair [OF o(3)] by blast
  have "table_range src (cm_batch_id m) (w\<lparr>op_heap := (op_heap w)(brk w \<mapsto> ops'), brk := brk w + 1\<rparr>)"
    using r l(7) by (simp add: table_range_def)
  then have "slot src (cm_batch_id m) t1 = Some \<lparr>b_batch_id = cm_batch_id m, b_ops = brk w\<rparr>"
    by (simp add: t1)
  moreover have "brings m = ops" using o(1) assms(2) by (simp add: brings_def)
  ultimately show ?thesis using l grow_logs [OF o(2)]
    by (intro exI [of _ "\<lparr>b_batch_id = cm_batch_id m, b_ops = brk w\<rparr>"] exI [of _ ops'] exI [of _ l])
      (simp add: t1 logs_def set_slot_def)
qed

lemma process_start:
  assumes "uri_mpi_process_ctrl_msg src (start_msg bid) t = Inr t'" "slot src bid t = Some b" "op_heap t (b_ops b) = Some ops"
  shows "uri_mpi_req_que_app (block_ptrs (b_ops b) ops) (issue_all (\<lambda>op. MPI_Start (op_req op)) ops t) = Inr t'"
  using assms batch_slot_range [OF slot_range [OF assms(2)]]
  by (auto simp: uri_mpi_process_ctrl_msg_def start_msg_def Let_def op_block_def split: if_splits)

lemma receive_start:
  assumes "uri_mpi_process_ctrl_msg src m t = Inr t1" "cm_type m = create_op_batch" "batch_kept src (cm_batch_id m) t1 t2"
    and "uri_mpi_process_ctrl_msg src (start_msg (cm_batch_id m)) t2 = Inr t3"
  shows "started (mpi_log t3) (new_calls t2 t3) = data_ops (new_calls t t1) \<and>
    (arr_tail t2 \<le> length (req_q t2) \<longrightarrow> map snd (waiting t3) = map snd (waiting t2) @ batch_ptrs src (cm_batch_id m) t2)"
proof -
  obtain b ops l where b: "slot src (cm_batch_id m) t1 = Some b" "op_heap t1 (b_ops b) = Some ops"
      "mpi_log t1 = mpi_log t @ l" "map op_req ops = [length (mpi_log t)..<length (mpi_log t) + length l]"
    using receive_kept [OF assms(1,2)] by blast
  obtain l2 where l2: "mpi_log t2 = mpi_log t1 @ l2" and b2: "slot src (cm_batch_id m) t2 = Some b" "op_heap t2 (b_ops b) = Some ops"
    using assms(3) b(1,2) by (auto simp: batch_kept_def)
  obtain q n where "t3 = issue_all (\<lambda>op. MPI_Start (op_req op)) ops t2\<lparr>req_q := q, arr_tail := n\<rparr>"
    using process_start [OF assms(4) b2] by (rule que_app_frame)
  then have log: "mpi_log t3 = mpi_log t2 @ map (\<lambda>op. MPI_Start (op_req op)) ops" by (simp add: issue_all_def)
  have "started (mpi_log t3) (map (\<lambda>op. MPI_Start (op_req op)) ops) = data_ops l"
    by (rule started_requests [where pre = "mpi_log t" and post = "l2 @ map (\<lambda>op. MPI_Start (op_req op)) ops"])
      (use log l2 b(3,4) in simp_all)
  moreover have "map snd (waiting t3) = map snd (waiting t2) @ batch_ptrs src (cm_batch_id m) t2" if "arr_tail t2 \<le> length (req_q t2)"
    using que_app_waiting [OF process_start [OF assms(4) b2]] that b2
    by (simp add: waiting_def issue_all_def batch_ptrs_def)
  ultimately show ?thesis using log b(3) by (simp add: new_calls_def)
qed

section \<open>Completion\<close>

definition flag_value :: "addr \<Rightarrow> ('z) uru_state_scheme \<Rightarrow> u64 option" where
  "flag_value f s = map_option counter (flags s f)"

text \<open>What a collection of notes adds to the flag \<open>f\<close>.\<close>

definition noted :: "addr \<Rightarrow> (addr \<times> u64) multiset \<Rightarrow> u64" where
  "noted f N = sum_mset (image_mset snd (filter_mset (\<lambda>n. fst n = f) N))"

lemma noted_simps [simp]:
  "noted f {#} = 0" "noted f (add_mset n N) = (if fst n = f then snd n else 0) + noted f N" "noted f (N + M) = noted f N + noted f M"
  by (simp_all add: noted_def)

lemma complete_kept:
  assumes "complete_op p s = Inr t" "op_load p s = Inr op" "keeps op"
  shows "mpi_flag_event (op_flag_p op) (op_flag_add op) s = Inr t"
  using assms keeps_flags [OF assms(3)]
  by (auto simp: complete_op_def release_addr_def release_req_def release_tag_def release_op_def uru_assert_def split: if_splits)

lemma flag_event_value:
  assumes "mpi_flag_event p x s = Inr t" "f \<noteq> 0"
  shows "flag_value f t = map_option (\<lambda>c. c + noted f {#(p, x)#}) (flag_value f s)"
proof (cases "p = 0")
  case True
  then show ?thesis using assms by (cases "flag_value f s") (simp_all add: mpi_flag_event_def)
next
  case False
  then obtain g where g: "flags s p = Some g" "flags t = (flags s)(p \<mapsto> g\<lparr>counter := counter g + x\<rparr>)"
    using assms(1) by (auto simp: mpi_flag_event_def Let_def uru_assert_def queue_push_at_def split: option.splits if_splits)
  then show ?thesis by (cases "flag_value f s") (auto simp: flag_value_def)
qed

lemma op_load_cong_heap: "op_heap t = op_heap s \<Longrightarrow> op_load p t = op_load p s"
  by (simp add: op_load_def op_block_def)

lemma complete_all_kept:
  assumes "fold_res complete_op ps s = Inr t" "list_all2 (\<lambda>p op. op_load p s = Inr op \<and> keeps op) ps ops" "f \<noteq> 0"
  shows "flag_value f t = map_option (\<lambda>c. c + noted f (mset (map op_note ops))) (flag_value f s)"
  using assms(1,2)
proof (induction ps arbitrary: s ops)
  case Nil
  then show ?case by (cases "flag_value f s") simp_all
next
  case (Cons p ps)
  obtain op ops' where ops: "ops = op # ops'" "op_load p s = Inr op" "keeps op"
      "list_all2 (\<lambda>p op. op_load p s = Inr op \<and> keeps op) ps ops'"
    using Cons.prems(2) by (auto simp: list_all2_Cons1)
  obtain u where u: "complete_op p s = Inr u" "fold_res complete_op ps u = Inr t" using Cons.prems(1) by auto
  have ev: "mpi_flag_event (op_flag_p op) (op_flag_add op) s = Inr u" by (rule complete_kept [OF u(1) ops(2,3)])
  then have "op_heap u = op_heap s" by (rule mpi_flag_event_frame) simp
  then have "op_load q u = op_load q s" for q by (rule op_load_cong_heap)
  then have "list_all2 (\<lambda>p op. op_load p u = Inr op \<and> keeps op) ps ops'" using ops(4) by simp
  from Cons.IH [OF u(2) this] flag_event_value [OF ev assms(3)] show ?case
    by (cases "flag_value f s") (simp_all add: ops(1) op_note_def)
qed

text \<open>The operations of a block complete in any order.\<close>

lemma complete_block:
  assumes "fold_res complete_op ps s = Inr t" "mset ps = mset (block_ptrs a ops)" "op_heap s a = Some ops"
    and "\<forall>op \<in> set ops. keeps op" "f \<noteq> 0"
  shows "flag_value f t = map_option (\<lambda>c. c + noted f (mset (map op_note ops))) (flag_value f s)"
proof -
  let ?g = "\<lambda>p. ops ! snd p"
  have "set ps = set (block_ptrs a ops)" using assms(2) by (rule mset_eq_setD)
  then have ptr: "\<exists>j < length ops. p = (a, j)" if "p \<in> set ps" for p using that by (auto simp: block_ptrs_def)
  have "list_all2 (\<lambda>p op. op_load p s = Inr op \<and> keeps op) ps (map ?g ps)"
  proof (rule list_all2_all_nthI)
    fix i
    assume "i < length ps"
    moreover from ptr [OF nth_mem [OF this]] obtain j where "j < length ops" "ps ! i = (a, j)" by blast
    ultimately show "op_load (ps ! i) s = Inr (map ?g ps ! i) \<and> keeps (map ?g ps ! i)"
      using assms(3,4) by (simp add: op_load_def op_block_def)
  qed simp
  note c = complete_all_kept [OF assms(1) this assms(5)]
  have "mset (map ?g ps) = mset (map ?g (block_ptrs a ops))" using assms(2) by simp
  also have "map ?g (block_ptrs a ops) = ops" by (simp add: block_ptrs_def comp_def map_nth)
  finally have "mset (map op_note (map ?g ps)) = mset (map op_note ops)" by (metis mset_map)
  then show ?thesis using c by metis
qed

section \<open>The notes of a plan\<close>

text \<open>The notes that a message brings are those of the writes to its receiver.\<close>

lemma message_notes:
  assumes "uri_mpi_rdma_plan_create qsort ch False wrts s = Inr (p, t)" "qsort_spec qsort" "wrts \<noteq> []"
    and "(rb, m) \<in> set (ctrl_sent (new_calls s t))"
  shows "cm_type m = create_op_batch \<and> (\<forall>op \<in> set (brings m). keeps op) \<and>
    mset (map op_note (brings m)) = mset (map rmt_note (filter (\<lambda>tw. wrt_rank (mems s) ch tw = rb) wrts))"
proof -
  let ?me = "mpi_rank (uru_mpi s)" and ?rk = "wrt_rank (mems s) ch"
  obtain sos ros ps v where v: "create_wrts ch False wrts s = Inr (sos, ros, ps, v)" and
    br: "cm_type m = create_op_batch" "mset (brings m) = mset (map (\<lambda>op. op\<lparr>op_rank := ?me\<rparr>) (filter (\<lambda>op. op_rank op = rb) ros))"
  proof (rule create_messages [OF assms(1-3)])
    fix sos ros ps v
    assume v: "create_wrts ch False wrts s = Inr (sos, ros, ps, v)" and
      br: "\<And>rb m. (rb, m) \<in> set (ctrl_sent (new_calls s t)) \<Longrightarrow> cm_type m = (if False then execute_op_batch else create_op_batch) \<and>
        mset (brings m) = mset (map (\<lambda>op. op\<lparr>op_rank := ?me\<rparr>) (filter (\<lambda>op. op_rank op = rb) ros))"
    show thesis using that [OF v] br [OF assms(4)] by simp
  qed
  have n: "map op_note ros = map rmt_note wrts" "\<forall>op \<in> set ros. keeps op" using create_wrts_notes [OF v] by auto
  have rk: "map op_rank ros = map ?rk wrts" using create_wrts_pair [OF v] by blast
  have "map op_note (filter (\<lambda>op. op_rank op = rb) ros) = map rmt_note (filter (\<lambda>tw. ?rk tw = rb) wrts)"
    using n(1) rk
  proof (induction ros arbitrary: wrts)
    case (Cons ro ros)
    then obtain w ws where "wrts = w # ws" by (cases wrts) auto
    then show ?case using Cons by simp
  qed simp
  moreover have "op_note (op\<lparr>op_rank := ?me\<rparr>) = op_note op" for op by (simp add: op_note_def)
  ultimately have "mset (map op_note (brings m)) = mset (map rmt_note (filter (\<lambda>tw. ?rk tw = rb) wrts))"
    using arg_cong [OF br(2), of "image_mset op_note"] by (simp add: comp_def flip: mset_map)
  moreover have "\<forall>op \<in> set (brings m). keeps op"
    using mset_eq_setD [OF br(2)] n(2) by (auto simp: keeps_def)
  ultimately show ?thesis using br(1) by blast
qed

section \<open>Properties\<close>

text \<open>
  C5. Starting a plan runs both halves of every write of it. Whatever the process did since it made
  the plan, and the receiver since it took the message, as long as they left its memory alone: the
  process starts the requests of all its halves and sends one start message for every batch that it
  had announced; the receiver, on that message, starts the requests of all its halves. All of them
  then wait in the request queue to be completed.
\<close>

theorem mpi_start_runs_both_halves:
  assumes "uri_mpi_rdma_plan_create qsort ch False wrts s = Inr (p, s1)" "qsort_spec qsort" "wrts \<noteq> []"
    and "plan_kept p s1 s2" "uri_mpi_rdma_plan_start ch p s2 = Inr (st, s3)" "arr_tail s2 \<le> length (req_q s2)"
    and "(rb, m) \<in> set (ctrl_sent (new_calls s s1))" "uri_mpi_process_ctrl_msg src m t = Inr t1"
    and "batch_kept src (cm_batch_id m) t1 t2" "uri_mpi_process_ctrl_msg src (start_msg (cm_batch_id m)) t2 = Inr t3"
    and "arr_tail t2 \<le> length (req_q t2)"
  shows "started (mpi_log s3) (new_calls s2 s3) = data_ops (new_calls s s1) \<and>
    ctrl_sent (new_calls s2 s3) = map (\<lambda>(d, m). (d, start_msg (cm_batch_id m))) (ctrl_sent (new_calls s s1)) \<and>
    started (mpi_log t3) (new_calls t2 t3) = data_ops (new_calls t t1) \<and>
    (\<exists>cs. map snd (waiting s3) = map snd (waiting s2) @ cs @ plan_ptrs p s2) \<and>
    map snd (waiting t3) = map snd (waiting t2) @ batch_ptrs src (cm_batch_id m) t2"
proof -
  have "cm_type m = create_op_batch" using message_notes [OF assms(1-3,7)] by blast
  from receive_start [OF assms(8) this assms(9,10)] show ?thesis
    using start_pair [OF assms(1,2,4,5)] assms(6,11) by blast
qed

text \<open>
  C6. Both sides are notified. When MPI has completed the operations of a started plan, in any order,
  each flag of the process has moved by exactly the sum of what the plan's writes add to it locally;
  and each flag of a receiver, when the batch there is complete, by the sum of what the writes to this
  receiver add to it remotely.
\<close>

theorem mpi_notifies_both_sides:
  assumes "uri_mpi_rdma_plan_create qsort ch False wrts s = Inr (p, s1)" "qsort_spec qsort" "wrts \<noteq> []"
    and "plan_kept p s1 s2" "mset ps = mset (plan_ptrs p s2)" "fold_res complete_op ps s2 = Inr s3"
    and "(rb, m) \<in> set (ctrl_sent (new_calls s s1))" "uri_mpi_process_ctrl_msg src m t = Inr t1"
    and "batch_kept src (cm_batch_id m) t1 t2" "mset qs = mset (batch_ptrs src (cm_batch_id m) t2)"
    and "fold_res complete_op qs t2 = Inr t3" "f \<noteq> 0"
  shows "flag_value f s3 = map_option (\<lambda>c. c + noted f (mset (map loc_note wrts))) (flag_value f s2) \<and>
    flag_value f t3 = map_option (\<lambda>c. c + noted f (mset (map rmt_note (filter (\<lambda>tw. wrt_rank (mems s) ch tw = rb) wrts))))
      (flag_value f t2)"
proof
  obtain pl sos where c: "mpi_plans s1 p = Some pl" "op_heap s1 (b_ops (pl_send_batch pl)) = Some sos"
      "map op_note sos = map loc_note wrts" "\<forall>op \<in> set sos. keeps op"
    using create_kept [OF assms(1,2)] by blast
  have pl: "mpi_plans s2 p = Some pl" "op_heap s2 (b_ops (pl_send_batch pl)) = Some sos"
    using assms(4) c(1,2) unfolding plan_kept_def by auto
  have "mset ps = mset (block_ptrs (b_ops (pl_send_batch pl)) sos)" using assms(5) pl by (simp add: plan_ptrs_def)
  from complete_block [OF assms(6) this pl(2) c(4) assms(12)]
  show "flag_value f s3 = map_option (\<lambda>c. c + noted f (mset (map loc_note wrts))) (flag_value f s2)" unfolding c(3) .
next
  note n = message_notes [OF assms(1-3,7)]
  obtain b ops where b: "slot src (cm_batch_id m) t1 = Some b" "op_heap t1 (b_ops b) = Some ops"
      "map op_flag_p ops = map op_flag_p (brings m)" "map op_flag_add ops = map op_flag_add (brings m)" "map op_flag ops = map op_flag (brings m)"
    using receive_kept [OF assms(8)] n by blast
  have b2: "slot src (cm_batch_id m) t2 = Some b" "op_heap t2 (b_ops b) = Some ops"
    using assms(9) b(1,2) by (auto simp: batch_kept_def)
  have nt: "map op_note ops = map op_note (brings m)"
    using b(3,4) unfolding op_note_def by (simp add: list_eq_iff_nth_eq)
  have "op_flag ` set ops = op_flag ` set (brings m)" using arg_cong [OF b(5), of set] by simp
  moreover have "op_flag ` set (brings m) \<subseteq> {KEEP_OP OR KEEP_REQ}" using n by (auto simp: keeps_def)
  ultimately have "\<forall>op \<in> set ops. keeps op" unfolding keeps_def by blast
  moreover have "mset qs = mset (block_ptrs (b_ops b) ops)" using assms(10) b2 by (simp add: batch_ptrs_def)
  ultimately show "flag_value f t3 = map_option (\<lambda>c. c + noted f (mset (map rmt_note
      (filter (\<lambda>tw. wrt_rank (mems s) ch tw = rb) wrts)))) (flag_value f t2)"
    using complete_block [OF assms(11) _ b2(2) _ assms(12)] n unfolding nt by simp
qed

section \<open>Witnesses\<close>

lemma plan_kept_refl:
  assumes "uri_mpi_rdma_plan_create qsort ch False wrts s = Inr (p, t)" "qsort_spec qsort"
  shows "plan_kept p t t"
  using create_kept [OF assms] by (auto simp: plan_kept_def)

lemma batch_kept_refl: "batch_kept src bid t t"
  by (auto simp: batch_kept_def)

lemma process_start_ok:
  assumes "slot src bid t = Some b" "op_heap t (b_ops b) = Some ops"
  shows "\<exists>t'. uri_mpi_process_ctrl_msg src (start_msg bid) t = Inr t'"
proof -
  let ?t = "issue_all (\<lambda>op. MPI_Start (op_req op)) ops t"
  have "\<forall>p \<in> set (block_ptrs (b_ops b) ops). \<exists>op. op_load p ?t = Inr op"
    using assms(2) by (auto simp: block_ptrs_def op_load_def op_block_def issue_all_def)
  then obtain q where "uri_mpi_req_que_app (block_ptrs (b_ops b) ops) ?t =
      Inr (?t\<lparr>req_q := q, arr_tail := arr_tail ?t + length (block_ptrs (b_ops b) ops)\<rparr>)"
    using req_que_app_ok by blast
  moreover have "table_range src bid t" by (rule slot_range [OF assms(1)])
  ultimately show ?thesis using assms batch_slot_range [of src bid t]
    by (auto simp: uri_mpi_process_ctrl_msg_def start_msg_def Let_def op_block_def table_range_def)
qed

lemma process_create_queue:
  assumes "uri_mpi_process_ctrl_msg src m t = Inr t1" "cm_type m = create_op_batch"
  shows "req_q t1 = req_q t \<and> arr_tail t1 = arr_tail t \<and> flags t1 = flags t"
proof -
  obtain ops v ops' w where o: "grow_table src (cm_batch_id m) t = Inr v" "recv_ops_init ops v = Inr (ops', w)"
    and t1: "t1 = set_slot src (cm_batch_id m) (Some \<lparr>b_batch_id = cm_batch_id m, b_ops = brk w\<rparr>)
       (w\<lparr>op_heap := (op_heap w)(brk w \<mapsto> ops'), brk := brk w + 1\<rparr>)"
    using process_create [OF assms] by metis
  have "req_q v = req_q t \<and> arr_tail v = arr_tail t \<and> flags v = flags t" using o(1) by (auto simp: grow_table_def Let_def split: if_splits)
  then show ?thesis using recv_ops_init_pair [OF o(2)] by (auto simp: t1 set_slot_def)
qed

theorem mpi_start_runs_both_halves_witness:
  "\<exists>p s1 st s3 m t1 t3. uri_mpi_rdma_plan_create (sort_key op_rank) example_hdr False
      [(URU_TRANSFER_TYPE_DMA_PUT, example_wrt)] rdma_example_state = Inr (p, s1) \<and>
    uri_mpi_rdma_plan_start example_hdr p s1 = Inr (st, s3) \<and>
    uri_mpi_process_ctrl_msg 1 m queue_example_state = Inr t1 \<and>
    uri_mpi_process_ctrl_msg 1 (start_msg 3) t1 = Inr t3 \<and>
    ctrl_sent (new_calls s1 s3) = [(0, start_msg 3)] \<and>
    started (mpi_log s3) (new_calls s1 s3) = data_ops (new_calls rdma_example_state s1) \<and>
    started (mpi_log t3) (new_calls t1 t3) = data_ops (new_calls queue_example_state t1)"
proof -
  obtain p s1 m where c: "uri_mpi_rdma_plan_create (sort_key op_rank) example_hdr False
      [(URU_TRANSFER_TYPE_DMA_PUT, example_wrt)] rdma_example_state = Inr (p, s1)"
    and q: "arr_tail s1 \<le> length (req_q s1)"
    and c2: "ctrl_sent (new_calls rdma_example_state s1) = [(0, m)]" "cm_batch_id m = 3" "cm_type m = create_op_batch"
    "\<exists>ops. cm_ops m = Some ops \<and> keep_ops ops"
    using example_create [of 0 0 "\<lambda>_. None", unfolded noting_plain] by metis
  note c = c c2
  obtain s3 where s3: "uri_mpi_rdma_plan_start example_hdr p s1 = Inr (URU_STATUS_OK, s3)" using example_plan c(1) by auto
  obtain ops where ops: "cm_ops m = Some ops" "keep_ops ops" using c(5) by blast
  obtain t1 where t1: "uri_mpi_process_ctrl_msg 1 m queue_example_state = Inr t1"
    using process_create_ok [OF c(4) ops, of 1 queue_example_state] c(3) by (auto simp: queue_example_state_def slot_def)
  obtain b ops' where b: "slot 1 3 t1 = Some b" "op_heap t1 (b_ops b) = Some ops'"
    using receive_kept [OF t1 c(4)] c(3) by auto
  obtain t3 where t3: "uri_mpi_process_ctrl_msg 1 (start_msg 3) t1 = Inr t3" using process_start_ok [OF b] by blast
  have q': "arr_tail t1 \<le> length (req_q t1)"
    using process_create_queue [OF t1 c(4)] by (simp add: queue_example_state_def)
  have m: "(0, m) \<in> set (ctrl_sent (new_calls rdma_example_state s1))" using c(2) by simp
  show ?thesis
    using mpi_start_runs_both_halves [OF c(1) insort_spec _ plan_kept_refl [OF c(1) insort_spec] s3 q m t1 batch_kept_refl _ q',
        unfolded c(2,3), OF _ t3] c(1,3) s3 t1 t3
    by (intro exI [of _ p] exI [of _ s1] exI [of _ URU_STATUS_OK] exI [of _ s3] exI [of _ m] exI [of _ t1] exI [of _ t3]) simp
qed

lemma complete_kept_ok:
  assumes "mpi_flag_event (op_flag_p op) (op_flag_add op) s = Inr t" "op_load p s = Inr op" "keeps op" "fst p \<noteq> 0"
  shows "complete_op p s = Inr t"
  using assms(1,2,4) keeps_flags [OF assms(3)]
  by (simp add: complete_op_def release_addr_def release_req_def release_tag_def release_op_def)

text \<open>A local flag that stands at two and a remote one that stands at one, each counted down once.\<close>

definition counting :: "addr \<Rightarrow> u64 \<Rightarrow> addr \<Rightarrow> uru_flag_t option" where
  "counting p c = [p \<mapsto> zero_flag\<lparr>counter := c\<rparr>]"

lemma complete_counting:
  assumes "flags s = counting p c" "0 \<le> sint (c - 1)" "p \<noteq> 0" "op_heap s a = Some [op]" "keeps op" "op_note op = (p, - 1)" "a \<noteq> 0"
  shows "\<exists>t. fold_res complete_op (block_ptrs a [op]) s = Inr t"
proof -
  have "\<exists>t. mpi_flag_event (op_flag_p op) (op_flag_add op) s = Inr t"
    using assms(1-3,6) by (simp add: mpi_flag_event_def counting_def op_note_def Let_def zero_flag_def)
  then show ?thesis using complete_kept_ok [of op s _ "(a, 0)"] assms(4,5,7)
    by (auto simp: block_ptrs_def op_load_def op_block_def)
qed

theorem mpi_notifies_both_sides_witness:
  "\<exists>p s1 s3 m t1 t3. uri_mpi_rdma_plan_create (sort_key op_rank) example_hdr False [noting_wrt 24 48] (noting (counting 24 2)) = Inr (p, s1) \<and>
    uri_mpi_process_ctrl_msg 1 m (noting (counting 48 1)) = Inr t1 \<and>
    fold_res complete_op (plan_ptrs p s1) s1 = Inr s3 \<and> fold_res complete_op (batch_ptrs 1 3 t1) t1 = Inr t3 \<and>
    flag_value 24 s3 = Some 1 \<and> flag_value 48 t3 = Some 0"
proof -
  obtain p s1 m where c: "uri_mpi_rdma_plan_create (sort_key op_rank) example_hdr False [noting_wrt 24 48] (noting (counting 24 2)) = Inr (p, s1)"
    "flags s1 = counting 24 2" "\<exists>pl. mpi_plans s1 p = Some pl \<and> b_ops (pl_send_batch pl) \<noteq> 0" "ctrl_sent (new_calls (noting (counting 24 2)) s1) = [(0, m)]" "cm_batch_id m = 3" "cm_type m = create_op_batch"
    "\<exists>ops. cm_ops m = Some ops \<and> keep_ops ops"
    using example_create [of 24 48 "counting 24 2"] by metis
  have m: "(0, m) \<in> set (ctrl_sent (new_calls (noting (counting 24 2)) s1))" using c(4) by simp
  obtain ops where ops: "cm_ops m = Some ops" "keep_ops ops" using c(7) by blast
  obtain t1 where t1: "uri_mpi_process_ctrl_msg 1 m (noting (counting 48 1)) = Inr t1"
    using process_create_ok [OF c(6) ops, of 1 "noting (counting 48 1)"] c(5)
    by (auto simp: noting_def rdma_example_state_def queue_example_state_def slot_def)
  obtain pl sos where pl: "mpi_plans s1 p = Some pl" "op_heap s1 (b_ops (pl_send_batch pl)) = Some sos"
      "map op_note sos = map loc_note [noting_wrt 24 48]" "\<forall>op \<in> set sos. keeps op"
    using create_kept [OF c(1) insort_spec] by blast
  obtain op where op: "sos = [op]" "op_note op = (24, - 1)" "keeps op"
    using pl(3,4) by (auto simp: loc_note_def noting_wrt_def example_wrt_def)
  have ptrs: "plan_ptrs p s1 = block_ptrs (b_ops (pl_send_batch pl)) [op]" using pl(1,2) op(1) by (simp add: plan_ptrs_def)
  obtain s3 where s3: "fold_res complete_op (plan_ptrs p s1) s1 = Inr s3"
    using complete_counting [OF c(2), of "b_ops (pl_send_batch pl)" op] c(3) pl(1,2) op unfolding ptrs by auto
  note n = message_notes [OF c(1) insort_spec _ m]
  obtain b bops where b: "slot 1 3 t1 = Some b" "op_heap t1 (b_ops b) = Some bops" "b_ops b = brk (noting (counting 48 1))"
      "map op_flag_p bops = map op_flag_p (brings m)" "map op_flag_add bops = map op_flag_add (brings m)" "map op_flag bops = map op_flag (brings m)"
    using receive_kept [OF t1 c(6)] c(5) by auto
  have "mset (map op_note (brings m)) = mset (map rmt_note [noting_wrt 24 48])"
    using n noting_rank [of 24 48] by (simp add: noting_simps)
  also have "\<dots> = {#(48, - 1)#}" by (simp add: rmt_note_def noting_wrt_def example_wrt_def)
  finally have bn: "map op_note (brings m) = [(48, - 1)]" by (simp only: mset_single_iff)
  then obtain bo where bo: "brings m = [bo]" "op_note bo = (48, - 1)" by auto
  then obtain bop where bop: "bops = [bop]" "op_note bop = (48, - 1)" "keeps bop"
    using b(4-6) n by (auto simp: op_note_def keeps_def)
  have ptrs': "batch_ptrs 1 3 t1 = block_ptrs (b_ops b) [bop]" using b(1,2) bop(1) by (simp add: batch_ptrs_def)
  have fl: "flags t1 = counting 48 1" using process_create_queue [OF t1 c(6)] by (simp add: noting_simps)
  obtain t3 where t3: "fold_res complete_op (batch_ptrs 1 3 t1) t1 = Inr t3"
    using complete_counting [OF fl, of "b_ops b" bop] b(2,3) bop unfolding ptrs' by (auto simp: noting_simps)
  have r: "flag_value f s3 = map_option (\<lambda>c. c + noted f (mset (map loc_note [noting_wrt 24 48]))) (flag_value f s1) \<and>
      flag_value f t3 = map_option (\<lambda>c. c + noted f (mset (map rmt_note (filter (\<lambda>tw. wrt_rank (mems (noting (counting 24 2))) example_hdr tw = 0)
        [noting_wrt 24 48])))) (flag_value f t1)" if "f \<noteq> 0" for f
    by (rule mpi_notifies_both_sides [OF c(1) insort_spec _ plan_kept_refl [OF c(1) insort_spec] refl s3 m t1 batch_kept_refl refl
          t3 [folded c(5)] that]) simp
  have "flag_value 24 s3 = Some 1" "flag_value 48 t3 = Some 0"
    using r [of 24] r [of 48] c(2) fl noting_rank [of 24 48]
    by (simp_all add: flag_value_def counting_def zero_flag_def noting_simps loc_note_def rmt_note_def noting_wrt_def example_wrt_def)
  then show ?thesis using c(1) t1 s3 t3 by blast
qed

end
