(* ===== verification/Uri_Verbs.thy ===== *)
theory Uri_Verbs
  imports Uri_Base
begin

text \<open>
  The Verbs channel module, \<open>src/uri/verbs\<close>: work requests with immediate data that name the flags
  to count down, flow control on the send queues, the completion daemon, memory registration,
  opening the device and connecting the queue pairs.

  The Verbs library is outside: posted requests and queue pair transitions are logged, what the library
  returns for them is a function in the state, and completions and device attributes are arguments.
\<close>

unbundle bit_operations_syntax

section \<open>Work requests and completions\<close>

definition VERBS_PORT_NUM :: nat where "VERBS_PORT_NUM = 1"
definition VERBS_OUTSTANDING_SEND_REQUESTS :: int where "VERBS_OUTSTANDING_SEND_REQUESTS = 256"
definition VERBS_MAX_INLINE_DATA :: u64 where "VERBS_MAX_INLINE_DATA = 96"

datatype ibv_wr_opcode = IBV_WR_RDMA_WRITE | IBV_WR_RDMA_WRITE_WITH_IMM | IBV_WR_RDMA_READ

text \<open>
  A send request with its one scatter element, if it has one. \<open>wrid_imm\<close> and \<open>wrid_rmt_imm\<close> are the
  two halves of \<open>wr_id\<close> (\<open>verbs_wrid_protocol_s\<close>).
\<close>

record ibv_sge =
  sg_addr :: u64
  sg_length :: u32
  sg_lkey :: u32

record ibv_send_wr =
  opcode :: ibv_wr_opcode
  wrid_imm :: u32
  wrid_rmt_imm :: u32
  sge :: "ibv_sge option"
  remote_addr :: u64
  wr_rkey :: u32
  imm_data :: u32
  send_inline :: bool
  send_signaled :: bool

datatype ibv_wc_opcode = IBV_WC_RDMA_WRITE | IBV_WC_RECV_RDMA_WITH_IMM | IBV_WC_RDMA_READ | IBV_WC_OTHER

record ibv_wc =
  wc_success :: bool
  wc_opcode :: ibv_wc_opcode
  wc_qp_num :: nat
  wc_wrid_imm :: u32
  wc_wrid_rmt_imm :: u32
  wc_imm_data :: u32

text \<open>
  \<open>struct ibv_qp_attr\<close>, the fields that the code sets, and the bits of \<open>attr_mask\<close>.
\<close>

datatype ibv_qp_state = IBV_QPS_RESET | IBV_QPS_INIT | IBV_QPS_RTR | IBV_QPS_RTS

datatype ibv_qp_mask =
    IBV_QP_STATE | IBV_QP_PKEY_INDEX | IBV_QP_PORT | IBV_QP_ACCESS_FLAGS | IBV_QP_AV | IBV_QP_PATH_MTU
  | IBV_QP_DEST_QPN | IBV_QP_RQ_PSN | IBV_QP_MAX_DEST_RD_ATOMIC | IBV_QP_MIN_RNR_TIMER | IBV_QP_TIMEOUT
  | IBV_QP_RETRY_CNT | IBV_QP_RNR_RETRY | IBV_QP_SQ_PSN | IBV_QP_MAX_QP_RD_ATOMIC

record ibv_ah_attr =
  ah_is_global :: nat
  ah_dlid :: nat
  ah_port_num :: nat
  grh_dgid :: nat
  grh_flow_label :: nat
  grh_hop_limit :: nat
  grh_sgid_index :: int
  grh_traffic_class :: nat

record ibv_qp_attr =
  qp_state :: ibv_qp_state
  port_num :: nat
  remote_access :: bool
  path_mtu :: int
  dest_qp_num :: nat
  max_dest_rd_atomic :: nat
  min_rnr_timer :: nat
  ah_attr :: ibv_ah_attr
  qp_timeout :: nat
  retry_cnt :: nat
  rnr_retry :: nat
  max_rd_atomic :: nat

definition zero_qp_attr :: ibv_qp_attr where
  "zero_qp_attr = \<lparr>qp_state = IBV_QPS_RESET, port_num = 0, remote_access = False, path_mtu = 0, dest_qp_num = 0,
     max_dest_rd_atomic = 0, min_rnr_timer = 0,
     ah_attr = \<lparr>ah_is_global = 0, ah_dlid = 0, ah_port_num = 0, grh_dgid = 0, grh_flow_label = 0,
       grh_hop_limit = 0, grh_sgid_index = 0, grh_traffic_class = 0\<rparr>,
     qp_timeout = 0, retry_cnt = 0, rnr_retry = 0, max_rd_atomic = 0\<rparr>"

datatype verbs_call =
    ibv_post_send int ibv_send_wr
  | ibv_post_srq_recv nat
  | ibv_modify_qp nat ibv_qp_attr "ibv_qp_mask list"

section \<open>The state of the module\<close>

record uri_verbs_mem_t =
  vm_lkey :: u32
  vm_rkey :: u32

record uri_verbs_plan_t =
  vp_wr :: "(int \<times> ibv_send_wr) list"

text \<open>
  \<open>qp2rank\<close> is the table of \<open>2 ^ 24\<close> entries; an entry not set holds \<open>0xFFFFFFFF\<close>. \<open>verbs_answer\<close> is the
  Verbs library: the code that a call returns after the calls before it.
\<close>

record uri_verbs_state = uri_state +
  verbs_mems :: "addr \<Rightarrow> uri_verbs_mem_t option"
  max_cqe :: nat
  max_srq_wr :: nat
  qp_list :: "nat list"
  qp2rank :: "nat \<Rightarrow> u32"
  req_submit :: "u64 list"
  req_finish :: "u64 list"
  verbs_plans :: "addr \<Rightarrow> uri_verbs_plan_t option"
  v_brk :: addr
  verbs_log :: "verbs_call list"
  verbs_answer :: "verbs_call list \<Rightarrow> verbs_call \<Rightarrow> int"

definition verbs_issue :: "verbs_call \<Rightarrow> ('z) uri_verbs_state_scheme \<Rightarrow> 'z uri_verbs_state_scheme" where
  "verbs_issue c s = s\<lparr>verbs_log := verbs_log s @ [c]\<rparr>"

text \<open>A failed call ends the process with exit status zero.\<close>

definition verbs_check :: "int \<Rightarrow> 'a res \<Rightarrow> 'a res" where
  "verbs_check error_code k = (if error_code \<noteq> 0 then Inl (ExitCode 0) else k)"

definition verbs_try :: "verbs_call \<Rightarrow> ('z) uri_verbs_state_scheme \<Rightarrow> 'z uri_verbs_state_scheme res" where
  "verbs_try c s = verbs_check (verbs_answer s (verbs_log s) c) (Inr (verbs_issue c s))"

lemma verbs_check_Inr [simp]: "verbs_check e k = Inr x \<longleftrightarrow> e = 0 \<and> k = Inr x"
  by (simp add: verbs_check_def)

lemma verbs_try_Inr [simp]: "verbs_try c s = Inr t \<longleftrightarrow> verbs_answer s (verbs_log s) c = 0 \<and> t = verbs_issue c s"
  by (auto simp: verbs_try_def)

section \<open>Events\<close>

text \<open>The index of a flag in the pool of the process it belongs to.\<close>

definition uri_verbs_event_fill :: "int \<Rightarrow> addr \<Rightarrow> u64 \<Rightarrow> ('z) uri_verbs_state_scheme \<Rightarrow> u32 res" where
  "uri_verbs_event_fill dst_rank flag_p add_num s =
     uru_assert (add_num = - 1)
     (uru_assert (0 \<le> dst_rank \<and> dst_rank < mpi_size (uru_mpi s))
       (case flag_pool s of
          None \<Rightarrow> Inl NullDeref
        | Some fp \<Rightarrow>
            if length (fp_rmt_base fp) \<le> nat dst_rank then Inl OutOfBounds
            else let base = fp_rmt_base fp ! nat dst_rank in
              uru_assert (base \<le> flag_p \<and> flag_p < flag_at base (unat (fp_size fp)))
                (Inr (of_nat ((flag_p - base) div sizeof_flag)))))"

section \<open>Plans\<close>

definition wr_opcode :: "uru_transfer_t \<Rightarrow> ibv_wr_opcode res" where
  "wr_opcode t = (case t of
       URU_TRANSFER_TYPE_DMA_PUT \<Rightarrow> Inr IBV_WR_RDMA_WRITE
     | URU_TRANSFER_TYPE_DMA_GET \<Rightarrow> Inr IBV_WR_RDMA_READ
     | URU_TRANSFER_TYPE_UNKNOWN \<Rightarrow> Inl (Exit URU_VERBS_ERROR_EXIT))"

text \<open>
  The loop of \<open>uri_verbs_rdma_plan_create\<close>: the request without events (lines 54 to 77), the event of
  the sender in the work request id, and the remote event, as immediate data or, for a read, in
  the work request id.
\<close>

definition verbs_base_wr ::
  "ibv_wr_opcode \<Rightarrow> u64 \<Rightarrow> u64 \<Rightarrow> uri_verbs_mem_t \<Rightarrow> uri_verbs_mem_t \<Rightarrow> uri_wrt \<Rightarrow> ibv_send_wr" where
  "verbs_base_wr op loc_buf_addr rmt_buf_addr lm rm w =
     \<lparr>opcode = op, wrid_imm = 0, wrid_rmt_imm = 0,
      sge = Some \<lparr>sg_addr = loc_buf_addr + loc_offset w, sg_length = ucast (dma_size w), sg_lkey = vm_lkey lm\<rparr>,
      remote_addr = rmt_buf_addr + rmt_offset w, wr_rkey = vm_rkey rm, imm_data = 0,
      send_inline = (VERBS_MAX_INLINE_DATA \<ge> dma_size w \<and> op = IBV_WR_RDMA_WRITE), send_signaled = True\<rparr>"

definition verbs_loc_event ::
  "int \<Rightarrow> uri_wrt \<Rightarrow> ('z) uri_verbs_state_scheme \<Rightarrow> ibv_send_wr \<Rightarrow> ibv_send_wr res" where
  "verbs_loc_event src_rank w s wr =
     (if loc_flag_p w = 0 then Inr wr
      else res_bind (uri_verbs_event_fill src_rank (loc_flag_p w) (loc_flag_add w) s)
        (\<lambda>e. Inr (wr\<lparr>wrid_imm := e\<rparr>)))"

definition verbs_rmt_event ::
  "int \<Rightarrow> uri_wrt \<Rightarrow> ('z) uri_verbs_state_scheme \<Rightarrow> ibv_send_wr \<Rightarrow> ibv_send_wr res" where
  "verbs_rmt_event dst_rank w s wr =
     (if rmt_flag_p w = 0 then Inr wr
      else if opcode wr = IBV_WR_RDMA_WRITE
      then res_bind (uri_verbs_event_fill dst_rank (rmt_flag_p w) (rmt_flag_add w) s)
        (\<lambda>e. Inr (wr\<lparr>opcode := IBV_WR_RDMA_WRITE_WITH_IMM, imm_data := e\<rparr>))
      else res_bind (uri_verbs_event_fill dst_rank (rmt_flag_p w) (rmt_flag_add w) s)
        (\<lambda>e. Inr (wr\<lparr>send_signaled := True, wrid_rmt_imm := e\<rparr>)))"

text \<open>The body of the loop: the target rank and the request.\<close>

definition verbs_create_wr ::
  "uri_channel_hdr \<Rightarrow> uru_transfer_t \<times> uri_wrt \<Rightarrow> ('z) uri_verbs_state_scheme \<Rightarrow> (int \<times> ibv_send_wr) res" where
  "verbs_create_wr ch tw s = (case tw of (t, w) \<Rightarrow>
     res_bind (uri_mem_get_info (mems s) ch (loc_mem w)) (\<lambda>(loc_buf_addr, loc_mem_size, src_rank).
     res_bind (uri_mem_get_info (mems s) ch (rmt_mem w)) (\<lambda>(rmt_buf_addr, rmt_mem_size, dst_rank).
     res_bind (wr_opcode t) (\<lambda>op.
     case (verbs_mems s (loc_mem w), verbs_mems s (rmt_mem w)) of
       (Some lm, Some rm) \<Rightarrow>
         res_bind (verbs_loc_event src_rank w s (verbs_base_wr op loc_buf_addr rmt_buf_addr lm rm w)) (\<lambda>wr.
         res_bind (verbs_rmt_event dst_rank w s wr) (\<lambda>wr. Inr (dst_rank, wr)))
     | _ \<Rightarrow> Inl OutOfBounds))))"

fun verbs_create_wrs ::
  "uri_channel_hdr \<Rightarrow> (uru_transfer_t \<times> uri_wrt) list \<Rightarrow> ('z) uri_verbs_state_scheme \<Rightarrow> (int \<times> ibv_send_wr) list res" where
  "verbs_create_wrs ch [] s = Inr []"
| "verbs_create_wrs ch (w # ws) s =
     res_bind (verbs_create_wr ch w s) (\<lambda>wr. res_bind (verbs_create_wrs ch ws s) (\<lambda>wrs. Inr (wr # wrs)))"

section \<open>Posting\<close>

text \<open>
  The counters of one target, read as \<open>int64_t\<close>: the test that keeps the sender waiting and the
  assertion before it.
\<close>

definition qp_in_range :: "int \<Rightarrow> ('z) uri_verbs_state_scheme \<Rightarrow> bool" where
  "qp_in_range dst_rank s \<longleftrightarrow> 0 \<le> dst_rank \<and> nat dst_rank < length (req_submit s) \<and>
     nat dst_rank < length (req_finish s) \<and> nat dst_rank < length (qp_list s)"

definition qp_outstanding :: "int \<Rightarrow> ('z) uri_verbs_state_scheme \<Rightarrow> u64" where
  "qp_outstanding dst_rank s = req_submit s ! nat dst_rank - req_finish s ! nat dst_rank"

definition qp_full :: "int \<Rightarrow> ('z) uri_verbs_state_scheme \<Rightarrow> bool" where
  "qp_full dst_rank s \<longleftrightarrow> sint (qp_outstanding dst_rank s) > VERBS_OUTSTANDING_SEND_REQUESTS - 1"

definition submit_ge_finish :: "int \<Rightarrow> ('z) uri_verbs_state_scheme \<Rightarrow> bool" where
  "submit_ge_finish dst_rank s \<longleftrightarrow> sint (req_submit s ! nat dst_rank) \<ge> sint (req_finish s ! nat dst_rank)"

text \<open>
  The wait for room: \<open>progress\<close> lists what the daemon thread does between the polls of the loop,
  up to the ten seconds after which the process gives up.
\<close>

fun wait_room ::
  "(('z) uri_verbs_state_scheme \<Rightarrow> 'z uri_verbs_state_scheme) list \<Rightarrow> int \<Rightarrow> 'z uri_verbs_state_scheme \<Rightarrow>
   'z uri_verbs_state_scheme res" where
  "wait_room [] dst_rank s =
     (if qp_full dst_rank s then uru_assert (submit_ge_finish dst_rank s) (Inl (Exit URU_ERROR_EXIT)) else Inr s)"
| "wait_room (d # ds) dst_rank s =
     (if qp_full dst_rank s then uru_assert (submit_ge_finish dst_rank s) (wait_room ds dst_rank (d s)) else Inr s)"

definition verbs_posted :: "int \<Rightarrow> ibv_send_wr \<Rightarrow> ('z) uri_verbs_state_scheme \<Rightarrow> 'z uri_verbs_state_scheme" where
  "verbs_posted dst_rank wr s =
     (let s = verbs_issue (ibv_post_send dst_rank wr) s; i = nat dst_rank in
      s\<lparr>req_submit := (req_submit s)[i := req_submit s ! i +
        (if opcode wr = IBV_WR_RDMA_READ \<and> wrid_rmt_imm wr \<noteq> 0 then 2 else 1)]\<rparr>)"

definition verbs_post :: "int \<Rightarrow> ibv_send_wr \<Rightarrow> ('z) uri_verbs_state_scheme \<Rightarrow> 'z uri_verbs_state_scheme res" where
  "verbs_post dst_rank wr s =
     verbs_check (verbs_answer s (verbs_log s) (ibv_post_send dst_rank wr)) (Inr (verbs_posted dst_rank wr s))"

fun verbs_start_wrs ::
  "(nat \<Rightarrow> (('z) uri_verbs_state_scheme \<Rightarrow> 'z uri_verbs_state_scheme) list) \<Rightarrow> nat \<Rightarrow> (int \<times> ibv_send_wr) list \<Rightarrow>
   'z uri_verbs_state_scheme \<Rightarrow> 'z uri_verbs_state_scheme res" where
  "verbs_start_wrs progress i [] s = Inr s"
| "verbs_start_wrs progress i ((dst_rank, wr) # wrs) s =
     (if \<not> qp_in_range dst_rank s then Inl OutOfBounds
      else uru_assert (submit_ge_finish dst_rank s)
        (res_bind (wait_room (progress i) dst_rank s) (\<lambda>s.
         res_bind (verbs_post dst_rank wr s) (\<lambda>s. verbs_start_wrs progress (i + 1) wrs s))))"

definition uri_verbs_rdma_plan_start ::
  "(nat \<Rightarrow> (('z) uri_verbs_state_scheme \<Rightarrow> 'z uri_verbs_state_scheme) list) \<Rightarrow> uri_channel_hdr \<Rightarrow> addr \<Rightarrow>
   'z uri_verbs_state_scheme \<Rightarrow> (uru_status_t \<times> 'z uri_verbs_state_scheme) res" where
  "uri_verbs_rdma_plan_start progress ch plan_p s =
     (case verbs_plans s plan_p of
        None \<Rightarrow> Inl UseAfterFree
      | Some pl \<Rightarrow> res_bind (verbs_start_wrs progress 0 (vp_wr pl) s) (\<lambda>s. Inr (URU_STATUS_OK, s)))"

definition uri_verbs_rdma_plan_destroy ::
  "uri_channel_hdr \<Rightarrow> addr \<Rightarrow> ('z) uri_verbs_state_scheme \<Rightarrow> (uru_status_t \<times> 'z uri_verbs_state_scheme) res" where
  "uri_verbs_rdma_plan_destroy ch plan_p s =
     (case verbs_plans s plan_p of
        None \<Rightarrow> Inl UseAfterFree
      | Some pl \<Rightarrow> Inr (URU_STATUS_OK, s\<lparr>verbs_plans := (verbs_plans s)(plan_p := None)\<rparr>))"

definition uri_verbs_rdma_plan_create ::
  "(nat \<Rightarrow> (('z) uri_verbs_state_scheme \<Rightarrow> 'z uri_verbs_state_scheme) list) \<Rightarrow> uri_channel_hdr \<Rightarrow> bool \<Rightarrow>
   (uru_transfer_t \<times> uri_wrt) list \<Rightarrow> 'z uri_verbs_state_scheme \<Rightarrow> (addr \<times> 'z uri_verbs_state_scheme) res" where
  "uri_verbs_rdma_plan_create progress ch once_now wrts s =
     res_bind (verbs_create_wrs ch wrts s) (\<lambda>wrs.
     let plan_p = v_brk s; s = s\<lparr>v_brk := v_brk s + 1, verbs_plans := (verbs_plans s)(plan_p \<mapsto> \<lparr>vp_wr = wrs\<rparr>)\<rparr> in
     if once_now then
       res_bind (uri_verbs_rdma_plan_start progress ch plan_p s) (\<lambda>(_, s).
       res_bind (uri_verbs_rdma_plan_destroy ch plan_p s) (\<lambda>(_, s). Inr (plan_p, s)))
     else Inr (plan_p, s))"

section \<open>The daemon\<close>

text \<open>The message that tells the target of a read that it is done.\<close>

definition rmt_complete_wr :: "u32 \<Rightarrow> ibv_send_wr" where
  "rmt_complete_wr rmt_imm = \<lparr>opcode = IBV_WR_RDMA_WRITE_WITH_IMM, wrid_imm = 0, wrid_rmt_imm = 0, sge = None,
     remote_addr = 0, wr_rkey = 0, imm_data = rmt_imm, send_inline = False, send_signaled = True\<rparr>"

definition uri_verbs_send_rmt_complete ::
  "int \<Rightarrow> u32 \<Rightarrow> ('z) uri_verbs_state_scheme \<Rightarrow> 'z uri_verbs_state_scheme res" where
  "uri_verbs_send_rmt_complete dst_rank rmt_imm s =
     (if rmt_imm = 0 then Inr s else verbs_try (ibv_post_send dst_rank (rmt_complete_wr rmt_imm)) s)"

definition req_finished :: "nat \<Rightarrow> ('z) uri_verbs_state_scheme \<Rightarrow> (int \<times> 'z uri_verbs_state_scheme) res" where
  "req_finished qp_num s =
     (if 2 ^ 24 \<le> qp_num then Inl OutOfBounds
      else let dst_rank = unat (qp2rank s qp_num) in
        if length (req_finish s) \<le> dst_rank then Inl OutOfBounds
        else Inr (int dst_rank, s\<lparr>req_finish := (req_finish s)[dst_rank := req_finish s ! dst_rank + 1]\<rparr>))"

text \<open>One completion; the number says whether it used up a receive request.\<close>

definition process_wc :: "ibv_wc \<Rightarrow> ('z) uri_verbs_state_scheme \<Rightarrow> (nat \<times> 'z uri_verbs_state_scheme) res" where
  "process_wc wc s =
     (if \<not> wc_success wc then Inl (Exit URU_ERROR_EXIT)
      else case wc_opcode wc of
        IBV_WC_RDMA_WRITE \<Rightarrow>
          res_bind (req_finished (wc_qp_num wc) s) (\<lambda>(dst_rank, s).
          res_bind (uri_verbs_event_progress (wc_wrid_imm wc) s) (\<lambda>s. Inr (0, s)))
      | IBV_WC_RECV_RDMA_WITH_IMM \<Rightarrow>
          res_bind (uri_verbs_event_progress (wc_imm_data wc) s) (\<lambda>s. Inr (1, s))
      | IBV_WC_RDMA_READ \<Rightarrow>
          res_bind (req_finished (wc_qp_num wc) s) (\<lambda>(dst_rank, s).
          res_bind (uri_verbs_event_progress (wc_wrid_imm wc) s) (\<lambda>s.
          res_bind (uri_verbs_send_rmt_complete dst_rank (wc_wrid_rmt_imm wc) s) (\<lambda>s. Inr (0, s))))
      | IBV_WC_OTHER \<Rightarrow> Inl (Exit URU_ERROR_EXIT))"

fun process_wcs :: "ibv_wc list \<Rightarrow> ('z) uri_verbs_state_scheme \<Rightarrow> (nat \<times> 'z uri_verbs_state_scheme) res" where
  "process_wcs [] s = Inr (0, s)"
| "process_wcs (wc # wcs) s =
     res_bind (process_wc wc s) (\<lambda>(n, s). res_bind (process_wcs wcs s) (\<lambda>(m, s). Inr (n + m, s)))"

text \<open>
  What one call of \<open>ibv_poll_cq\<close> returned, and the receive requests given back for it. The array of
  requests to post has \<open>max_srq_wr\<close> entries.
\<close>

definition daemon_poll :: "ibv_wc list \<Rightarrow> ('z) uri_verbs_state_scheme \<Rightarrow> 'z uri_verbs_state_scheme res" where
  "daemon_poll wcs s =
     (if max_cqe s < length wcs then Inl OutOfBounds
      else res_bind (process_wcs wcs s) (\<lambda>(num_wr, s).
        if num_wr = 0 then Inr s
        else if max_srq_wr s < num_wr then Inl OutOfBounds
        else verbs_try (ibv_post_srq_recv num_wr) s))"

text \<open>\<open>polls\<close>: the non-empty answers before the first empty one.\<close>

definition uri_verbs_channel_daemon ::
  "ibv_wc list list \<Rightarrow> uri_channel_hdr \<Rightarrow> ('z) uri_verbs_state_scheme \<Rightarrow> (uru_status_t \<times> 'z uri_verbs_state_scheme) res" where
  "uri_verbs_channel_daemon polls ch s = res_bind (fold_res daemon_poll polls s) (\<lambda>s. Inr (URU_STATUS_OK, s))"

section \<open>Initialisation and devices\<close>

text \<open>
  The buffers for the name and the description of one of several devices have six and 57 bytes.
\<close>

definition uri_verbs_channel_init ::
  "'s uri_channel_func_ptrs \<Rightarrow> 's uri_channel \<Rightarrow> int \<Rightarrow> int \<Rightarrow> 's uri_channel res" where
  "uri_verbs_channel_init uri_verbs_channel_func_ptrs ch dev n =
     (let name = (if n = 1 then ''verbs'' else ''verbs'' @ show_int dev);
          description = (if n = 1 then ''This is used for Verbs supported network.''
            else ''This is used for Verbs supported network, using the '' @ show_int dev @ ''-th nic.'') in
      if n \<noteq> 1 \<and> (6 \<le> length name \<or> 57 \<le> length description) then Inl OutOfBounds
      else Inr (ch\<lparr>hdr := (hdr ch)\<lparr>attr := (attr (hdr ch))\<lparr>ch_name := name, ch_type := ''verbs'',
          ch_description := description, ch_blocksize := 4096\<rparr>, device_id := dev, num_devices := n\<rparr>,
          func_ptrs := Some uri_verbs_channel_func_ptrs\<rparr>))"

text \<open>
  What the Verbs library, MPI and the environment answer while a channel is opened. A missing
  device list or object is a null pointer; \<open>va_qp_nums\<close> lists the numbers of the queue pairs
  that \<open>ibv_create_qp\<close> made before it failed, if it did.
\<close>

record ibv_device =
  dv_open :: bool
  dv_max_qp_wr :: int
  dv_max_cqe :: nat
  dv_max_srq_wr :: nat
  dv_query_port :: int
  dv_lid :: nat
  dv_active_mtu :: int

record verbs_answers =
  env_device_num :: "string option"
  env_target_system :: "string option"
  env_num_flags :: "string option"
  env_unr_dir :: "string option"
  va_dev_list :: "ibv_device list option"
  va_srq :: bool
  va_cq :: bool
  va_qp_nums :: "nat list"
  va_modify_qp :: "nat \<Rightarrow> ibv_qp_attr \<Rightarrow> int"
  va_alltoall :: "nat list"
  va_lids :: "nat list"
  va_gid_idx :: int
  va_query_gid :: int
  va_gids :: "nat list"
  va_max_mtu :: int
  va_flag_arr :: addr
  va_flag_bases :: "addr list"

definition uri_verbs_get_num_devices :: "verbs_answers \<Rightarrow> int res" where
  "uri_verbs_get_num_devices va =
     (case va_dev_list va of
        None \<Rightarrow> Inl (Exit URU_ASSERT_EXIT)
      | Some dev_list \<Rightarrow>
          uru_assert (length dev_list \<noteq> 0)
            (case env_device_num va of
               Some e \<Rightarrow> Inr (i32 (atoi e))
             | None \<Rightarrow> Inr (if env_target_system va = Some ''TH2K'' then 1 else int (length dev_list))))"

section \<open>Memory\<close>

definition sizeof_uri_verbs_mem :: u64 where
  "sizeof_uri_verbs_mem = 16"

definition uri_verbs_mem_h_size :: "uri_channel_hdr \<Rightarrow> u64" where
  "uri_verbs_mem_h_size ch = sizeof_uri_verbs_mem"

text \<open>\<open>mr\<close>: the two keys of the region that \<open>ibv_reg_mr\<close> returned, if it returned one.\<close>

definition uri_verbs_mem_reg ::
  "(u64 \<Rightarrow> u64 \<Rightarrow> (u32 \<times> u32) option) \<Rightarrow> uri_channel_hdr \<Rightarrow> u64 \<Rightarrow> u64 \<Rightarrow> addr \<Rightarrow>
   ('z) uri_verbs_state_scheme \<Rightarrow> (uru_status_t \<times> 'z uri_verbs_state_scheme) res" where
  "uri_verbs_mem_reg ibv_reg_mr ch mem_addr mem_size mem_p s =
     (case ibv_reg_mr mem_addr mem_size of
        None \<Rightarrow> Inl (Exit URU_ASSERT_EXIT)
      | Some (lkey, rkey) \<Rightarrow>
          Inr (URU_STATUS_OK, s\<lparr>verbs_mems := (verbs_mems s)(mem_p \<mapsto> \<lparr>vm_lkey = lkey, vm_rkey = rkey\<rparr>)\<rparr>))"

section \<open>Opening a channel\<close>

definition modify_qp ::
  "verbs_answers \<Rightarrow> nat \<Rightarrow> ibv_qp_attr \<Rightarrow> ibv_qp_mask list \<Rightarrow> ('z) uri_verbs_state_scheme \<Rightarrow>
   'z uri_verbs_state_scheme res" where
  "modify_qp va qp qattr attr_mask s =
     (if va_modify_qp va qp qattr \<noteq> 0 then Inl (Exit URU_ERROR_EXIT)
      else Inr (verbs_issue (ibv_modify_qp qp qattr attr_mask) s))"

text \<open>\<open>remote_access\<close> stands for the two access flags, remote read and remote write.\<close>

definition modify_qp_to_init :: "verbs_answers \<Rightarrow> nat \<Rightarrow> ('z) uri_verbs_state_scheme \<Rightarrow> 'z uri_verbs_state_scheme res" where
  "modify_qp_to_init va qp =
     modify_qp va qp (zero_qp_attr\<lparr>qp_state := IBV_QPS_INIT, port_num := VERBS_PORT_NUM, remote_access := True\<rparr>)
       [IBV_QP_STATE, IBV_QP_PKEY_INDEX, IBV_QP_PORT, IBV_QP_ACCESS_FLAGS]"

text \<open>The address of the peer: by its LID, or where that is zero by its GID.\<close>

definition rtr_ah_attr :: "nat \<Rightarrow> nat \<Rightarrow> int \<Rightarrow> ibv_ah_attr" where
  "rtr_ah_attr dlid dgid gid_idx =
     (if dlid = 0
      then \<lparr>ah_is_global = 1, ah_dlid = 0, ah_port_num = VERBS_PORT_NUM, grh_dgid = dgid, grh_flow_label = 3,
        grh_hop_limit = 64, grh_sgid_index = gid_idx, grh_traffic_class = 106\<rparr>
      else (ah_attr zero_qp_attr)\<lparr>ah_dlid := dlid, ah_port_num := VERBS_PORT_NUM\<rparr>)"

definition rtr_attr :: "nat \<Rightarrow> nat \<Rightarrow> nat option \<Rightarrow> int \<Rightarrow> int \<Rightarrow> ibv_qp_attr" where
  "rtr_attr remote_qpn dlid dgid gid_idx active_mtu =
     zero_qp_attr\<lparr>qp_state := IBV_QPS_RTR, path_mtu := active_mtu, dest_qp_num := remote_qpn,
       max_dest_rd_atomic := 16, min_rnr_timer := 0x12,
       ah_attr := rtr_ah_attr dlid (case dgid of None \<Rightarrow> 0 | Some g \<Rightarrow> g) gid_idx\<rparr>"

definition rtr_mask :: "ibv_qp_mask list" where
  "rtr_mask = [IBV_QP_STATE, IBV_QP_AV, IBV_QP_PATH_MTU, IBV_QP_DEST_QPN, IBV_QP_RQ_PSN, IBV_QP_MAX_DEST_RD_ATOMIC,
     IBV_QP_MIN_RNR_TIMER]"

definition modify_qp_to_rtr ::
  "verbs_answers \<Rightarrow> nat \<Rightarrow> nat \<Rightarrow> nat \<Rightarrow> nat option \<Rightarrow> int \<Rightarrow> int \<Rightarrow> ('z) uri_verbs_state_scheme \<Rightarrow>
   'z uri_verbs_state_scheme res" where
  "modify_qp_to_rtr va qp remote_qpn dlid dgid gid_idx active_mtu s =
     (if dlid = 0 \<and> dgid = None then Inl NullDeref
      else modify_qp va qp (rtr_attr remote_qpn dlid dgid gid_idx active_mtu) rtr_mask s)"

definition rts_attr :: ibv_qp_attr where
  "rts_attr = zero_qp_attr\<lparr>qp_state := IBV_QPS_RTS, qp_timeout := 0x12, retry_cnt := 6, rnr_retry := 0, max_rd_atomic := 16\<rparr>"

definition rts_mask :: "ibv_qp_mask list" where
  "rts_mask = [IBV_QP_STATE, IBV_QP_TIMEOUT, IBV_QP_RETRY_CNT, IBV_QP_RNR_RETRY, IBV_QP_SQ_PSN, IBV_QP_MAX_QP_RD_ATOMIC]"

definition modify_qp_to_rts :: "verbs_answers \<Rightarrow> nat \<Rightarrow> ('z) uri_verbs_state_scheme \<Rightarrow> 'z uri_verbs_state_scheme res" where
  "modify_qp_to_rts va qp = modify_qp va qp rts_attr rts_mask"

text \<open>\<open>URI_VERBS_DEVICE_NUM\<close> and \<open>TARGET_SYSTEM=TH2K\<close> select the first device.\<close>

definition open_dev_id :: "verbs_answers \<Rightarrow> uri_channel_hdr \<Rightarrow> int" where
  "open_dev_id va ch =
     (if env_target_system va = Some ''TH2K'' \<or> env_device_num va \<noteq> None then 0 else device_id ch)"

definition open_device ::
  "verbs_answers \<Rightarrow> uri_channel_hdr \<Rightarrow> ('z) uri_verbs_state_scheme \<Rightarrow> (ibv_device \<times> 'z uri_verbs_state_scheme) res" where
  "open_device va ch s =
     (case va_dev_list va of
        None \<Rightarrow> Inl (Exit URU_ASSERT_EXIT)
      | Some dev_list \<Rightarrow>
          uru_assert (length dev_list \<noteq> 0)
          (uru_assert (open_dev_id va ch < int (length dev_list))
          (if open_dev_id va ch < 0 then Inl OutOfBounds
           else let dev = dev_list ! nat (open_dev_id va ch) in
             uru_assert (dv_open dev)
             (uru_assert (VERBS_OUTSTANDING_SEND_REQUESTS < dv_max_qp_wr dev)
             (verbs_check (dv_query_port dev)
               (Inr (dev, s\<lparr>max_cqe := dv_max_cqe dev, max_srq_wr := dv_max_srq_wr dev\<rparr>)))))))"

text \<open>The loop that creates the queue pairs, one per rank.\<close>

definition create_qp :: "verbs_answers \<Rightarrow> nat \<Rightarrow> ('z) uri_verbs_state_scheme \<Rightarrow> 'z uri_verbs_state_scheme res" where
  "create_qp va i s =
     uru_assert (i < length (va_qp_nums va))
       (let qp = va_qp_nums va ! i in modify_qp_to_init va qp (s\<lparr>qp_list := qp_list s @ [qp]\<rparr>))"

definition note_qp :: "nat \<Rightarrow> ('z) uri_verbs_state_scheme \<Rightarrow> 'z uri_verbs_state_scheme res" where
  "note_qp i s =
     (let qp_num = qp_list s ! i in
      uru_assert (qp_num < 2 ^ 24) (Inr (s\<lparr>qp2rank := (qp2rank s)(qp_num := of_nat i)\<rparr>)))"

definition connect_qp ::
  "verbs_answers \<Rightarrow> bool \<Rightarrow> nat \<Rightarrow> ('z) uri_verbs_state_scheme \<Rightarrow> 'z uri_verbs_state_scheme res" where
  "connect_qp va roce i s =
     res_bind (modify_qp_to_rtr va (qp_list s ! i) (va_alltoall va ! i) (va_lids va ! i)
       (if roce then Some (va_gids va ! i) else None) (if roce then va_gid_idx va else 0) (va_max_mtu va) s)
     (modify_qp_to_rts va (qp_list s ! i))"

definition uri_verbs_channel_open ::
  "verbs_answers \<Rightarrow> uri_channel_hdr \<Rightarrow> ('z) uri_verbs_state_scheme \<Rightarrow> (uru_status_t \<times> 'z uri_verbs_state_scheme) res" where
  "uri_verbs_channel_open va ch s =
     (let n = nat (mpi_size (uru_mpi s)) in
      res_bind (open_device va ch s) (\<lambda>(dev, s).
      uru_assert (va_srq va)
      (res_bind (verbs_try (ibv_post_srq_recv (max_srq_wr s)) s) (\<lambda>s.
      uru_assert (va_cq va)
      (res_bind (fold_res (create_qp va) [0..<n] (s\<lparr>qp_list := []\<rparr>)) (\<lambda>s.
      res_bind (fold_res note_qp [0..<n] (s\<lparr>qp2rank := (\<lambda>_. - 1)\<rparr>)) (\<lambda>s.
      let roce = (dv_lid dev = 0) in
      uru_assert (roce \<longrightarrow> env_unr_dir va \<noteq> None)
      (verbs_check (if roce then va_query_gid va else 0)
      (res_bind (fold_res (connect_qp va roce) [0..<n] s) (\<lambda>s.
      let s = s\<lparr>req_submit := replicate n 0, req_finish := replicate n 0\<rparr> in
      res_bind (init_flag_pool (env_num_flags va) (va_flag_arr va) (va_flag_bases va) s) (\<lambda>s.
      Inr (URU_STATUS_OK, s))))))))))))"

text \<open>Closing frees the tables, and leaves \<open>qp2rank\<close> allocated.\<close>

definition uri_verbs_channel_close ::
  "uri_channel_hdr \<Rightarrow> ('z) uri_verbs_state_scheme \<Rightarrow> (uru_status_t \<times> 'z uri_verbs_state_scheme) res option" where
  "uri_verbs_channel_close ch s =
     Some (Inr (URU_STATUS_OK, s\<lparr>qp_list := [], req_submit := [], req_finish := []\<rparr>))"

text \<open>The table of the module's functions.\<close>

definition uri_verbs_channel_func_ptrs ::
  "verbs_answers \<Rightarrow> ibv_wc list list \<Rightarrow> (u64 \<Rightarrow> u64 \<Rightarrow> (u32 \<times> u32) option) \<Rightarrow>
   (nat \<Rightarrow> (('z) uri_verbs_state_scheme \<Rightarrow> 'z uri_verbs_state_scheme) list) \<Rightarrow>
   'z uri_verbs_state_scheme uri_channel_func_ptrs" where
  "uri_verbs_channel_func_ptrs va polls ibv_reg_mr progress =
     \<lparr>channel_open = Some (uri_verbs_channel_open va),
      channel_daemon = Some (uri_verbs_channel_daemon polls),
      channel_close = Some uri_verbs_channel_close,
      mem_h_size = Some uri_verbs_mem_h_size,
      mem_reg = Some (uri_verbs_mem_reg ibv_reg_mr),
      rdma_plan_create = Some (uri_verbs_rdma_plan_create progress),
      rdma_plan_start = Some (uri_verbs_rdma_plan_start progress),
      rdma_plan_destroy = Some uri_verbs_rdma_plan_destroy\<rparr>"

end
