(* ===== verification/Unr_Stripe.thy ===== *)
theory Unr_Stripe
  imports Unr_Sig
begin

text \<open>
  Splitting one transfer over the channels, from \<open>unr_rdma_plan_create\<close> in
  \<open>src/unr/base/unr_blk.c\<close>: the size and the offset of each channel's stripe and the number that
  each stripe adds to the signal, with the proofs that the stripes tile the transfer, that they are
  balanced, and that the signal counts the transfer as one event.
\<close>

section \<open>Stripe sizes\<close>

text \<open>The whole rounds: \<open>size / sum * blk[j]\<close> for every channel.\<close>

definition stripe_base :: "u64 \<Rightarrow> u64 list \<Rightarrow> u64 \<Rightarrow> u64 list" where
  "stripe_base sz blk blk_sum = map (\<lambda>b. sz div blk_sum * b) blk"

text \<open>
  The remainder goes round robin from channel \<open>next\<close>; a remainder smaller than the next block is
  appended to the current stripe. The loop would run forever on zero block sizes.
\<close>

partial_function (option) stripe_rest :: "u64 list \<Rightarrow> u64 \<Rightarrow> nat \<Rightarrow> u64 list \<Rightarrow> (u64 list \<times> nat) option" where
  "stripe_rest blk rest next sizes =
     (if rest = 0 then Some (sizes, next)
      else let (sizes1, rest1) =
                 (if rest > blk ! next then (sizes[next := sizes ! next + blk ! next], rest - blk ! next)
                  else (sizes[next := sizes ! next + rest], 0));
               next' = (next + 1) mod length blk;
               (sizes2, rest2) =
                 (if rest1 < blk ! next' then (sizes1[next := sizes1 ! next + rest1], 0) else (sizes1, rest1))
           in stripe_rest blk rest2 next' sizes2)"

definition div_plan_wrt_size :: "u64 \<Rightarrow> u64 list \<Rightarrow> u64 \<Rightarrow> nat \<Rightarrow> (u64 list \<times> nat) option" where
  "div_plan_wrt_size sz blk blk_sum next = stripe_rest blk (sz mod blk_sum) next (stripe_base sz blk blk_sum)"

section \<open>Stripe offsets\<close>

fun stripe_offsets :: "u64 \<Rightarrow> u64 list \<Rightarrow> u64 list" where
  "stripe_offsets off [] = []"
| "stripe_offsets off (x # xs) = off # stripe_offsets (off + x) xs"

definition div_plan_wrt_offset :: "u64 list \<Rightarrow> u64 list" where
  "div_plan_wrt_offset sizes = stripe_offsets 0 sizes"

section \<open>Signal additions\<close>

fun sig_add_single :: "u64 list \<Rightarrow> u64 list" where
  "sig_add_single [] = []"
| "sig_add_single (x # xs) = (if x \<noteq> 0 then (- 1) # map (\<lambda>_. 0) xs else 0 # sig_add_single xs)"

fun sig_add_multi :: "nat \<Rightarrow> u64 list \<Rightarrow> u64 list" where
  "sig_add_multi non_zeros [] = []"
| "sig_add_multi non_zeros (x # xs) =
     (if x \<noteq> 0
      then (- 1 + push_bit 32 (of_nat (non_zeros - 1))) # map (\<lambda>y. if y \<noteq> 0 then 0xFFFFFFFF00000000 else 0) xs
      else 0 # sig_add_multi non_zeros xs)"

definition non_zeros :: "u64 list \<Rightarrow> nat" where
  "non_zeros sizes = length (filter (\<lambda>x. x \<noteq> 0) sizes)"

definition sig_add_arr :: "u64 list \<Rightarrow> u64 list" where
  "sig_add_arr sizes =
     (if non_zeros sizes = 1 then sig_add_single sizes else sig_add_multi (non_zeros sizes) sizes)"

section \<open>The sizes add up\<close>

text \<open>The block sizes of one class of channels, as \<open>unr_init\<close> checks and sums them.\<close>

definition blk_ok :: "u64 list \<Rightarrow> u64 \<Rightarrow> bool" where
  "blk_ok blk blk_sum \<longleftrightarrow> blk \<noteq> [] \<and> list_all (\<lambda>b. 0 < b) blk \<and> unat blk_sum = sum_list (map unat blk)"

lemma blk_ok_pos: "blk_ok blk blk_sum \<Longrightarrow> i < length blk \<Longrightarrow> 0 < blk ! i"
  by (simp add: blk_ok_def list_all_length)

lemma blk_ok_next: "blk_ok blk blk_sum \<Longrightarrow> n mod length blk < length blk"
  by (simp add: blk_ok_def)

text \<open>One turn of the loop hands a positive part \<open>d\<close> of the rest to channel \<open>next\<close>.\<close>

lemma stripe_rest_turn:
  assumes "rest \<noteq> 0" "next < length blk" "length sizes = length blk" "0 < blk ! next"
  obtains d where "stripe_rest blk rest next sizes =
      stripe_rest blk (rest - d) ((next + 1) mod length blk) (sizes[next := sizes ! next + d])"
    "0 < d" "d \<le> rest" "d = rest \<or> d = blk ! next"
    "d = rest \<and> \<not> rest > blk ! next \<or> d = rest \<and> rest - blk ! next < blk ! ((next + 1) mod length blk) \<or> d = blk ! next"
proof -
  let ?b = "blk ! next" and ?b' = "blk ! ((next + 1) mod length blk)"
  consider "\<not> rest > ?b" | "rest > ?b" "rest - ?b < ?b'" | "rest > ?b" "\<not> rest - ?b < ?b'" by blast
  then show thesis
  proof cases
    case 1
    then show thesis using assms
      by (intro that [of rest]) (simp_all add: stripe_rest.simps [of blk rest] word_gt_0 Let_def)
  next
    case 2
    then show thesis using assms
      by (intro that [of rest]) (simp_all add: stripe_rest.simps [of blk rest] word_gt_0 Let_def)
  next
    case 3
    then show thesis using assms
      by (intro that [of ?b]) (simp_all add: stripe_rest.simps [of blk rest] Let_def)
  qed
qed

lemma sum_unat_update:
  fixes xs :: "u64 list"
  assumes "i < length xs" "sum_list (map unat xs) + unat d < 2 ^ 64"
  shows "sum_list (map unat (xs[i := xs ! i + d])) = sum_list (map unat xs) + unat d"
proof -
  have "unat (xs ! i) \<le> sum_list (map unat xs)"
    using assms(1) by (intro member_le_sum_list) auto
  then have "unat (xs ! i + d) = unat (xs ! i) + unat d"
    using assms(2) by (intro unat_add_bounded) simp
  then show ?thesis
    using assms(1) sum_list_update_add [of i "map unat xs" "unat d"] by (simp add: map_update)
qed

lemma stripe_rest_total:
  assumes "blk_ok blk blk_sum" "next < length blk" "length sizes = length blk"
    and "sum_list (map unat sizes) + unat rest < 2 ^ 64"
  shows "\<exists>sizes' next'. stripe_rest blk rest next sizes = Some (sizes', next') \<and>
    length sizes' = length blk \<and> next' < length blk \<and>
    sum_list (map unat sizes') = sum_list (map unat sizes) + unat rest"
  using assms(2-4)
proof (induction "unat rest" arbitrary: rest "next" sizes rule: less_induct)
  case less
  show ?case
  proof (cases "rest = 0")
    case True
    then show ?thesis using less.prems by (simp add: stripe_rest.simps [of blk 0])
  next
    case False
    obtain d where d: "stripe_rest blk rest next sizes =
        stripe_rest blk (rest - d) ((next + 1) mod length blk) (sizes[next := sizes ! next + d])"
      "0 < d" "d \<le> rest"
      using stripe_rest_turn [OF False less.prems(1,2) blk_ok_pos [OF assms(1) less.prems(1)]] by metis
    have ud: "unat (rest - d) = unat rest - unat d" "0 < unat d" "unat d \<le> unat rest"
      using d(2,3) by (simp_all add: unat_sub word_le_nat_alt unat_gt_0 word_gt_0)
    have s: "sum_list (map unat (sizes[next := sizes ! next + d])) = sum_list (map unat sizes) + unat d"
      using less.prems ud by (intro sum_unat_update) auto
    show ?thesis
      using less.hyps [of "rest - d" "(next + 1) mod length blk" "sizes[next := sizes ! next + d]"]
        less.prems ud s blk_ok_next [OF assms(1)] unfolding d(1) by simp
  qed
qed

lemma base_nth:
  assumes "blk_ok blk blk_sum" "j < length blk"
  shows "unat (stripe_base sz blk blk_sum ! j) = unat sz div unat blk_sum * unat (blk ! j)"
proof -
  have "unat (blk ! j) \<le> unat blk_sum" using assms by (auto simp: blk_ok_def intro!: member_le_sum_list)
  then have "unat sz div unat blk_sum * unat (blk ! j) \<le> unat sz div unat blk_sum * unat blk_sum" by simp
  also have "\<dots> \<le> unat sz" by (rule div_times_less_eq_dividend)
  also have "\<dots> < 2 ^ LENGTH(64)" by (rule unsigned_less)
  finally show ?thesis using assms(2)
    by (simp add: stripe_base_def unat_div_distrib unat_mult_bounded)
qed

lemma base_sum:
  assumes "blk_ok blk blk_sum"
  shows "sum_list (map unat (stripe_base sz blk blk_sum)) = unat sz div unat blk_sum * unat blk_sum"
    "sum_list (map unat (stripe_base sz blk blk_sum)) + unat (sz mod blk_sum) = unat sz"
proof -
  have "map unat (stripe_base sz blk blk_sum) = map (\<lambda>b. unat sz div unat blk_sum * unat b) blk"
    using base_nth [OF assms, of _ sz] by (intro nth_equalityI) (simp_all add: stripe_base_def)
  then show s: "sum_list (map unat (stripe_base sz blk blk_sum)) = unat sz div unat blk_sum * unat blk_sum"
    using assms by (simp add: sum_list_const_mult blk_ok_def comp_def)
  show "sum_list (map unat (stripe_base sz blk blk_sum)) + unat (sz mod blk_sum) = unat sz"
    by (simp add: s unat_mod_distrib)
qed

lemma stripe_total:
  assumes "blk_ok blk blk_sum" "next < length blk"
  obtains sizes next' where "div_plan_wrt_size sz blk blk_sum next = Some (sizes, next')"
    "length sizes = length blk" "next' < length blk" "sum_list (map unat sizes) = unat sz"
proof -
  have "unat sz < 2 ^ LENGTH(64)" by (rule unsigned_less)
  then show thesis
    using stripe_rest_total [OF assms, of "stripe_base sz blk blk_sum" "sz mod blk_sum"] base_sum [OF assms(1), of sz]
      that unfolding div_plan_wrt_size_def by (auto simp: stripe_base_def)
qed

section \<open>The offsets tile the transfer\<close>

lemma length_stripe_offsets [simp]: "length (stripe_offsets off xs) = length xs"
  by (induction xs arbitrary: off) auto

lemma stripe_offsets_nth:
  assumes "unat off + sum_list (map unat xs) < 2 ^ 64" "j < length xs"
  shows "unat (stripe_offsets off xs ! j) = unat off + sum_list (map unat (take j xs))"
  using assms
proof (induction xs arbitrary: off j)
  case Nil
  then show ?case by simp
next
  case (Cons x xs)
  show ?case
  proof (cases j)
    case 0
    then show ?thesis by simp
  next
    case (Suc i)
    have u: "unat (off + x) = unat off + unat x"
      using Cons.prems(1) by (intro unat_add_bounded) simp
    then show ?thesis using Cons.IH [of "off + x" i] Cons.prems Suc by simp
  qed
qed

text \<open>Prefix sums cut an interval into consecutive pieces.\<close>

lemma prefix_sums_tile:
  fixes ns :: "nat list"
  assumes "k < sum_list ns"
  shows "\<exists>!j. j < length ns \<and> sum_list (take j ns) \<le> k \<and> k < sum_list (take j ns) + ns ! j"
  using assms
proof (induction ns arbitrary: k)
  case Nil
  then show ?case by simp
next
  case (Cons n ns)
  show ?case
  proof (cases "k < n")
    case True
    then show ?thesis
      by (intro ex1I [of _ 0]) (auto simp: nth_Cons' take_Cons' split: if_splits)
  next
    case False
    define P where "P i \<longleftrightarrow> i < length ns \<and> sum_list (take i ns) \<le> k - n \<and> k - n < sum_list (take i ns) + ns ! i" for i
    have "k - n < sum_list ns" using Cons.prems False by simp
    then have "\<exists>!i. P i" unfolding P_def by (rule Cons.IH)
    then obtain j where Pj: "P j" and uniq: "\<And>i. P i \<Longrightarrow> i = j" by (rule ex1E) blast
    from Pj have j: "j < length ns" "sum_list (take j ns) \<le> k - n" "k - n < sum_list (take j ns) + ns ! j"
      by (simp_all add: P_def)
    show ?thesis
    proof (rule ex1I [of _ "Suc j"])
      show "Suc j < length (n # ns) \<and> sum_list (take (Suc j) (n # ns)) \<le> k \<and>
          k < sum_list (take (Suc j) (n # ns)) + (n # ns) ! Suc j"
        using j False by simp linarith
    next
      fix i
      assume i: "i < length (n # ns) \<and> sum_list (take i (n # ns)) \<le> k \<and> k < sum_list (take i (n # ns)) + (n # ns) ! i"
      with False obtain i' where i': "i = Suc i'" by (cases i) auto
      then have "i' = j" using i False by (intro uniq) (auto simp: P_def)
      with i' show "i = Suc j" by simp
    qed
  qed
qed

lemma stripes_tile:
  assumes "blk_ok blk blk_sum" "next < length blk"
  shows "\<exists>sizes next'. div_plan_wrt_size sz blk blk_sum next = Some (sizes, next') \<and>
     length sizes = length blk \<and> next' < length blk \<and> sum_list sizes = sz \<and>
     (\<forall>k < unat sz. \<exists>!j. j < length sizes \<and> unat (div_plan_wrt_offset sizes ! j) \<le> k \<and>
        k < unat (div_plan_wrt_offset sizes ! j) + unat (sizes ! j)) \<and>
     (\<forall>j < length sizes. unat (div_plan_wrt_offset sizes ! j) + unat (sizes ! j) \<le> unat sz)"
proof -
  obtain sizes next' where s: "div_plan_wrt_size sz blk blk_sum next = Some (sizes, next')"
    "length sizes = length blk" "next' < length blk" "sum_list (map unat sizes) = unat sz"
    by (rule stripe_total [OF assms])
  have "sum_list sizes = (of_nat (sum_list (map unat sizes)) :: u64)"
    by (induction sizes) auto
  then have total: "sum_list sizes = sz" using s(4) by simp
  have "unat sz < 2 ^ LENGTH(64)" by (rule unsigned_less)
  then have off: "unat (div_plan_wrt_offset sizes ! j) = sum_list (take j (map unat sizes))" if "j < length sizes" for j
    using stripe_offsets_nth [of 0 sizes j] that s(4) by (simp add: div_plan_wrt_offset_def take_map)
  have "\<exists>!j. j < length sizes \<and> unat (div_plan_wrt_offset sizes ! j) \<le> k \<and>
        k < unat (div_plan_wrt_offset sizes ! j) + unat (sizes ! j)" if "k < unat sz" for k
  proof -
    have "\<exists>!j. j < length sizes \<and> sum_list (take j (map unat sizes)) \<le> k \<and>
        k < sum_list (take j (map unat sizes)) + map unat sizes ! j"
      using prefix_sums_tile [of k "map unat sizes"] that s(4) by simp
    moreover have "(j < length sizes \<and> unat (div_plan_wrt_offset sizes ! j) \<le> k \<and>
        k < unat (div_plan_wrt_offset sizes ! j) + unat (sizes ! j)) \<longleftrightarrow>
      (j < length sizes \<and> sum_list (take j (map unat sizes)) \<le> k \<and>
        k < sum_list (take j (map unat sizes)) + map unat sizes ! j)" for j
      using off [of j] by (cases "j < length sizes") simp_all
    ultimately show ?thesis by presburger
  qed
  moreover have "unat (div_plan_wrt_offset sizes ! j) + unat (sizes ! j) \<le> unat sz" if "j < length sizes" for j
  proof -
    have "sum_list (take j (map unat sizes)) + unat (sizes ! j) = sum_list (take (Suc j) (map unat sizes))"
      using that by (simp add: take_Suc_conv_app_nth)
    also have "\<dots> \<le> sum_list (map unat sizes)"
      by (metis append_take_drop_id le_add1 sum_list_append)
    finally show ?thesis using off [OF that] s(4) by simp
  qed
  ultimately show ?thesis using s total by blast
qed

section \<open>The loop visits no channel twice\<close>

text \<open>What is left to hand out is less than the blocks of the \<open>m\<close> channels from \<open>next\<close> on.\<close>

definition round_left :: "u64 list \<Rightarrow> nat \<Rightarrow> nat \<Rightarrow> nat" where
  "round_left blk next m = (\<Sum>i < m. unat (blk ! ((next + i) mod length blk)))"

lemma round_left_Suc:
  "next < length blk \<Longrightarrow>
    round_left blk next (Suc m) = unat (blk ! next) + round_left blk ((next + 1) mod length blk) m"
  unfolding round_left_def by (subst sum.lessThan_Suc_shift) (simp add: mod_add_left_eq)

definition in_round :: "u64 list \<Rightarrow> nat \<Rightarrow> nat \<Rightarrow> nat \<Rightarrow> bool" where
  "in_round blk next m j \<longleftrightarrow> (\<exists>i < m. j = (next + i) mod length blk)"

lemma in_round_step: "in_round blk ((next + 1) mod length blk) m j \<Longrightarrow> in_round blk next (Suc m) j"
  unfolding in_round_def by (metis Suc_less_eq add_Suc_shift mod_add_left_eq plus_1_eq_Suc add.commute)

lemma not_in_round_step:
  assumes "next < length blk" "m < length blk"
  shows "\<not> in_round blk ((next + 1) mod length blk) m next"
proof
  assume "in_round blk ((next + 1) mod length blk) m next"
  then obtain i where i: "i < m" "next = (next + Suc i) mod length blk"
    by (auto simp: in_round_def mod_add_left_eq)
  show False
  proof (cases "next + Suc i < length blk")
    case False
    then have "(next + Suc i) mod length blk = next + Suc i - length blk"
      using i(1) assms by (simp add: mod_if)
    then show False using i assms False by simp
  qed (use i(2) in simp)
qed

lemma stripe_rest_balanced:
  assumes "blk_ok blk blk_sum" "next < length blk" "length sizes = length blk" "m \<le> length blk"
    and "unat rest < round_left blk next m" "sum_list (map unat sizes) + unat rest < 2 ^ 64"
    and "stripe_rest blk rest next sizes = Some (sizes', next')" "j < length blk"
  shows "unat (sizes ! j) \<le> unat (sizes' ! j) \<and>
    (if in_round blk next m j
     then unat (sizes' ! j) < unat (sizes ! j) + unat (blk ! j) + unat (blk ! ((j + 1) mod length blk))
     else sizes' ! j = sizes ! j)"
  using assms(2-7)
proof (induction m arbitrary: rest "next" sizes)
  case 0
  then show ?case by (simp add: round_left_def)
next
  case (Suc m)
  have pos: "0 < unat (blk ! i)" if "i < length blk" for i
    using blk_ok_pos [OF assms(1) that] by (simp add: unat_gt_0 word_gt_0)
  let ?next = "(next + 1) mod length blk"
  have nl: "?next < length blk" by (rule blk_ok_next [OF assms(1)])
  show ?case
  proof (cases "rest = 0")
    case True
    then show ?thesis using Suc.prems(6) pos [OF assms(8)] by (simp add: stripe_rest.simps [of blk 0])
  next
    case False
    obtain d where d: "stripe_rest blk rest next sizes = stripe_rest blk (rest - d) ?next (sizes[next := sizes ! next + d])"
      "d \<le> rest"
      "d = rest \<and> \<not> rest > blk ! next \<or> d = rest \<and> rest - blk ! next < blk ! ?next \<or> d = blk ! next"
      using stripe_rest_turn [OF False Suc.prems(1,2) blk_ok_pos [OF assms(1) Suc.prems(1)]] by metis
    have inext: "in_round blk next (Suc m) next" using Suc.prems(1) by (auto simp: in_round_def intro: exI [of _ 0])
    have ud: "unat (rest - d) = unat rest - unat d" "unat d \<le> unat rest"
      using d(2) by (simp_all add: unat_sub word_le_nat_alt)
    have s: "sum_list (map unat (sizes[next := sizes ! next + d])) = sum_list (map unat sizes) + unat d"
      using Suc.prems(2,1,5) ud(2) by (intro sum_unat_update) auto
    have "unat (sizes ! next) \<le> sum_list (map unat sizes)" using Suc.prems(1,2) by (intro member_le_sum_list) auto
    then have nx: "unat (sizes ! next + d) = unat (sizes ! next) + unat d"
      using Suc.prems(5) ud(2) by (intro unat_add_bounded) simp
    have dlt: "unat d < unat (blk ! next) + unat (blk ! ?next)"
      using d(3) pos [OF nl] by (auto simp: word_less_nat_alt unat_sub_if' not_less split: if_splits)
    show ?thesis
    proof (cases "d = rest")
      case True
      then have "sizes' = sizes[next := sizes ! next + d]"
        using Suc.prems(6) d(1) by (simp add: stripe_rest.simps [of blk 0])
      then show ?thesis using nx dlt inext Suc.prems(1,2) assms(8) pos [OF assms(8)]
        by (cases "j = next") auto
    next
      case False
      then have db: "d = blk ! next" using d(3) by blast
      have "unat (rest - d) < round_left blk ?next m"
        using Suc.prems(4) ud False unfolding db round_left_Suc [OF Suc.prems(1)] by simp
      then have IH: "unat (sizes[next := sizes ! next + d] ! j) \<le> unat (sizes' ! j) \<and>
        (if in_round blk ?next m j
         then unat (sizes' ! j) < unat (sizes[next := sizes ! next + d] ! j) + unat (blk ! j) + unat (blk ! ((j + 1) mod length blk))
         else sizes' ! j = sizes[next := sizes ! next + d] ! j)"
        using Suc.prems nl ud s d(1) by (intro Suc.IH [where rest = "rest - d"]) auto
      show ?thesis
      proof (cases "j = next")
        case True
        then show ?thesis
          using IH not_in_round_step [OF Suc.prems(1), of m] inext nx dlt Suc.prems(1-3) by auto
      next
        case False
        have "in_round blk ?next m j" if "in_round blk next (Suc m) j"
        proof -
          from that obtain i where i: "i < Suc m" "j = (next + i) mod length blk" by (auto simp: in_round_def)
          with False Suc.prems(1) obtain k where "i = Suc k" by (cases i) auto
          with i show ?thesis by (auto simp: in_round_def mod_add_left_eq)
        qed
        then show ?thesis using IH False in_round_step [of blk "next" m j] by (auto split: if_splits)
      qed
    qed
  qed
qed

lemma round_left_all:
  assumes "blk_ok blk blk_sum" "next < length blk"
  shows "round_left blk next (length blk) = unat blk_sum"
proof -
  let ?f = "\<lambda>i. (next + i) mod length blk"
  have "inj_on ?f {..<length blk}"
  proof (rule inj_onI)
    have m: "?f i = (if next + i < length blk then next + i else next + i - length blk)" if "i < length blk" for i
      using that assms(2) by (simp add: le_mod_geq)
    fix i k
    assume "i \<in> {..<length blk}" "k \<in> {..<length blk}" "?f i = ?f k"
    then show "i = k" using m [of i] m [of k] assms(2) by (auto split: if_splits)
  qed
  then have "sum (\<lambda>j. unat (blk ! j)) (?f ` {..<length blk}) = round_left blk next (length blk)"
    unfolding round_left_def by (simp add: sum.reindex)
  moreover have "?f ` {..<length blk} = {..<length blk}"
    using \<open>inj_on ?f {..<length blk}\<close> assms(2) by (intro endo_inj_surj) (auto intro!: mod_less_divisor)
  ultimately show ?thesis using assms(1) by (simp add: blk_ok_def sum_list_sum_nth atLeast0LessThan)
qed

text \<open>
  C8. For every transfer size and every valid set of channels the striping loop ends, and it shares the
  transfer out in proportion to the block sizes: with \<open>q\<close> whole rounds a channel gets at least \<open>q\<close> of
  its own blocks, and at most one more block and a remainder too small for a block of the channel after
  it. So the loop hands each channel at most one part of what the whole rounds leave.
\<close>

theorem striping_ends_balanced:
  assumes "blk_ok blk blk_sum" "next < length blk"
  shows "\<exists>sizes next'. div_plan_wrt_size sz blk blk_sum next = Some (sizes, next') \<and>
     length sizes = length blk \<and> next' < length blk \<and> sum_list sizes = sz \<and>
     (\<forall>j < length blk. unat (sz div blk_sum) * unat (blk ! j) \<le> unat (sizes ! j) \<and>
        unat (sizes ! j) < (unat (sz div blk_sum) + 1) * unat (blk ! j) + unat (blk ! ((j + 1) mod length blk)))"
proof -
  obtain sizes next' where s: "div_plan_wrt_size sz blk blk_sum next = Some (sizes, next')"
    "length sizes = length blk" "next' < length blk" "sum_list sizes = sz"
    using stripes_tile [OF assms, of sz] by blast
  let ?base = "stripe_base sz blk blk_sum"
  have lb: "length ?base = length blk" by (simp add: stripe_base_def)
  have pos: "0 < unat blk_sum"
    using round_left_all [OF assms] assms blk_ok_pos [OF assms(1), of 0]
    by (cases blk) (auto simp: blk_ok_def unat_gt_0 word_gt_0)
  have r: "unat (sz mod blk_sum) < round_left blk next (length blk)"
    unfolding round_left_all [OF assms] using pos by (simp add: unat_mod_distrib)
  have t: "sum_list (map unat ?base) + unat (sz mod blk_sum) < 2 ^ 64"
    using base_sum(2) [OF assms(1), of sz] unsigned_less [of sz, where 'a = nat] by simp
  have share: "unat (sz div blk_sum) * unat (blk ! j) \<le> unat (sizes ! j) \<and>
      unat (sizes ! j) < (unat (sz div blk_sum) + 1) * unat (blk ! j) + unat (blk ! ((j + 1) mod length blk))"
    if j: "j < length blk" for j
  proof -
    have base: "unat (?base ! j) = unat (sz div blk_sum) * unat (blk ! j)"
      using base_nth [OF assms(1) j, of sz] by (simp add: unat_div_distrib)
    have "0 < unat (blk ! j)" using blk_ok_pos [OF assms(1) j] by (simp add: unat_gt_0 word_gt_0)
    moreover have "stripe_rest blk (sz mod blk_sum) next ?base = Some (sizes, next')"
      using s(1) by (simp add: div_plan_wrt_size_def)
    ultimately show ?thesis
      using stripe_rest_balanced [OF assms lb order_refl r t _ j] base by (simp split: if_splits)
  qed
  show ?thesis using s share by (intro exI [of _ sizes] exI [of _ next']) blast
qed

theorem striping_ends_balanced_witness:
  "\<exists>sizes next'. div_plan_wrt_size 9000 [4096, 1024] 5120 1 = Some (sizes, next') \<and> sum_list sizes = 9000 \<and>
     4096 \<le> unat (sizes ! 0) \<and> unat (sizes ! 0) < 9216"
proof -
  have "blk_ok [4096, 1024] 5120" by (simp add: blk_ok_def)
  from striping_ends_balanced [OF this, of 1 9000] show ?thesis by auto
qed

end
