(* ===== verification/Unr_Stripe_Sig.thy ===== *)
theory Unr_Stripe_Sig
  imports Unr_Stripe
begin

text \<open>
  What the stripes of a transfer do to its signal: all of them together count one event, no
  proper part of the deliveries triggers the signal, and what goes wrong in between. The
  definitions are those of \<open>Unr_Stripe\<close> and \<open>Unr_Sig\<close>.
\<close>

section \<open>The additions of one transfer\<close>

lemma non_zeros_Cons [simp]: "non_zeros (x # xs) = (if x \<noteq> 0 then 1 else 0) + non_zeros xs"
  by (simp add: non_zeros_def)

lemma non_zeros_Nil [simp]: "non_zeros [] = 0"
  by (simp add: non_zeros_def)

lemma non_zeros_0: "non_zeros xs = 0 \<longleftrightarrow> (\<forall>x \<in> set xs. x = 0)"
  by (induction xs) auto

text \<open>The two branches of the code agree: one stripe is the general case with \<open>non_zeros = 1\<close>.\<close>

lemma sig_add_single_multi: "non_zeros xs = 1 \<Longrightarrow> sig_add_single xs = sig_add_multi 1 xs"
  by (induction xs) (auto simp: non_zeros_0 split: if_splits)

lemma sig_add_arr_multi: "sig_add_arr xs = sig_add_multi (non_zeros xs) xs"
  by (simp add: sig_add_arr_def sig_add_single_multi)

lemma length_sig_add_multi [simp]: "length (sig_add_multi n xs) = length xs"
  by (induction xs) auto

lemma length_sig_add_arr [simp]: "length (sig_add_arr xs) = length xs"
  by (simp add: sig_add_arr_multi)

text \<open>How many of the stripes with index in \<open>I\<close> are not empty.\<close>

definition picked :: "u64 list \<Rightarrow> nat set \<Rightarrow> nat" where
  "picked xs I = non_zeros (nths xs I)"

lemma picked_Cons:
  "picked (x # xs) I = (if 0 \<in> I \<and> x \<noteq> 0 then 1 else 0) + picked xs {j. Suc j \<in> I}"
  by (simp add: picked_def nths_Cons)

lemma picked_le: "picked xs I \<le> non_zeros xs"
  by (induction xs arbitrary: I) (auto simp: picked_Cons picked_def [of "[]"], meson le_SucI)

lemma picked_all: "picked xs I = non_zeros xs \<longleftrightarrow> (\<forall>j < length xs. xs ! j \<noteq> 0 \<longrightarrow> j \<in> I)"
proof (induction xs arbitrary: I)
  case Nil
  then show ?case by (simp add: picked_def)
next
  case (Cons x xs)
  have "(\<forall>j < length (x # xs). (x # xs) ! j \<noteq> 0 \<longrightarrow> j \<in> I) \<longleftrightarrow>
      (x \<noteq> 0 \<longrightarrow> 0 \<in> I) \<and> (\<forall>j < length xs. xs ! j \<noteq> 0 \<longrightarrow> Suc j \<in> I)"
    by (auto simp: less_Suc_eq_0_disj)
  moreover have "picked xs {j. Suc j \<in> I} \<le> non_zeros xs" by (rule picked_le)
  ultimately show ?case using Cons.IH [of "{j. Suc j \<in> I}"] by (auto simp: picked_Cons)
qed

lemma high_word: "(0xFFFFFFFF00000000 :: u64) = word_of_int (- (2 ^ 32))"
  by simp

lemma rest_contribution:
  "sum_list (nths (map (\<lambda>y::u64. if y \<noteq> 0 then 0xFFFFFFFF00000000 else (0::u64)) xs) I) =
     word_of_int (- (2 ^ 32) * int (picked xs I))"
proof (induction xs arbitrary: I)
  case Nil
  then show ?case by (simp add: picked_def)
next
  case (Cons x xs)
  then show ?case
    unfolding high_word by (simp add: nths_Cons picked_Cons wi_hom_syms algebra_simps)
qed

text \<open>The first stripe of the transfer takes the event and announces how many more will come.\<close>

lemma first_add: "(- 1 + push_bit 32 (of_nat (n - 1)) :: u64) = word_of_int (- 1 + 2 ^ 32 * int (n - 1))"
  by (simp add: push_bit_eq_mult wi_hom_syms mult.commute)

text \<open>
  The deliveries of one transfer so far: \<open>f\<close> tells whether its first stripe is among them, \<open>r\<close> how
  many of the others are.
\<close>

lemma contribution:
  assumes "0 < non_zeros xs" "n = non_zeros xs"
  shows "\<exists>f r. f \<in> {0, 1::int} \<and> 0 \<le> r \<and> r \<le> int n - 1 \<and>
    sum_list (nths (sig_add_multi n xs) I) = word_of_int (- f + 2 ^ 32 * ((int n - 1) * f - r)) \<and>
    (f = 1 \<and> r = int n - 1 \<longleftrightarrow> (\<forall>j < length xs. xs ! j \<noteq> 0 \<longrightarrow> j \<in> I))"
  unfolding picked_all [symmetric] using assms
proof (induction xs arbitrary: I)
  case Nil
  then show ?case by simp
next
  case (Cons x xs)
  let ?I = "{j. Suc j \<in> I}"
  show ?case
  proof (cases "x = 0")
    case True
    then have "0 < non_zeros xs" "n = non_zeros xs" using Cons.prems by simp_all
    from Cons.IH [OF this, of ?I] True show ?thesis by (simp add: nths_Cons picked_Cons)
  next
    case False
    define f where "f = (if 0 \<in> I then 1 else 0 :: int)"
    define r where "r = int (picked xs ?I)"
    have n: "int n - 1 = int (non_zeros xs)" "int (n - 1) = int n - 1" using Cons.prems False by simp_all
    have sum: "sum_list (nths (sig_add_multi n (x # xs)) I) = word_of_int (- f + 2 ^ 32 * ((int n - 1) * f - r))"
    proof -
      have "sum_list (nths (sig_add_multi n (x # xs)) I) =
          (if 0 \<in> I then - 1 + push_bit 32 (of_nat (n - 1)) else 0) +
          sum_list (nths (map (\<lambda>y. if y \<noteq> 0 then 0xFFFFFFFF00000000 else 0) xs) ?I)"
        using False by (simp add: nths_Cons)
      also have "\<dots> = word_of_int ((- 1 + 2 ^ 32 * (int n - 1)) * f) + word_of_int (- (2 ^ 32) * r)"
        unfolding first_add rest_contribution n(2) by (simp add: f_def r_def)
      also have "\<dots> = word_of_int (- f + 2 ^ 32 * ((int n - 1) * f - r))"
        by (simp add: wi_hom_syms algebra_simps)
      finally show ?thesis .
    qed
    have le: "r \<le> int n - 1" using picked_le [of xs ?I] n by (simp add: r_def)
    have all: "f = 1 \<and> r = int n - 1 \<longleftrightarrow> picked (x # xs) I = non_zeros (x # xs)"
      using False n(1) picked_le [of xs ?I] by (auto simp: f_def r_def picked_Cons)
    show ?thesis
      using sum le all by (intro exI [of _ f] exI [of _ r]) (simp add: f_def r_def)
  qed
qed

text \<open>
  Whatever the number of stripes, their additions to a 64-bit counter sum to minus one: a striped
  transfer counts as one event on the signal.
\<close>

lemma sig_add_sum:
  assumes "\<exists>x \<in> set sizes. x \<noteq> 0"
  shows "sum_list (sig_add_arr sizes) = - 1"
proof -
  have nz: "0 < non_zeros sizes" using assms non_zeros_0 [of sizes] by auto
  from contribution [OF nz refl, of UNIV] show ?thesis
    unfolding sig_add_arr_multi by (auto simp: nths_all)
qed

section \<open>Several transfers on one signal\<close>

text \<open>
  A transfer in progress: its stripe sizes and the indices of the stripes that have been delivered.
  The counter of a signal that expects these transfers starts at their number.
\<close>

definition delivered_sum :: "(u64 list \<times> nat set) list \<Rightarrow> u64" where
  "delivered_sum ms = sum_list (map (\<lambda>(sizes, I). sum_list (nths (sig_add_arr sizes) I)) ms)"

definition all_delivered :: "u64 list \<times> nat set \<Rightarrow> bool" where
  "all_delivered m \<longleftrightarrow> (\<forall>j < length (fst m). fst m ! j \<noteq> 0 \<longrightarrow> j \<in> snd m)"

lemma delivered_sum_int:
  assumes "\<forall>m \<in> set ms. 0 < non_zeros (fst m) \<and> non_zeros (fst m) \<le> B"
  shows "\<exists>F G :: int. delivered_sum ms = word_of_int (- F + 2 ^ 32 * G) \<and> 0 \<le> F \<and> F \<le> int (length ms) \<and>
     \<bar>G\<bar> \<le> int (length ms * B) \<and>
     (F = int (length ms) \<longrightarrow> 0 \<le> G \<and> (G = 0 \<longleftrightarrow> (\<forall>m \<in> set ms. all_delivered m))) \<and>
     ((\<forall>m \<in> set ms. all_delivered m) \<longrightarrow> F = int (length ms))"
  using assms
proof (induction ms)
  case Nil
  show ?case by (intro exI [of _ 0]) (simp add: delivered_sum_def)
next
  case (Cons m ms)
  obtain sizes I where m: "m = (sizes, I)" by (cases m)
  have nz: "0 < non_zeros sizes" "non_zeros sizes \<le> B" using Cons.prems by (auto simp: m)
  obtain f r where fr: "f \<in> {0, 1::int}" "0 \<le> r" "r \<le> int (non_zeros sizes) - 1"
    "sum_list (nths (sig_add_arr sizes) I) = word_of_int (- f + 2 ^ 32 * ((int (non_zeros sizes) - 1) * f - r))"
    "f = 1 \<and> r = int (non_zeros sizes) - 1 \<longleftrightarrow> all_delivered m"
    using contribution [OF nz(1) refl, of I] by (auto simp: sig_add_arr_multi all_delivered_def m)
  obtain F G where FG: "delivered_sum ms = word_of_int (- F + 2 ^ 32 * G)" "0 \<le> F" "F \<le> int (length ms)"
    "\<bar>G\<bar> \<le> int (length ms * B)"
    "F = int (length ms) \<longrightarrow> 0 \<le> G \<and> (G = 0 \<longleftrightarrow> (\<forall>m \<in> set ms. all_delivered m))"
    "(\<forall>m \<in> set ms. all_delivered m) \<longrightarrow> F = int (length ms)"
    using Cons by auto
  let ?g = "(int (non_zeros sizes) - 1) * f - r"
  have g: "f = 1 \<longrightarrow> ?g = int (non_zeros sizes) - 1 - r" "f = 0 \<longrightarrow> ?g = - r" by auto
  have gb: "\<bar>?g\<bar> \<le> int B" using fr(1-3) nz g by auto
  have sum: "delivered_sum (m # ms) = word_of_int (- (F + f) + 2 ^ 32 * (G + ?g))"
  proof -
    have "delivered_sum (m # ms) = sum_list (nths (sig_add_arr sizes) I) + delivered_sum ms"
      by (simp add: delivered_sum_def m)
    also have "\<dots> = word_of_int ((- f + 2 ^ 32 * ?g) + (- F + 2 ^ 32 * G))"
      unfolding fr(4) FG(1) by (simp only: wi_hom_syms)
    also have "(- f + 2 ^ 32 * ?g) + (- F + 2 ^ 32 * G) = - (F + f) + 2 ^ 32 * (G + ?g)"
      by (simp add: algebra_simps)
    finally show ?thesis .
  qed
  have bound: "\<bar>G + ?g\<bar> \<le> int (length (m # ms) * B)" using gb FG(4) by (simp add: algebra_simps)
  have full: "F + f = int (length (m # ms)) \<longleftrightarrow> F = int (length ms) \<and> f = 1"
    using fr(1) FG(3) by auto
  have pos: "F + f = int (length (m # ms)) \<longrightarrow>
      0 \<le> G + ?g \<and> (G + ?g = 0 \<longleftrightarrow> (\<forall>k \<in> set (m # ms). all_delivered k))"
  proof
    assume "F + f = int (length (m # ms))"
    then have "F = int (length ms)" "f = 1" using full by simp_all
    then show "0 \<le> G + ?g \<and> (G + ?g = 0 \<longleftrightarrow> (\<forall>k \<in> set (m # ms). all_delivered k))"
      using FG(5) fr(3,5) g(1) by auto
  qed
  have complete: "(\<forall>k \<in> set (m # ms). all_delivered k) \<longrightarrow> F + f = int (length (m # ms))"
    using FG(6) fr(5) full by auto
  have range: "0 \<le> F + f" "F + f \<le> int (length (m # ms))" using fr(1) FG(2,3) by auto
  show ?case using sum range bound pos complete by blast
qed



section \<open>What the intermediate values of a counter do\<close>

lemma sig_add_first_nth:
  assumes "i < length xs" "xs ! i \<noteq> 0" "\<forall>k < i. xs ! k = 0"
  shows "sig_add_multi n xs ! i = - 1 + push_bit 32 (of_nat (n - 1))"
  using assms
proof (induction xs arbitrary: i)
  case (Cons x xs)
  show ?case
  proof (cases i)
    case 0
    then show ?thesis using Cons.prems by simp
  next
    case (Suc i')
    then have "x = 0" "\<forall>k < i'. xs ! k = 0" using Cons.prems(3) by auto
    then show ?thesis using Cons.IH [of i'] Cons.prems Suc by simp
  qed
qed simp

lemma sig_add_later_nth:
  assumes "i < j" "j < length xs" "xs ! i \<noteq> 0" "xs ! j \<noteq> 0" "\<forall>k < i. xs ! k = 0"
  shows "sig_add_multi n xs ! j = 0xFFFFFFFF00000000"
  using assms
proof (induction xs arbitrary: i j)
  case (Cons x xs)
  then obtain j' where j': "j = Suc j'" by (cases j) auto
  show ?case
  proof (cases i)
    case 0
    then show ?thesis using Cons.prems j' by simp
  next
    case (Suc i')
    then have "x = 0" "\<forall>k < i'. xs ! k = 0" using Cons.prems(5) by auto
    then show ?thesis using Cons.IH [of i' j'] Cons.prems j' Suc by simp
  qed
qed simp

lemma of_nat_as_int: "(of_nat n :: u64) = word_of_int (int n)"
  by simp

lemma sint_of_int_u64: "- (2 ^ 63) \<le> x \<Longrightarrow> x < 2 ^ 63 \<Longrightarrow> sint (word_of_int x :: u64) = x"
  by (simp add: sint_sbintrunc' signed_take_bit_int_eq_self)

text \<open>
  C37. Between the deliveries of a transfer that went over several channels the signal is not
  usable: after the first stripe alone \<open>unr_sig_check\<close> takes the announced count for an overflow
  and exits, and a later stripe that arrives before the first fails the sign assertion of the MPI
  channel.
\<close>

theorem partial_stripes_break_signal:
  assumes "2 \<le> non_zeros sizes" "non_zeros sizes \<le> 255"
    and "i < j" "j < length sizes" "sizes ! i \<noteq> 0" "sizes ! j \<noteq> 0" "\<forall>k < i. sizes ! k = 0"
    and "flags s (sig_flag_p sg) = Some f" "sig_flag_p sg \<noteq> 0" "unr_ready s" "f_queue f = 0"
    and "counter f = of_nat n" "0 < n" "n < 2 ^ 31"
  shows "(\<exists>s'. mpi_flag_event (sig_flag_p sg) (sig_add_arr sizes ! i) s = Inr s' \<and>
      unr_sig_check sg s' = Inl (Exit URU_EVENT_OVERFLOW)) \<and>
    mpi_flag_event (sig_flag_p sg) (sig_add_arr sizes ! j) s = Inl (Exit URU_ASSERT_EXIT)"
proof
  let ?z = "non_zeros sizes"
  let ?m = "n - 1 + 2 ^ 32 * (?z - 1)"
  have "sig_add_arr sizes ! i = word_of_int (- 1 + 2 ^ 32 * int (?z - 1))"
    unfolding sig_add_arr_multi first_add [symmetric]
    using assms(3-7) by (intro sig_add_first_nth) auto
  then have "of_nat n + sig_add_arr sizes ! i = word_of_int (int n + (- 1 + 2 ^ 32 * int (?z - 1)))"
    by (simp only: of_nat_as_int wi_hom_syms)
  also have "int n + (- 1 + 2 ^ 32 * int (?z - 1)) = int ?m" using assms(13) by simp
  finally have c: "of_nat n + sig_add_arr sizes ! i = (of_nat ?m :: u64)" by simp
  have m: "2 ^ 31 \<le> ?m" "?m < 2 ^ 63" using assms(1,2,14) by auto
  have u: "unat (of_nat ?m :: u64) = ?m" using m(2) by (intro unat_u64_small) simp
  have si: "sint (of_nat ?m :: u64) = int ?m" using m(2) by (rule sint_small)
  have nz: "(of_nat ?m :: u64) \<noteq> 0" using m by (subst of_nat_u64_eq_0) auto
  let ?s' = "s\<lparr>flags := (flags s)(sig_flag_p sg \<mapsto> f\<lparr>counter := of_nat ?m\<rparr>)\<rparr>"
  have ev: "mpi_flag_event (sig_flag_p sg) (sig_add_arr sizes ! i) s = Inr ?s'"
    using assms(8,9,11,12) c si nz by (simp add: mpi_flag_event_def Let_def del: of_nat_add of_nat_mult of_nat_diff)
  have "unr_sig_check sg ?s' = Inl (Exit URU_EVENT_OVERFLOW)"
    using assms(10) u m(1) by (subst check_eq [where f = "f\<lparr>counter := of_nat ?m\<rparr>"]) (simp_all del: of_nat_add of_nat_mult of_nat_diff)
  with ev show "\<exists>s'. mpi_flag_event (sig_flag_p sg) (sig_add_arr sizes ! i) s = Inr s' \<and>
      unr_sig_check sg s' = Inl (Exit URU_EVENT_OVERFLOW)" by blast
next
  have "sig_add_arr sizes ! j = word_of_int (- (2 ^ 32))"
    unfolding sig_add_arr_multi high_word [symmetric] using assms(3-7) by (rule sig_add_later_nth)
  then have "counter f + sig_add_arr sizes ! j = word_of_int (int n + - (2 ^ 32))"
    unfolding assms(12) by (simp only: of_nat_as_int wi_hom_syms)
  moreover have "sint (word_of_int (int n + - (2 ^ 32)) :: u64) < 0"
    using assms(14) by (subst sint_of_int_u64) auto
  ultimately show "mpi_flag_event (sig_flag_p sg) (sig_add_arr sizes ! j) s = Inl (Exit URU_ASSERT_EXIT)"
    using assms(8,9) by (simp add: mpi_flag_event_def Let_def)
qed

definition striped_example_state :: unr_sig_state where
  "striped_example_state = sig_example_state\<lparr>flags :=
     [24 \<mapsto> \<lparr>counter = 3, f_queue = 0, num_event = 3, f_idx = - 1\<rparr>]\<rparr>"

theorem partial_stripes_break_signal_witness:
  "(\<exists>s'. mpi_flag_event 24 (sig_add_arr [0, 9, 5] ! 1) striped_example_state = Inr s' \<and>
      unr_sig_check \<lparr>sig_dst_rank = 0, sig_flag_p = 24\<rparr> s' = Inl (Exit URU_EVENT_OVERFLOW)) \<and>
    mpi_flag_event 24 (sig_add_arr [0, 9, 5] ! 2) striped_example_state = Inl (Exit URU_ASSERT_EXIT)"
  using partial_stripes_break_signal [where sizes = "[0, 9, 5]" and i = 1 and j = 2 and n = 3
      and sg = "\<lparr>sig_dst_rank = 0, sig_flag_p = 24\<rparr>" and s = striped_example_state
      and f = "\<lparr>counter = 3, f_queue = 0, num_event = 3, f_idx = - 1\<rparr>"]
  by (simp add: sig_example_state_def striped_example_state_def)

end
