(* ===== verification/Uri_Verbs_Props.thy ===== *)
theory Uri_Verbs_Props
  imports Uri_Verbs Unr_Stripe_Sig
begin

text \<open>
  What the Verbs channel module does to the data, to the flags and to the queues of the device:
  a request moves what the write says, its immediate data names exactly the flag of the write, the
  send queues never overflow and the shared receive queue never drains. The definitions are those
  of \<open>Uri_Verbs\<close>.
\<close>

section \<open>A concrete state\<close>

definition verbs_example :: uri_verbs_state where
  "verbs_example = \<lparr>uru_mpi = \<lparr>mpi_rank = 0, mpi_size = 2, same_node = [True, False]\<rparr>,
     flag_pool = Some \<lparr>fp_size = 8, fp_used = 4, fp_arr = 240, fp_rmt_base = [240, 480]\<rparr>,
     flags = (\<lambda>p. Some \<lparr>counter = 1, f_queue = 0, num_event = 1, f_idx = - 1\<rparr>), queues = (\<lambda>p. None),
     mems = [1000 \<mapsto> \<lparr>m_addr = 0x10000, m_size = 4096, m_rank = 0, m_idx = 0\<rparr>,
               2000 \<mapsto> \<lparr>m_addr = 0x20000, m_size = 4096, m_rank = 1, m_idx = 0\<rparr>],
     verbs_mems = [1024 \<mapsto> \<lparr>vm_lkey = 1, vm_rkey = 2\<rparr>, 2024 \<mapsto> \<lparr>vm_lkey = 3, vm_rkey = 4\<rparr>],
     max_cqe = 4, max_srq_wr = 4, qp_list = [7, 9], qp2rank = (\<lambda>_. - 1)(7 := 0, 9 := 1),
     req_submit = [0, 0], req_finish = [0, 0], verbs_plans = (\<lambda>p. None), v_brk = 1, verbs_log = [], verbs_answer = (\<lambda>_ _. 0)\<rparr>"

definition verbs_example_hdr :: uri_channel_hdr where
  "verbs_example_hdr = \<lparr>attr = \<lparr>ch_name = ''verbs'', ch_type = ''verbs'', ch_description = [], ch_blocksize = 4096,
     channel_id = 0\<rparr>, num_devices = 1, device_id = 0, opened = True, mem_h_offset = 24\<rparr>"

definition verbs_example_wrt :: uri_wrt where
  "verbs_example_wrt = \<lparr>loc_mem = 1024, loc_offset = 16, loc_flag_p = 264, loc_flag_add = - 1,
     dma_size = 2 ^ 32 + 8, rmt_mem = 2024, rmt_offset = 32, rmt_flag_p = 528, rmt_flag_add = - 1\<rparr>"

lemmas verbs_example_defs = verbs_example_def verbs_example_hdr_def verbs_example_wrt_def

lemma verbs_example_create:
  "verbs_create_wr verbs_example_hdr (URU_TRANSFER_TYPE_DMA_PUT, verbs_example_wrt) verbs_example =
     Inr (1, \<lparr>opcode = IBV_WR_RDMA_WRITE_WITH_IMM, wrid_imm = 1, wrid_rmt_imm = 0,
       sge = Some \<lparr>sg_addr = 0x10010, sg_length = 8, sg_lkey = 1\<rparr>, remote_addr = 0x20020, wr_rkey = 4,
       imm_data = 2, send_inline = False, send_signaled = True\<rparr>)"
  by (simp add: verbs_create_wr_def verbs_example_defs uri_mem_get_info_def wr_opcode_def verbs_base_wr_def
      verbs_loc_event_def verbs_rmt_event_def uri_verbs_event_fill_def flag_at_def sizeof_flag_def
      VERBS_MAX_INLINE_DATA_def)

section \<open>Requests\<close>

text \<open>The steps that made a request, and the fields that setting the events leaves alone.\<close>

lemma verbs_create_wr_Inr:
  assumes "verbs_create_wr ch (t, w) s = Inr (d, wr)"
  obtains la ls src ra rs op lm rm wr1 where
    "uri_mem_get_info (mems s) ch (loc_mem w) = Inr (la, ls, src)"
    "uri_mem_get_info (mems s) ch (rmt_mem w) = Inr (ra, rs, d)"
    "wr_opcode t = Inr op" "verbs_mems s (loc_mem w) = Some lm" "verbs_mems s (rmt_mem w) = Some rm"
    "verbs_loc_event src w s (verbs_base_wr op la ra lm rm w) = Inr wr1"
    "verbs_rmt_event d w s wr1 = Inr wr"
  using assms unfolding verbs_create_wr_def prod.case
  by (simp split: option.splits) blast

lemma verbs_loc_event_frame:
  "verbs_loc_event src w s wr = Inr wr' \<Longrightarrow>
     sge wr' = sge wr \<and> remote_addr wr' = remote_addr wr \<and> wr_rkey wr' = wr_rkey wr \<and> opcode wr' = opcode wr"
  by (auto simp: verbs_loc_event_def split: if_splits)

lemma verbs_rmt_event_frame:
  "verbs_rmt_event dst w s wr = Inr wr' \<Longrightarrow>
     sge wr' = sge wr \<and> remote_addr wr' = remote_addr wr \<and> wr_rkey wr' = wr_rkey wr \<and> wrid_imm wr' = wrid_imm wr"
  by (auto simp: verbs_rmt_event_def split: if_splits)

text \<open>
  C35. A request moves the low 32 bits of the write's size between the two addresses the write
  names, under the keys of the two memory handles, to the rank that owns the remote memory. So the
  transfer is complete exactly for sizes below \<open>2 ^ 32\<close>.
\<close>

theorem verbs_request_moves_low_32_bits:
  assumes "verbs_create_wr ch (t, w) s = Inr (d, wr)"
    and "uri_mem_get_info (mems s) ch (loc_mem w) = Inr (la, ls, src)"
    and "uri_mem_get_info (mems s) ch (rmt_mem w) = Inr (ra, rs, dst)"
  shows "d = dst \<and> remote_addr wr = ra + rmt_offset w \<and>
    (\<exists>g. sge wr = Some g \<and> sg_addr g = la + loc_offset w \<and>
      unat (sg_length g) = unat (dma_size w) mod 2 ^ 32 \<and>
      (unat (sg_length g) = unat (dma_size w) \<longleftrightarrow> dma_size w < 2 ^ 32))"
proof -
  have "unat (ucast (dma_size w) :: u32) = unat (dma_size w) mod 2 ^ 32"
    by (simp add: unsigned_ucast_eq take_bit_eq_mod)
  moreover have "unat (dma_size w) mod 2 ^ 32 = unat (dma_size w) \<longleftrightarrow> dma_size w < 2 ^ 32"
    by (simp add: word_less_nat_alt mod_eq_self_iff_div_eq_0 div_eq_0_iff)
  moreover have "d = dst \<and> (\<exists>op lm rm wr1. verbs_loc_event src w s (verbs_base_wr op la ra lm rm w) = Inr wr1 \<and>
      verbs_rmt_event d w s wr1 = Inr wr)"
    by (rule verbs_create_wr_Inr [OF assms(1)]) (simp only: assms(2,3) sum.inject prod.inject, blast)
  ultimately show ?thesis
    by (auto simp: verbs_base_wr_def dest!: verbs_loc_event_frame verbs_rmt_event_frame)
qed

theorem verbs_request_moves_low_32_bits_witness:
  "\<exists>d wr g. verbs_create_wr verbs_example_hdr (URU_TRANSFER_TYPE_DMA_PUT, verbs_example_wrt) verbs_example = Inr (d, wr) \<and>
     sge wr = Some g \<and> unat (sg_length g) \<noteq> unat (dma_size verbs_example_wrt)"
proof -
  have m: "uri_mem_get_info (mems verbs_example) verbs_example_hdr (loc_mem verbs_example_wrt) = Inr (0x10000, 4096, 0)"
      "uri_mem_get_info (mems verbs_example) verbs_example_hdr (rmt_mem verbs_example_wrt) = Inr (0x20000, 4096, 1)"
    by (simp_all add: uri_mem_get_info_def verbs_example_defs)
  have "\<not> dma_size verbs_example_wrt < 2 ^ 32" by (simp add: verbs_example_wrt_def)
  then show ?thesis
    using verbs_request_moves_low_32_bits [OF verbs_example_create m] verbs_example_create by blast
qed

section \<open>Events\<close>

text \<open>
  The immediate data that a sender writes into a request makes the target's daemon do to the
  flag what the completion of an MPI operation does: the same flag is counted down by one, and the
  same index is queued when it becomes zero. The sender and the target have to agree on where the
  target's flags are, which is what \<open>init_flag_pool\<close> gathers.
\<close>

theorem verbs_event_hits_flag:
  assumes "uri_verbs_event_fill dst flag_p add s = Inr e"
    and "flag_pool s = Some fp" "flag_pool s' = Some fp'"
    and "mpi_rank (uru_mpi s') = dst" "nat dst < length (fp_rmt_base fp')"
    and "fp_rmt_base fp ! nat dst = fp_rmt_base fp' ! nat dst"
    and "flag_p = flag_at (fp_rmt_base fp ! nat dst) i" "0 < i"
    and "flags s' flag_p = Some f" "0 \<le> sint (counter f - 1)"
  shows "uri_verbs_event_progress e s' = mpi_flag_event flag_p add s'"
proof -
  have add: "add = - 1" and i: "i < unat (fp_size fp)" and e: "e = of_nat i"
    using assms(1,2,7,8)
    by (auto simp: uri_verbs_event_fill_def flag_at_def sizeof_flag_def Let_def split: if_splits)
  have "unat (fp_size fp) < 2 ^ LENGTH(32)" by (rule unsigned_less)
  with i have u: "unat e = i" by (simp add: e unat_of_nat take_bit_nat_eq_self)
  then have "e \<noteq> 0" using assms(8) by auto
  moreover have "flag_p \<noteq> 0" using assms(7,8) by (simp add: flag_at_nz)
  ultimately show ?thesis
    using assms u add by (simp add: uri_verbs_event_progress_def mpi_flag_event_def Let_def)
qed

theorem verbs_event_hits_flag_witness:
  "uri_verbs_event_progress 2 (verbs_example\<lparr>uru_mpi := \<lparr>mpi_rank = 1, mpi_size = 2, same_node = [False, True]\<rparr>\<rparr>) =
   mpi_flag_event 528 (- 1) (verbs_example\<lparr>uru_mpi := \<lparr>mpi_rank = 1, mpi_size = 2, same_node = [False, True]\<rparr>\<rparr>)"
  by (rule verbs_event_hits_flag [where dst = 1 and s = verbs_example and i = 2 and
        fp = "\<lparr>fp_size = 8, fp_used = 4, fp_arr = 240, fp_rmt_base = [240, 480]\<rparr>" and
        fp' = "\<lparr>fp_size = 8, fp_used = 4, fp_arr = 240, fp_rmt_base = [240, 480]\<rparr>" and
        f = "\<lparr>counter = 1, f_queue = 0, num_event = 1, f_idx = - 1\<rparr>"])
    (simp_all add: verbs_example_def uri_verbs_event_fill_def flag_at_def sizeof_flag_def)

lemma event_fill_add: "uri_verbs_event_fill dst p add s = Inr e \<Longrightarrow> add = - 1"
  by (simp add: uri_verbs_event_fill_def)

text \<open>What the stripes of a transfer add is minus one only where there is one stripe.\<close>

lemma sig_add_not_minus_one:
  assumes "non_zeros sizes \<noteq> 1" "j < length sizes" "sizes ! j \<noteq> 0" "length sizes \<le> 2 ^ 31"
  shows "sig_add_arr sizes ! j \<noteq> - 1"
proof -
  define i where "i = (LEAST i. sizes ! i \<noteq> 0)"
  have i: "sizes ! i \<noteq> 0" "\<forall>k < i. sizes ! k = 0" "i \<le> j"
    using LeastI [of "\<lambda>i. sizes ! i \<noteq> 0", OF assms(3)] Least_le [of "\<lambda>i. sizes ! i \<noteq> 0", OF assms(3)]
    by (auto simp: i_def dest: not_less_Least)
  have "1 < non_zeros sizes" using assms(1-3) non_zeros_0 [of sizes] nth_mem [OF assms(2)] by force
  moreover have "non_zeros sizes \<le> length sizes" by (simp add: non_zeros_def)
  ultimately have n: "0 < non_zeros sizes - 1" "non_zeros sizes - 1 < 2 ^ 31" using assms(4) by simp_all
  show ?thesis
  proof (cases "i = j")
    case True
    have "- 1 + push_bit 32 (of_nat (non_zeros sizes - 1)) \<noteq> (- 1 :: u64)"
    proof
      assume "- 1 + push_bit 32 (of_nat (non_zeros sizes - 1)) = (- 1 :: u64)"
      then have "(of_nat (2 ^ 32 * (non_zeros sizes - 1)) :: u64) = 0"
        by (simp add: push_bit_eq_mult mult.commute)
      then show False using of_nat_u64_eq_0 [of "2 ^ 32 * (non_zeros sizes - 1)"] n by simp
    qed
    then show ?thesis using True i assms(2) by (simp add: sig_add_arr_multi sig_add_first_nth)
  next
    case False
    then show ?thesis using i assms(2,3) sig_add_later_nth [of i j sizes] by (simp add: sig_add_arr_multi)
  qed
qed

text \<open>
  C36. A plan on a Verbs channel that carries a signal, local or remote, was made for a transfer with
  one stripe: what the stripes of a transfer over several channels add to the signal is never minus
  one, and the module accepts nothing else. So \<open>unr_rdma_plan_create\<close> can not use several Verbs
  channels for one signalled transfer; it ends in an assertion.
\<close>

theorem verbs_refuses_striped_signals:
  assumes "verbs_create_wr ch (t, w) s = Inr (d, wr)"
    and "loc_flag_p w \<noteq> 0 \<and> loc_flag_add w = sig_add_arr sizes ! j \<or>
         rmt_flag_p w \<noteq> 0 \<and> rmt_flag_add w = sig_add_arr sizes ! j"
    and "j < length sizes" "sizes ! j \<noteq> 0" "length sizes \<le> URI_MAX_CHANNEL_NUM"
  shows "non_zeros sizes = 1"
proof (rule ccontr)
  assume "non_zeros sizes \<noteq> 1"
  then have ne: "sig_add_arr sizes ! j \<noteq> - 1"
    using assms(3-5) by (intro sig_add_not_minus_one) (simp_all add: URI_MAX_CHANNEL_NUM_def)
  obtain src op la ra lm rm wr1 where
      "verbs_loc_event src w s (verbs_base_wr op la ra lm rm w) = Inr wr1" "verbs_rmt_event d w s wr1 = Inr wr"
    by (rule verbs_create_wr_Inr [OF assms(1)])
  then show False using assms(2) ne
    by (auto simp: verbs_loc_event_def verbs_rmt_event_def dest!: event_fill_add split: if_splits)
qed

theorem verbs_refuses_striped_signals_witness: "non_zeros [0, 9] = 1"
  by (rule verbs_refuses_striped_signals [OF verbs_example_create, where j = 1])
    (simp_all add: verbs_example_wrt_def sig_add_arr_def URI_MAX_CHANNEL_NUM_def)

section \<open>Registration\<close>

lemma digits_nonempty: "digits n \<noteq> []"
  by (simp add: digits.simps [of n])

lemma verbs_init_several: "d \<noteq> 1 \<Longrightarrow> uri_verbs_channel_init fps ch i d = Inl OutOfBounds"
proof -
  have "1 \<le> length (show_int i)" using digits_nonempty by (simp add: show_int_def Suc_le_eq)
  then show "d \<noteq> 1 \<Longrightarrow> uri_verbs_channel_init fps ch i d = Inl OutOfBounds"
    by (simp add: uri_verbs_channel_init_def Let_def)
qed

text \<open>
  The module can register one device. With two or more, writing the name of the first one
  (\<open>verbs0\<close> and its terminating zero) already runs past the six bytes allocated for it.
\<close>

theorem verbs_registers_one_device:
  assumes "length arr < URI_MAX_CHANNEL_NUM" "1 \<le> d"
  shows "(\<exists>arr'. URI_CHANNEL_REGISTER d (uri_verbs_channel_init fps) arr = Inr arr') \<longleftrightarrow> d = 1"
proof (cases "d = 1")
  case True
  then show ?thesis
    using assms by (simp add: URI_CHANNEL_REGISTER_def register_one_def uri_verbs_channel_init_def Let_def)
next
  case False
  then have d: "[0..<nat d] = 0 # [1..<nat d]" using assms(2) by (simp add: upt_conv_Cons)
  have "uri_verbs_channel_init fps zero_channel 0 d = Inl OutOfBounds" by (rule verbs_init_several [OF False])
  then have "URI_CHANNEL_REGISTER d (uri_verbs_channel_init fps) arr = Inl OutOfBounds"
    using assms(1) d by (simp add: URI_CHANNEL_REGISTER_def register_one_def)
  then show ?thesis using False by simp
qed

definition no_funcs :: "uri_verbs_state uri_channel_func_ptrs" where
  "no_funcs = \<lparr>channel_open = None, channel_daemon = None, channel_close = None, mem_h_size = None, mem_reg = None,
     rdma_plan_create = None, rdma_plan_start = None, rdma_plan_destroy = None\<rparr>"

theorem verbs_registers_one_device_witness:
  "\<not> (\<exists>arr'. URI_CHANNEL_REGISTER 2 (uri_verbs_channel_init no_funcs) [] = Inr arr')"
  using verbs_registers_one_device [of "[]" 2 no_funcs] by (simp add: URI_MAX_CHANNEL_NUM_def)

end
