(* ===== verification/Uri_Verbs_Flow.thy ===== *)
theory Uri_Verbs_Flow
  imports Uri_Verbs_Props
begin

text \<open>
  Flow control of the Verbs channel module: posting and completing as a step relation, with the
  send queues of the device as its ghost state, and the receive requests of the shared receive
  queue. The definitions are those of \<open>Uri_Verbs\<close>.
\<close>

section \<open>An opened channel\<close>

definition verbs_ready :: "('z) uri_verbs_state_scheme \<Rightarrow> bool" where
  "verbs_ready s \<longleftrightarrow> length (req_submit s) = length (qp_list s) \<and> length (req_finish s) = length (qp_list s) \<and>
     (\<forall>d < length (qp_list s). qp_list s ! d < 2 ^ 24 \<and> unat (qp2rank s (qp_list s ! d)) = d)"

text \<open>An event writes flags and queues and nothing else of the state.\<close>

lemma event_progress_frame:
  assumes "uri_verbs_event_progress e s = Inr s'"
  obtains F Q where "s' = s\<lparr>flags := F, queues := Q\<rparr>"
proof -
  have "s' = s \<or> (\<exists>F. s' = s\<lparr>flags := F\<rparr>) \<or> (\<exists>F p d. queue_push_at p d (s\<lparr>flags := F\<rparr>) = Inr s')"
  proof (cases "e = 0")
    case True
    then show ?thesis using assms by (simp add: uri_verbs_event_progress_def)
  next
    case False
    then obtain fp where fp: "flag_pool s = Some fp" "\<not> length (fp_rmt_base fp) \<le> nat (mpi_rank (uru_mpi s))"
      using assms by (auto simp: uri_verbs_event_progress_def Let_def split: option.splits if_splits)
    define p where "p = flag_at (fp_rmt_base fp ! nat (mpi_rank (uru_mpi s))) (unat e)"
    obtain f where f: "flags s p = Some f"
      using assms False fp by (auto simp: uri_verbs_event_progress_def Let_def p_def split: option.splits)
    define t where "t = s\<lparr>flags := (flags s)(p \<mapsto> f\<lparr>counter := counter f + (- 1)\<rparr>)\<rparr>"
    have "(if counter f + (- 1) = 0 \<and> f_queue f \<noteq> 0 then queue_push_at (f_queue f) (f_idx f) t else Inr t) = Inr s'"
      using assms False fp f unfolding uri_verbs_event_progress_def Let_def t_def p_def
      by (simp only: option.case if_False)
    then have "queue_push_at (f_queue f) (f_idx f) t = Inr s' \<or> s' = t" by (simp only: split: if_splits) blast+
    then show ?thesis unfolding t_def by blast
  qed
  then consider "s' = s" | F where "s' = s\<lparr>flags := F\<rparr>" | F p d where "queue_push_at p d (s\<lparr>flags := F\<rparr>) = Inr s'"
    by blast
  then show thesis
  proof cases
    case 1
    then have "s' = s\<lparr>flags := flags s, queues := queues s\<rparr>" by simp
    then show thesis by (rule that)
  next
    case 2
    then have "s' = s\<lparr>flags := F, queues := queues s\<rparr>" by simp
    then show thesis by (rule that)
  next
    case 3
    then obtain Q where "s' = s\<lparr>flags := F, queues := Q\<rparr>" by (auto simp: queue_push_at_def split: option.splits)
    then show thesis by (rule that)
  qed
qed

section \<open>The send queues of the device\<close>

text \<open>
  The completion that the device reports for a request of the send queue to \<open>d\<close>, and the request
  that the daemon posts in answer to it.
\<close>

definition wc_of :: "nat \<Rightarrow> ibv_send_wr \<Rightarrow> ibv_wc" where
  "wc_of qp wr = \<lparr>wc_success = True,
     wc_opcode = (if opcode wr = IBV_WR_RDMA_READ then IBV_WC_RDMA_READ else IBV_WC_RDMA_WRITE),
     wc_qp_num = qp, wc_wrid_imm = wrid_imm wr, wc_wrid_rmt_imm = wrid_rmt_imm wr, wc_imm_data = 0\<rparr>"

definition answers :: "ibv_send_wr \<Rightarrow> ibv_send_wr list" where
  "answers wr = (if opcode wr = IBV_WR_RDMA_READ \<and> wrid_rmt_imm wr \<noteq> 0 then [rmt_complete_wr (wrid_rmt_imm wr)] else [])"

text \<open>
  \<open>post\<close> is the loop body of \<open>uri_verbs_rdma_plan_start\<close> that finds room; while it waits, other
  steps happen. \<open>finish\<close> is the daemon handling the completion of the oldest request of a send
  queue, \<open>receive\<close> its handling of a message from elsewhere. The ghost component holds, per rank,
  the requests the device has not completed.
\<close>

inductive verbs_step ::
  "uri_verbs_state \<times> (nat \<Rightarrow> ibv_send_wr list) \<Rightarrow> uri_verbs_state \<times> (nat \<Rightarrow> ibv_send_wr list) \<Rightarrow> bool" where
  post: "verbs_start_wrs (\<lambda>_. []) 0 [(int d, wr)] s = Inr s' \<Longrightarrow> verbs_step (s, hw) (s', hw(d := hw d @ [wr]))"
| finish: "d < length (qp_list s) \<Longrightarrow> hw d = wr # rest \<Longrightarrow> process_wc (wc_of (qp_list s ! d) wr) s = Inr (k, s') \<Longrightarrow>
    verbs_step (s, hw) (s', hw(d := rest @ answers wr))"
| receive: "wc_opcode wc = IBV_WC_RECV_RDMA_WITH_IMM \<Longrightarrow> process_wc wc s = Inr (k, s') \<Longrightarrow> verbs_step (s, hw) (s', hw)"

inductive verbs_run :: "uri_verbs_state \<Rightarrow> nat \<Rightarrow> uri_verbs_state \<Rightarrow> (nat \<Rightarrow> ibv_send_wr list) \<Rightarrow> bool" for s0 where
  start: "verbs_run s0 0 s0 (\<lambda>_. [])"
| step: "verbs_run s0 k s hw \<Longrightarrow> verbs_step (s, hw) (s', hw') \<Longrightarrow> verbs_run s0 (Suc k) s' hw'"

text \<open>
  The counters count what the device has, and one more for each read whose answer is still to be
  posted.
\<close>

definition pending :: "ibv_send_wr list \<Rightarrow> nat" where
  "pending wrs = length (filter (\<lambda>wr. answers wr \<noteq> []) wrs)"

definition flow_inv :: "nat \<Rightarrow> uri_verbs_state \<Rightarrow> (nat \<Rightarrow> ibv_send_wr list) \<Rightarrow> bool" where
  "flow_inv k s hw \<longleftrightarrow> verbs_ready s \<and> (\<forall>d < length (qp_list s).
     unat (req_submit s ! d) \<le> 2 * k \<and> length (hw d) \<le> 256 \<and>
     unat (req_finish s ! d) + length (hw d) + pending (hw d) = unat (req_submit s ! d))"

lemma pending_simps [simp]:
  "pending [] = 0" "pending (wr # wrs) = (if answers wr \<noteq> [] then 1 else 0) + pending wrs"
  "pending (xs @ ys) = pending xs + pending ys"
  by (simp_all add: pending_def)

lemma pending_answers [simp]: "pending (answers wr) = 0"
  by (simp add: answers_def rmt_complete_wr_def)

lemma flow_counters:
  assumes "flow_inv k s hw" "k < 2 ^ 61" "d < length (qp_list s)"
  shows "qp_outstanding (int d) s = of_nat (length (hw d) + pending (hw d))"
    "sint (qp_outstanding (int d) s) = int (length (hw d) + pending (hw d))"
    "submit_ge_finish (int d) s" "qp_full (int d) s \<longleftrightarrow> 256 \<le> length (hw d) + pending (hw d)"
proof -
  let ?f = "req_finish s ! d" and ?b = "req_submit s ! d" and ?n = "length (hw d) + pending (hw d)"
  have eq: "unat ?f + ?n = unat ?b" and le: "unat ?b \<le> 2 * k"
    using assms(1,3) by (simp_all add: flow_inv_def add.assoc)
  have "?b = of_nat (unat ?f + ?n)" unfolding eq by simp
  then show 1: "qp_outstanding (int d) s = of_nat ?n" by (simp add: qp_outstanding_def)
  show 2: "sint (qp_outstanding (int d) s) = int ?n"
    unfolding 1 using eq le assms(2) by (intro sint_small) simp
  have "sint ?f = int (unat ?f)" "sint ?b = int (unat ?b)"
    using sint_small [of "unat ?f"] sint_small [of "unat ?b"] eq le assms(2) by simp_all
  then show "submit_ge_finish (int d) s" using eq unfolding submit_ge_finish_def nat_int by linarith
  show "qp_full (int d) s \<longleftrightarrow> 256 \<le> ?n"
    unfolding qp_full_def 2 by (auto simp: VERBS_OUTSTANDING_SEND_REQUESTS_def)
qed

lemma outstanding_word: "unat x \<le> 2 * k \<Longrightarrow> k < 2 ^ 61 \<Longrightarrow> n \<le> 2 \<Longrightarrow> unat (x + of_nat n :: u64) = unat x + n"
  using unat_add_bounded [of x "of_nat n :: u64"] unat_u64_small [of n] by simp

lemma flow_post:
  assumes "flow_inv k s hw" "k < 2 ^ 61" "verbs_start_wrs (\<lambda>_. []) 0 [(int d, wr)] s = Inr s'"
  shows "flow_inv (Suc k) s' (hw(d := hw d @ [wr]))"
proof -
  have d: "d < length (qp_list s)" and room: "\<not> qp_full (int d) s" and s': "s' = verbs_posted (int d) wr s"
    using assms(3) by (auto simp: qp_in_range_def verbs_post_def split: if_splits)
  have inv: "verbs_ready s" "\<And>e. e < length (qp_list s) \<Longrightarrow> unat (req_submit s ! e) \<le> 2 * k \<and> length (hw e) \<le> 256 \<and>
      unat (req_finish s ! e) + length (hw e) + pending (hw e) = unat (req_submit s ! e)"
    using assms(1) by (auto simp: flow_inv_def)
  have lt: "length (hw d) + pending (hw d) < 256" using room flow_counters(4) [OF assms(1,2) d] by simp
  let ?n = "if answers wr \<noteq> [] then 2 else 1 :: nat"
  have sub: "req_submit s' = (req_submit s)[d := req_submit s ! d + of_nat ?n]"
    by (auto simp: s' verbs_posted_def verbs_issue_def answers_def Let_def)
  have same: "qp_list s' = qp_list s" "req_finish s' = req_finish s" "qp2rank s' = qp2rank s"
    by (simp_all add: s' verbs_posted_def verbs_issue_def Let_def)
  have "unat (req_submit s ! d + of_nat ?n) = unat (req_submit s ! d) + ?n"
    using inv(2) [OF d] assms(2) by (intro outstanding_word [of _ k]) auto
  moreover have "length (req_submit s) = length (qp_list s)" using inv(1) by (simp add: verbs_ready_def)
  ultimately have one: "unat (req_submit s' ! d) = unat (req_submit s ! d) + ?n" using d by (simp add: sub)
  have other: "e \<noteq> d \<Longrightarrow> req_submit s' ! e = req_submit s ! e" for e by (simp add: sub)
  have "verbs_ready s'" using inv(1) by (simp add: verbs_ready_def same sub)
  moreover have "unat (req_submit s' ! e) \<le> 2 * Suc k \<and> length ((hw(d := hw d @ [wr])) e) \<le> 256 \<and>
      unat (req_finish s' ! e) + length ((hw(d := hw d @ [wr])) e) + pending ((hw(d := hw d @ [wr])) e) =
      unat (req_submit s' ! e)" if "e < length (qp_list s')" for e
  proof (cases "e = d")
    case True
    then show ?thesis using inv(2) [OF d] one lt by (simp add: same)
  next
    case False
    then show ?thesis using inv(2) [of e] other [of e] that by (simp add: same)
  qed
  ultimately show ?thesis by (simp add: flow_inv_def)
qed

text \<open>What handling one successful completion does to the counters.\<close>

lemma process_own:
  assumes "process_wc (wc_of (qp_list s ! d) wr) s = Inr (k, s')" "verbs_ready s" "d < length (qp_list s)"
  shows "req_finish s' = (req_finish s)[d := req_finish s ! d + 1]" "req_submit s' = req_submit s"
    "qp_list s' = qp_list s" "qp2rank s' = qp2rank s" "k = 0"
proof -
  have q: "qp_list s ! d < 2 ^ 24" "unat (qp2rank s (qp_list s ! d)) = d" "length (req_finish s) = length (qp_list s)"
    using assms(2,3) by (auto simp: verbs_ready_def)
  let ?s = "s\<lparr>req_finish := (req_finish s)[d := req_finish s ! d + 1]\<rparr>"
  have fin: "req_finished (qp_list s ! d) s = Inr (int d, ?s)"
    using q assms(3) by (simp add: req_finished_def Let_def)
  obtain t where t: "uri_verbs_event_progress (wrid_imm wr) ?s = Inr t" and "k = 0"
      and s': "s' = t \<or> uri_verbs_send_rmt_complete (int d) (wrid_rmt_imm wr) t = Inr s'"
    using assms(1) fin by (auto simp: process_wc_def wc_of_def split: if_splits)
  obtain F Q where "t = ?s\<lparr>flags := F, queues := Q\<rparr>" by (rule event_progress_frame [OF t])
  then show "req_finish s' = (req_finish s)[d := req_finish s ! d + 1]" "req_submit s' = req_submit s"
    "qp_list s' = qp_list s" "qp2rank s' = qp2rank s" "k = 0"
    using s' \<open>k = 0\<close> by (auto simp: uri_verbs_send_rmt_complete_def verbs_issue_def split: if_splits)
qed

lemma process_receive:
  assumes "process_wc wc s = Inr (k, s')" "wc_opcode wc = IBV_WC_RECV_RDMA_WITH_IMM"
  shows "req_finish s' = req_finish s" "req_submit s' = req_submit s" "qp_list s' = qp_list s"
    "qp2rank s' = qp2rank s" "k = 1"
proof -
  obtain t where t: "uri_verbs_event_progress (wc_imm_data wc) s = Inr t" "s' = t" "k = 1"
    using assms by (auto simp: process_wc_def split: if_splits)
  obtain F Q where "t = s\<lparr>flags := F, queues := Q\<rparr>" by (rule event_progress_frame [OF t(1)])
  then show "req_finish s' = req_finish s" "req_submit s' = req_submit s" "qp_list s' = qp_list s"
    "qp2rank s' = qp2rank s" "k = 1" using t by simp_all
qed

lemma flow_finish:
  assumes "flow_inv k s hw" "k < 2 ^ 61" "d < length (qp_list s)" "hw d = wr # rest"
    and "process_wc (wc_of (qp_list s ! d) wr) s = Inr (j, s')"
  shows "flow_inv (Suc k) s' (hw(d := rest @ answers wr))"
proof -
  have ready: "verbs_ready s" using assms(1) by (simp add: flow_inv_def)
  have inv: "\<And>e. e < length (qp_list s) \<Longrightarrow> unat (req_submit s ! e) \<le> 2 * k \<and> length (hw e) \<le> 256 \<and>
      unat (req_finish s ! e) + length (hw e) + pending (hw e) = unat (req_submit s ! e)"
    using assms(1) by (auto simp: flow_inv_def)
  note p = process_own [OF assms(5) ready assms(3)]
  have len: "length (req_finish s) = length (qp_list s)" using ready by (simp add: verbs_ready_def)
  have "unat (req_finish s ! d) \<le> 2 * k" using inv [OF assms(3)] by simp
  then have "unat (req_finish s ! d + of_nat 1) = unat (req_finish s ! d) + 1"
    using assms(2) by (intro outstanding_word [of _ k]) simp_all
  then have one: "unat (req_finish s' ! d) = unat (req_finish s ! d) + 1" using assms(3) len by (simp add: p(1))
  have ans: "length (answers wr) = (if answers wr \<noteq> [] then 1 else 0)" by (simp add: answers_def)
  have other: "e \<noteq> d \<Longrightarrow> req_finish s' ! e = req_finish s ! e" for e by (simp add: p(1))
  have "verbs_ready s'" using ready by (simp add: verbs_ready_def p)
  moreover have "unat (req_submit s' ! e) \<le> 2 * Suc k \<and> length ((hw(d := rest @ answers wr)) e) \<le> 256 \<and>
      unat (req_finish s' ! e) + length ((hw(d := rest @ answers wr)) e) + pending ((hw(d := rest @ answers wr)) e) =
      unat (req_submit s' ! e)" if "e < length (qp_list s')" for e
  proof (cases "e = d")
    case True
    then show ?thesis using inv [OF assms(3)] one ans assms(4) by (simp add: p(2) split: if_splits)
  next
    case False
    then show ?thesis using inv [of e] other [of e] that by (simp add: p)
  qed
  ultimately show ?thesis by (simp add: flow_inv_def)
qed

lemma flow_receive:
  assumes "flow_inv k s hw" "process_wc wc s = Inr (j, s')" "wc_opcode wc = IBV_WC_RECV_RDMA_WITH_IMM"
  shows "flow_inv (Suc k) s' hw"
  using assms(1) process_receive [OF assms(2,3)] by (auto simp: flow_inv_def verbs_ready_def)

lemma run_flow_inv:
  assumes "verbs_run s0 k s hw" "verbs_ready s0" "k < 2 ^ 61"
    and "\<forall>d < length (qp_list s0). req_submit s0 ! d = 0 \<and> req_finish s0 ! d = 0"
  shows "flow_inv k s hw"
  using assms(1,3)
proof (induction rule: verbs_run.induct)
  case start
  then show ?case using assms(2,4) by (simp add: flow_inv_def)
next
  case (step k s hw s' hw')
  then have k: "k < 2 ^ 61" and inv: "flow_inv k s hw" by simp_all
  from step.hyps(2) show ?case
  proof cases
    case (post d wr)
    show ?thesis unfolding post(1) by (rule flow_post [OF inv k post(2)])
  next
    case (finish d wr rest j)
    show ?thesis unfolding finish(1) by (rule flow_finish [OF inv k finish(2-4)])
  next
    case (receive wc j)
    then show ?thesis using flow_receive [OF inv] by simp
  qed
qed

text \<open>
  C19. However posting and completing interleave, no send queue of the device ever holds more than
  the 256 requests it was created for, so no post fails for lack of room, although the daemon posts
  the answers of reads without looking; the assertions on the two counters hold, and an idle queue
  never keeps a sender waiting. The run is taken to be shorter than \<open>2 ^ 61\<close> steps, which keeps the
  64-bit counters from wrapping.
\<close>

theorem send_queue_never_overflows:
  assumes "verbs_run s0 k s hw" "verbs_ready s0" "k < 2 ^ 61"
    and "\<forall>d < length (qp_list s0). req_submit s0 ! d = 0 \<and> req_finish s0 ! d = 0"
    and "d < length (qp_list s)"
  shows "int (length (hw d)) \<le> VERBS_OUTSTANDING_SEND_REQUESTS \<and> submit_ge_finish (int d) s \<and>
    (hw d = [] \<longrightarrow> \<not> qp_full (int d) s)"
proof -
  note inv = run_flow_inv [OF assms(1-4)]
  then have "length (hw d) \<le> 256" using assms(5) by (simp add: flow_inv_def)
  then show ?thesis
    using flow_counters(3,4) [OF inv assms(3,5)] by (simp add: VERBS_OUTSTANDING_SEND_REQUESTS_def)
qed

theorem send_queue_never_overflows_witness:
  "\<exists>s hw. verbs_run verbs_example 1 s hw \<and> int (length (hw 1)) \<le> VERBS_OUTSTANDING_SEND_REQUESTS \<and> hw 1 \<noteq> []"
proof -
  let ?wr = "rmt_complete_wr 3" and ?s = "verbs_posted 1 (rmt_complete_wr 3) verbs_example"
  have "verbs_start_wrs (\<lambda>_. []) 0 [(int 1, ?wr)] verbs_example = Inr ?s"
    by (simp add: verbs_example_def qp_in_range_def submit_ge_finish_def qp_full_def qp_outstanding_def
        VERBS_OUTSTANDING_SEND_REQUESTS_def verbs_post_def verbs_check_def)
  from verbs_run.step [OF verbs_run.start verbs_step.post [OF this]]
  have run: "verbs_run verbs_example 1 ?s ((\<lambda>_. [])(1 := [] @ [?wr]))" by simp
  have "verbs_ready verbs_example" by (simp add: verbs_ready_def verbs_example_def less_Suc_eq)
  moreover have "\<forall>d < length (qp_list verbs_example). req_submit verbs_example ! d = 0 \<and> req_finish verbs_example ! d = 0"
    by (simp add: verbs_example_def less_Suc_eq)
  moreover have "1 < length (qp_list ?s)" by (simp add: verbs_example_def verbs_posted_def verbs_issue_def Let_def)
  ultimately have "int (length (((\<lambda>_. [])(1 := [] @ [?wr])) (1::nat))) \<le> VERBS_OUTSTANDING_SEND_REQUESTS"
    using send_queue_never_overflows [OF run, of 1] by simp
  then show ?thesis using run by (intro exI [of _ ?s] exI [of _ "(\<lambda>_. [])(1 := [] @ [?wr])"]) simp
qed

section \<open>Receive requests\<close>

text \<open>How many receive requests the module has given to the shared queue.\<close>

fun srq_posted :: "verbs_call list \<Rightarrow> nat" where
  "srq_posted [] = 0"
| "srq_posted (c # cs) = (case c of ibv_post_srq_recv n \<Rightarrow> n | _ \<Rightarrow> 0) + srq_posted cs"

definition receives :: "ibv_wc list \<Rightarrow> nat" where
  "receives wcs = length (filter (\<lambda>wc. wc_opcode wc = IBV_WC_RECV_RDMA_WITH_IMM) wcs)"

lemma srq_posted_append [simp]: "srq_posted (xs @ ys) = srq_posted xs + srq_posted ys"
  by (induction xs) simp_all

lemma srq_posted_issue: "srq_posted (verbs_log (verbs_issue c s)) = srq_posted (verbs_log s) + srq_posted [c]"
  by (simp add: verbs_issue_def)

lemma issue_same [simp]: "max_srq_wr (verbs_issue c s) = max_srq_wr s" "max_cqe (verbs_issue c s) = max_cqe s"
  by (simp_all add: verbs_issue_def)

lemma event_progress_log:
  "uri_verbs_event_progress e s = Inr s' \<Longrightarrow>
     verbs_log s' = verbs_log s \<and> max_srq_wr s' = max_srq_wr s \<and> max_cqe s' = max_cqe s"
  by (erule event_progress_frame) simp

lemma process_wc_srq:
  assumes "process_wc wc s = Inr (n, s')"
  shows "n = receives [wc] \<and> srq_posted (verbs_log s') = srq_posted (verbs_log s) \<and> max_srq_wr s' = max_srq_wr s"
  using assms unfolding process_wc_def
  by (auto simp: receives_def req_finished_def uri_verbs_send_rmt_complete_def srq_posted_issue Let_def
      split: ibv_wc_opcode.splits if_splits dest!: event_progress_log)

lemma process_wcs_srq:
  "process_wcs wcs s = Inr (n, s') \<Longrightarrow>
     n = receives wcs \<and> srq_posted (verbs_log s') = srq_posted (verbs_log s) \<and> max_srq_wr s' = max_srq_wr s"
proof (induction wcs arbitrary: n s)
  case Nil
  then show ?case by (simp add: receives_def)
next
  case (Cons wc wcs)
  then obtain n1 s1 m where 1: "process_wc wc s = Inr (n1, s1)" "process_wcs wcs s1 = Inr (m, s')" "n = n1 + m"
    by auto
  show ?case using process_wc_srq [OF 1(1)] Cons.IH [OF 1(2)] 1(3) by (simp add: receives_def)
qed

lemma daemon_poll_srq:
  assumes "daemon_poll wcs s = Inr s'"
  shows "srq_posted (verbs_log s') = srq_posted (verbs_log s) + receives wcs \<and> max_srq_wr s' = max_srq_wr s"
proof -
  obtain n t where t: "process_wcs wcs s = Inr (n, t)"
    and s': "if n = 0 then s' = t else s' = verbs_issue (ibv_post_srq_recv n) t"
    using assms by (auto simp: daemon_poll_def split: if_splits)
  show ?thesis using process_wcs_srq [OF t] s' by (auto simp: srq_posted_issue split: if_splits)
qed

lemma daemon_srq:
  assumes "uri_verbs_channel_daemon polls ch s = Inr (st, s')"
  shows "srq_posted (verbs_log s') = srq_posted (verbs_log s) + receives (concat polls) \<and> max_srq_wr s' = max_srq_wr s"
proof -
  have "fold_res daemon_poll polls s = Inr s' \<Longrightarrow>
    srq_posted (verbs_log s') = srq_posted (verbs_log s) + receives (concat polls) \<and> max_srq_wr s' = max_srq_wr s"
  proof (induction polls arbitrary: s)
    case Nil
    then show ?case by (simp add: receives_def)
  next
    case (Cons wcs polls)
    then obtain t where t: "daemon_poll wcs s = Inr t" "fold_res daemon_poll polls t = Inr s'" by auto
    show ?case using daemon_poll_srq [OF t(1)] Cons.IH [OF t(2)] by (simp add: receives_def)
  qed
  then show ?thesis using assms by (simp add: uri_verbs_channel_daemon_def)
qed

section \<open>Opening\<close>

lemma modify_qp_Inr [simp]:
  "modify_qp va qp a m s = Inr s' \<longleftrightarrow>
     va_modify_qp va qp a = 0 \<and> s' = s\<lparr>verbs_log := verbs_log s @ [ibv_modify_qp qp a m]\<rparr>"
  by (auto simp: modify_qp_def verbs_issue_def)

text \<open>What a call did to a queue pair: its number, the state it was moved to, the peer it was given.\<close>

fun qp_moves :: "verbs_call list \<Rightarrow> (nat \<times> ibv_qp_state \<times> nat) list" where
  "qp_moves [] = []"
| "qp_moves (c # cs) =
     (case c of ibv_modify_qp qp a m \<Rightarrow> [(qp, qp_state a, dest_qp_num a)] | _ \<Rightarrow> []) @ qp_moves cs"

lemma qp_moves_append [simp]: "qp_moves (xs @ ys) = qp_moves xs @ qp_moves ys"
  by (induction xs) simp_all

lemma create_qps:
  "fold_res (create_qp va) [0..<n] s = Inr s' \<Longrightarrow>
     n \<le> length (va_qp_nums va) \<and> (\<exists>L. s' = s\<lparr>qp_list := qp_list s @ take n (va_qp_nums va), verbs_log := verbs_log s @ L\<rparr> \<and>
       srq_posted L = 0 \<and> qp_moves L = map (\<lambda>i. (va_qp_nums va ! i, IBV_QPS_INIT, 0)) [0..<n])"
proof (induction n arbitrary: s')
  case 0
  then show ?case by (auto intro: exI [of _ "[]"])
next
  case (Suc n)
  then obtain t where t: "fold_res (create_qp va) [0..<n] s = Inr t" "create_qp va n t = Inr s'"
    by (auto simp: fold_res_append)
  show ?case
    using Suc.IH [OF t(1)] t(2)
    by (auto simp: create_qp_def modify_qp_to_init_def zero_qp_attr_def Let_def take_Suc_conv_app_nth)
qed

lemma note_qps:
  "fold_res note_qp [0..<n] s = Inr s' \<Longrightarrow>
     (\<forall>i < n. qp_list s ! i < 2 ^ 24) \<and>
     s' = s\<lparr>qp2rank := fold (\<lambda>i f. f(qp_list s ! i := of_nat i)) [0..<n] (qp2rank s)\<rparr>"
proof (induction n arbitrary: s')
  case 0
  then show ?case by simp
next
  case (Suc n)
  then obtain t where t: "fold_res note_qp [0..<n] s = Inr t" "note_qp n t = Inr s'"
    by (auto simp: fold_res_append)
  show ?case using Suc.IH [OF t(1)] t(2) by (auto simp: note_qp_def Let_def less_Suc_eq simp del: fun_upd_apply)
qed

lemma note_qps_inverse:
  "distinct (take n qs) \<Longrightarrow> n \<le> length qs \<Longrightarrow> i < n \<Longrightarrow>
     fold (\<lambda>i f. f(qs ! i := of_nat i)) [0..<n] f0 (qs ! i) = (of_nat i :: u32)"
proof (induction n)
  case (Suc n)
  have d: "distinct (take n qs)" using Suc.prems(1) by (simp add: take_Suc_conv_app_nth distinct_append Suc.prems(2) Suc_le_lessD)
  show ?case
  proof (cases "i = n")
    case False
    then have "i < n" using Suc.prems(3) by simp
    moreover have "qs ! i \<noteq> qs ! n"
      using \<open>i < n\<close> Suc.prems(1,2) nth_eq_iff_index_eq [OF Suc.prems(1), of i n] by simp
    ultimately show ?thesis using Suc.IH [OF d] Suc.prems(2) by simp
  qed simp
qed simp

text \<open>The two transitions that connect the queue pair of rank \<open>i\<close>.\<close>

definition connect_moves :: "verbs_answers \<Rightarrow> nat list \<Rightarrow> nat \<Rightarrow> (nat \<times> ibv_qp_state \<times> nat) list" where
  "connect_moves va qs i = [(qs ! i, IBV_QPS_RTR, va_alltoall va ! i), (qs ! i, IBV_QPS_RTS, 0)]"

lemma connect_one:
  assumes "connect_qp va roce i s = Inr s'"
  shows "\<exists>g gi. s' = s\<lparr>verbs_log := verbs_log s @
    [ibv_modify_qp (qp_list s ! i) (rtr_attr (va_alltoall va ! i) (va_lids va ! i) g gi (va_max_mtu va)) rtr_mask,
     ibv_modify_qp (qp_list s ! i) rts_attr rts_mask]\<rparr>"
proof -
  define g where "g = (if roce then Some (va_gids va ! i) else None)"
  define gi where "gi = (if roce then va_gid_idx va else 0)"
  have "s' = s\<lparr>verbs_log := verbs_log s @
    [ibv_modify_qp (qp_list s ! i) (rtr_attr (va_alltoall va ! i) (va_lids va ! i) g gi (va_max_mtu va)) rtr_mask,
     ibv_modify_qp (qp_list s ! i) rts_attr rts_mask]\<rparr>"
    using assms unfolding connect_qp_def g_def [symmetric] gi_def [symmetric] modify_qp_to_rtr_def modify_qp_to_rts_def
    by (clarsimp split: if_splits)
  then show ?thesis by blast
qed

lemma connect_qps:
  "fold_res (connect_qp va roce) [0..<n] s = Inr s' \<Longrightarrow>
     \<exists>L. s' = s\<lparr>verbs_log := verbs_log s @ L\<rparr> \<and> srq_posted L = 0 \<and>
       qp_moves L = concat (map (connect_moves va (qp_list s)) [0..<n])"
proof (induction n arbitrary: s')
  case 0
  then show ?case by (auto intro: exI [of _ "[]"])
next
  case (Suc n)
  then obtain t where t: "fold_res (connect_qp va roce) [0..<n] s = Inr t" "connect_qp va roce n t = Inr s'"
    by (auto simp: fold_res_append)
  obtain L where L: "t = s\<lparr>verbs_log := verbs_log s @ L\<rparr>" "srq_posted L = 0"
      "qp_moves L = concat (map (connect_moves va (qp_list s)) [0..<n])"
    using Suc.IH [OF t(1)] by blast
  obtain g gi where s': "s' = t\<lparr>verbs_log := verbs_log t @
      [ibv_modify_qp (qp_list t ! n) (rtr_attr (va_alltoall va ! n) (va_lids va ! n) g gi (va_max_mtu va)) rtr_mask,
       ibv_modify_qp (qp_list t ! n) rts_attr rts_mask]\<rparr>"
    using connect_one [OF t(2)] by blast
  show ?case
    using L s' by (intro exI [of _ "L @ [ibv_modify_qp (qp_list t ! n)
        (rtr_attr (va_alltoall va ! n) (va_lids va ! n) g gi (va_max_mtu va)) rtr_mask,
       ibv_modify_qp (qp_list t ! n) rts_attr rts_mask]"])
      (simp add: connect_moves_def [of va "qp_list s" n] rtr_attr_def rts_attr_def zero_qp_attr_def)
qed

lemma open_connects:
  fixes s s' :: uri_verbs_state
  assumes "uri_verbs_channel_open va ch s = Inr (st, s')" "n = nat (mpi_size (uru_mpi s))"
    and "distinct (take n (va_qp_nums va))"
  shows "verbs_ready s' \<and> length (qp_list s') = n \<and>
    (\<forall>d < n. req_submit s' ! d = 0 \<and> req_finish s' ! d = 0) \<and>
    srq_posted (verbs_log s') = srq_posted (verbs_log s) + max_srq_wr s' \<and>
    qp_moves (verbs_log s') = qp_moves (verbs_log s) @
      map (\<lambda>d. (qp_list s' ! d, IBV_QPS_INIT, 0)) [0..<n] @ concat (map (connect_moves va (qp_list s')) [0..<n])"
proof -
  obtain dev s1 s2 s3 s4 where
      1: "open_device va ch s = Inr (dev, s1)"
    and 2: "fold_res (create_qp va) [0..<n] ((verbs_issue (ibv_post_srq_recv (max_srq_wr s1)) s1)\<lparr>qp_list := []\<rparr>) = Inr s2"
    and 3: "fold_res note_qp [0..<n] (s2\<lparr>qp2rank := (\<lambda>_. - 1)\<rparr>) = Inr s3"
    and 4: "fold_res (connect_qp va (dv_lid dev = 0)) [0..<n] s3 = Inr s4"
    and 5: "init_flag_pool (env_num_flags va) (va_flag_arr va) (va_flag_bases va)
        (s4\<lparr>req_submit := replicate n 0, req_finish := replicate n 0\<rparr>) = Inr s'"
    using assms(1) unfolding uri_verbs_channel_open_def Let_def assms(2) [symmetric] verbs_check_def
    by (auto split: if_splits)
  define qs where "qs = take n (va_qp_nums va)"
  have s1: "verbs_log s1 = verbs_log s"
    using 1 by (auto simp: open_device_def Let_def verbs_check_def split: option.splits if_splits)
  obtain L1 where len: "n \<le> length (va_qp_nums va)" and q2: "qp_list s2 = qs"
    and l2: "verbs_log s2 = (verbs_log s1 @ [ibv_post_srq_recv (max_srq_wr s1)]) @ L1" and m2: "max_srq_wr s2 = max_srq_wr s1"
    and L1: "srq_posted L1 = 0" "qp_moves L1 = map (\<lambda>i. (va_qp_nums va ! i, IBV_QPS_INIT, 0)) [0..<n]"
    using create_qps [OF 2] by (auto simp: verbs_issue_def qs_def)
  have small: "\<forall>i < n. qs ! i < 2 ^ 24" and s3: "qp_list s3 = qs" "verbs_log s3 = verbs_log s2"
      "max_srq_wr s3 = max_srq_wr s2"
      "qp2rank s3 = fold (\<lambda>i f. f(qs ! i := of_nat i)) [0..<n] (\<lambda>_. - 1)"
    using note_qps [OF 3] q2 by auto
  obtain L2 where s4: "s4 = s3\<lparr>verbs_log := verbs_log s3 @ L2\<rparr>"
    and L2: "srq_posted L2 = 0" "qp_moves L2 = concat (map (connect_moves va qs) [0..<n])"
    using connect_qps [OF 4] s3(1) by auto
  obtain fp F where s': "s' = s4\<lparr>req_submit := replicate n 0, req_finish := replicate n 0, flag_pool := fp, flags := F\<rparr>"
    using 5 by (auto simp: init_flag_pool_def Let_def)
  have qn: "length qs = n" "distinct qs" using len assms(3) by (simp_all add: qs_def)
  have "set qs \<subseteq> {0..<2 ^ 24}" using small qn(1) by (auto simp: in_set_conv_nth)
  then have "card (set qs) \<le> card {0..<2 ^ 24 :: nat}" by (intro card_mono) auto
  then have n24: "n \<le> 2 ^ 24" using qn distinct_card [OF qn(2)] by simp
  have rank: "unat (qp2rank s3 (qs ! d)) = d" if "d < n" for d
    using note_qps_inverse [of n qs d] qn that n24
    by (simp add: s3(4) unat_of_nat take_bit_nat_eq_self)
  have init: "map (\<lambda>i. (va_qp_nums va ! i, IBV_QPS_INIT, 0)) [0..<n] = map (\<lambda>d. (qs ! d, IBV_QPS_INIT, 0)) [0..<n]"
    by (simp add: qs_def)
  have "verbs_ready s'" using small rank qn(1) s3(1) by (simp add: verbs_ready_def s' s4)
  moreover have "srq_posted (verbs_log s') = srq_posted (verbs_log s) + max_srq_wr s'"
    using s3 l2 s1 m2 L1 L2 by (simp add: s' s4)
  moreover have "qp_moves (verbs_log s') = qp_moves (verbs_log s) @
      map (\<lambda>d. (qp_list s' ! d, IBV_QPS_INIT, 0)) [0..<n] @ concat (map (connect_moves va (qp_list s')) [0..<n])"
    using s3 l2 s1 L1 L2 init by (simp add: s' s4)
  ultimately show ?thesis using s3(1) qn(1) by (auto simp: s' s4)
qed

text \<open>
  C33. Opening leaves the module ready: there is one queue pair per rank, the table from queue pair
  numbers to ranks finds the rank of every completion, the counters are zero, and every queue pair
  has gone through the three transitions in order, connected to the number its peer sent. That the
  device gives out different numbers is what the Verbs library promises.
\<close>

theorem verbs_open_connects:
  fixes s s' :: uri_verbs_state
  assumes "uri_verbs_channel_open va ch s = Inr (st, s')" "n = nat (mpi_size (uru_mpi s))"
    and "distinct (take n (va_qp_nums va))"
  shows "verbs_ready s' \<and> length (qp_list s') = n \<and>
    (\<forall>d < n. req_submit s' ! d = 0 \<and> req_finish s' ! d = 0) \<and>
    srq_posted (verbs_log s') = srq_posted (verbs_log s) + max_srq_wr s' \<and>
    qp_moves (verbs_log s') = qp_moves (verbs_log s) @
      map (\<lambda>d. (qp_list s' ! d, IBV_QPS_INIT, 0)) [0..<n] @ concat (map (connect_moves va (qp_list s')) [0..<n])"
  using open_connects [OF assms] .

definition verbs_example_answers :: verbs_answers where
  "verbs_example_answers = \<lparr>env_device_num = None, env_target_system = None, env_num_flags = None, env_unr_dir = None,
     va_dev_list = Some [\<lparr>dv_open = True, dv_max_qp_wr = 1024, dv_max_cqe = 4, dv_max_srq_wr = 8, dv_query_port = 0,
       dv_lid = 5, dv_active_mtu = 4\<rparr>],
     va_srq = True, va_cq = True, va_qp_nums = [7, 9], va_modify_qp = (\<lambda>_ _. 0), va_alltoall = [7, 11],
     va_lids = [5, 6], va_gid_idx = 0, va_query_gid = 0, va_gids = [], va_max_mtu = 4, va_flag_arr = 240,
     va_flag_bases = [240, 480]\<rparr>"

lemma verbs_example_open:
  "\<exists>s. uri_verbs_channel_open verbs_example_answers verbs_example_hdr verbs_example = Inr (URU_STATUS_OK, s) \<and>
     max_cqe s = 4 \<and> max_srq_wr s = 8 \<and> verbs_answer s = (\<lambda>_ _. 0)"
proof -
  have "nat (mpi_size (uru_mpi verbs_example)) = 2" by (simp add: verbs_example_def)
  moreover have "[0..<2] = [0, 1::nat]" by (simp add: upt_rec)
  ultimately show ?thesis
    by (simp add: uri_verbs_channel_open_def open_device_def open_dev_id_def verbs_example_defs verbs_example_answers_def
        verbs_check_def verbs_try_def VERBS_OUTSTANDING_SEND_REQUESTS_def Let_def create_qp_def modify_qp_to_init_def note_qp_def
        connect_qp_def modify_qp_to_rtr_def modify_qp_to_rts_def modify_qp_def verbs_issue_def init_flag_pool_def)
qed

theorem verbs_open_connects_witness:
  "\<exists>s. uri_verbs_channel_open verbs_example_answers verbs_example_hdr verbs_example = Inr (URU_STATUS_OK, s) \<and>
     verbs_ready s \<and> length (qp_list s) = 2"
proof -
  obtain s where s: "uri_verbs_channel_open verbs_example_answers verbs_example_hdr verbs_example = Inr (URU_STATUS_OK, s)"
    using verbs_example_open by blast
  have "verbs_ready s \<and> length (qp_list s) = 2"
    using verbs_open_connects [OF s, of 2] by (simp add: verbs_example_def verbs_example_answers_def)
  with s show ?thesis by blast
qed

text \<open>One call of the daemon after another.\<close>

definition daemon_calls ::
  "ibv_wc list list list \<Rightarrow> uri_channel_hdr \<Rightarrow> uri_verbs_state \<Rightarrow> uri_verbs_state res" where
  "daemon_calls calls ch =
     fold_res (\<lambda>polls s. res_bind (uri_verbs_channel_daemon polls ch s) (\<lambda>(_, s). Inr s)) calls"

lemma daemon_calls_srq:
  "daemon_calls calls ch s = Inr s' \<Longrightarrow>
     srq_posted (verbs_log s') = srq_posted (verbs_log s) + receives (concat (concat calls)) \<and> max_srq_wr s' = max_srq_wr s"
  unfolding daemon_calls_def
proof (induction calls arbitrary: s)
  case Nil
  then show ?case by (simp add: receives_def)
next
  case (Cons polls calls)
  then obtain st t where t: "uri_verbs_channel_daemon polls ch s = Inr (st, t)"
      "fold_res (\<lambda>polls s. res_bind (uri_verbs_channel_daemon polls ch s) (\<lambda>(_, s). Inr s)) calls t = Inr s'"
    by auto
  show ?case using daemon_srq [OF t(1)] Cons.IH [OF t(2)] by (simp add: receives_def)
qed

text \<open>
  C34. The shared receive queue never drains: after opening and any calls of the daemon the module
  has posted exactly the \<open>max_srq_wr\<close> receive requests of the device and one more for every message
  that used one up.
\<close>

theorem srq_never_drains:
  assumes "uri_verbs_channel_open va ch s = Inr (st, s1)" "verbs_log s = []"
    and "distinct (take (nat (mpi_size (uru_mpi s))) (va_qp_nums va))"
    and "daemon_calls calls ch s1 = Inr s2"
  shows "srq_posted (verbs_log s2) = max_srq_wr s2 + receives (concat (concat calls))"
proof -
  have "srq_posted (verbs_log s1) = max_srq_wr s1"
    using open_connects [OF assms(1) refl assms(3)] assms(2) by simp
  then show ?thesis using daemon_calls_srq [OF assms(4)] by simp
qed

theorem srq_never_drains_witness:
  "\<exists>s1 s2. uri_verbs_channel_open verbs_example_answers verbs_example_hdr verbs_example = Inr (URU_STATUS_OK, s1) \<and>
     daemon_calls [[[\<lparr>wc_success = True, wc_opcode = IBV_WC_RECV_RDMA_WITH_IMM, wc_qp_num = 9, wc_wrid_imm = 0,
       wc_wrid_rmt_imm = 0, wc_imm_data = 0\<rparr>]]] verbs_example_hdr s1 = Inr s2 \<and>
     srq_posted (verbs_log s2) = max_srq_wr s2 + 1"
proof -
  obtain s1 where s1: "uri_verbs_channel_open verbs_example_answers verbs_example_hdr verbs_example = Inr (URU_STATUS_OK, s1)"
    using verbs_example_open by blast
  let ?wc = "\<lparr>wc_success = True, wc_opcode = IBV_WC_RECV_RDMA_WITH_IMM, wc_qp_num = 9, wc_wrid_imm = 0,
       wc_wrid_rmt_imm = 0, wc_imm_data = 0\<rparr>"
  have m: "max_cqe s1 = 4 \<and> max_srq_wr s1 = 8 \<and> verbs_answer s1 = (\<lambda>_ _. 0)" using verbs_example_open s1 by auto
  obtain s2 where s2: "daemon_calls [[[?wc]]] verbs_example_hdr s1 = Inr s2"
    using m by (simp add: daemon_calls_def uri_verbs_channel_daemon_def daemon_poll_def process_wc_def
        uri_verbs_event_progress_def verbs_try_def verbs_check_def)
  have "srq_posted (verbs_log s2) = max_srq_wr s2 + receives (concat (concat [[[?wc]]]))"
    by (rule srq_never_drains [OF s1 _ _ s2]) (simp_all add: verbs_example_def verbs_example_answers_def)
  then show ?thesis using s1 s2 by (auto simp: receives_def)
qed

end
