(* ===== verification/Uri_Verbs_Notify.thy ===== *)
theory Uri_Verbs_Notify
  imports Uri_Verbs_Flow
begin

text \<open>
  Notification over the Verbs module, \<open>src/uri/verbs/uri_verbs_rdma.c\<close> and the daemon of
  \<open>uri_verbs_channel.c\<close>: the two completions of a write, at the sender and at the target, do to the
  flags of the write what the completion of a pair of MPI operations does.
\<close>

section \<open>Flags that both sides know\<close>

text \<open>Two processes that agree on where the flags of the second one are, as \<open>init_flag_pool\<close> gathers them.\<close>

definition pools_agree :: "('z) uri_verbs_state_scheme \<Rightarrow> 'z uri_verbs_state_scheme \<Rightarrow> bool" where
  "pools_agree u s \<longleftrightarrow> (case (flag_pool u, flag_pool s) of
     (Some fp, Some fp') \<Rightarrow> let r = nat (mpi_rank (uru_mpi s)) in
       r < length (fp_rmt_base fp') \<and> fp_rmt_base fp ! r = fp_rmt_base fp' ! r
   | _ \<Rightarrow> False)"

text \<open>A null flag, or one of the own pool that waits for another event; index \<open>0\<close> is never handed out.\<close>

definition flag_waits :: "('z) uri_verbs_state_scheme \<Rightarrow> addr \<Rightarrow> bool" where
  "flag_waits s f \<longleftrightarrow> f = 0 \<or> (case (flag_pool s, flags s f) of
     (Some fp, Some x) \<Rightarrow> let base = fp_rmt_base fp ! nat (mpi_rank (uru_mpi s)) in
       base < f \<and> (f - base) mod sizeof_flag = 0 \<and> 0 \<le> sint (counter x - 1)
   | _ \<Rightarrow> False)"

lemma event_as_mpi:
  assumes "uri_verbs_event_fill (mpi_rank (uru_mpi s)) f add u = Inr e" "pools_agree u s" "flag_waits s f" "f \<noteq> 0"
  shows "uri_verbs_event_progress e s = mpi_flag_event f add s" "e \<noteq> 0"
proof -
  let ?r = "nat (mpi_rank (uru_mpi s))"
  obtain fp fp' where p: "flag_pool u = Some fp" "flag_pool s = Some fp'" "?r < length (fp_rmt_base fp')"
      "fp_rmt_base fp ! ?r = fp_rmt_base fp' ! ?r"
    using assms(2) by (auto simp: pools_agree_def Let_def split: option.splits)
  obtain x where x: "flags s f = Some x" "fp_rmt_base fp ! ?r < f" "(f - fp_rmt_base fp ! ?r) mod sizeof_flag = 0"
      "0 \<le> sint (counter x - 1)"
    using assms(3,4) p(2,4) by (auto simp: flag_waits_def Let_def split: option.splits)
  define i where "i = (f - fp_rmt_base fp ! ?r) div sizeof_flag"
  have i: "f = flag_at (fp_rmt_base fp ! ?r) i"
    using x(2,3) mult_div_mod_eq [of sizeof_flag "f - fp_rmt_base fp ! ?r"] by (simp add: i_def flag_at_def)
  then have i0: "0 < i" using x(2) by (cases i) (simp_all add: flag_at_def)
  show "uri_verbs_event_progress e s = mpi_flag_event f add s"
    by (rule verbs_event_hits_flag [OF assms(1) p(1,2) refl p(3,4) i i0 x(1,4)])
  have e: "e = of_nat i" and lt: "i < unat (fp_size fp)"
    using assms(1) p(1) i by (auto simp: uri_verbs_event_fill_def Let_def flag_at_def sizeof_flag_def split: if_splits)
  have "unat (fp_size fp) < 2 ^ LENGTH(32)" by (rule unsigned_less)
  with lt have "unat e = i" by (simp add: e unat_of_nat take_bit_nat_eq_self)
  then show "e \<noteq> 0" using i0 by auto
qed

section \<open>What the target hears\<close>

text \<open>
  The immediate data that reaches the target: with the request, or for a read with the message that the
  daemon of the reader sends when it is done.
\<close>

definition told :: "ibv_send_wr \<Rightarrow> u32 option" where
  "told wr = (if opcode wr = IBV_WR_RDMA_WRITE_WITH_IMM then Some (imm_data wr)
     else case answers wr of [] \<Rightarrow> None | a # _ \<Rightarrow> Some (imm_data a))"

definition told_wc :: "nat \<Rightarrow> u32 \<Rightarrow> ibv_wc" where
  "told_wc qp e = \<lparr>wc_success = True, wc_opcode = IBV_WC_RECV_RDMA_WITH_IMM, wc_qp_num = qp, wc_wrid_imm = 0,
     wc_wrid_rmt_imm = 0, wc_imm_data = e\<rparr>"

definition one_finished_at :: "nat \<Rightarrow> ('z) uri_verbs_state_scheme \<Rightarrow> 'z uri_verbs_state_scheme" where
  "one_finished_at d s = s\<lparr>req_finish := (req_finish s)[d := req_finish s ! d + 1]\<rparr>"

lemma waits_finished: "flag_waits (one_finished_at d s) f = flag_waits s f" "pools_agree u (one_finished_at d s) = pools_agree u s"
  by (simp_all add: flag_waits_def pools_agree_def one_finished_at_def split: option.split)

text \<open>
  C23. A write over Verbs notifies as one over MPI does. At the sender the completion of the request takes
  it off the send queue and does to the flag of this side what the completion of the local MPI
  operation does, and after a read the target is told; at the target the message does to the flag of
  that side what the completion of the remote MPI operation does, and there is none where the write
  names no remote flag.
\<close>

theorem verbs_write_notifies_like_mpi:
  assumes "verbs_create_wr ch (t, w) u = Inr (d, wr)"
    and "uri_mem_get_info (mems u) ch (loc_mem w) = Inr (la, ls, mpi_rank (uru_mpi s))" "0 \<le> d"
    and "verbs_ready s" "nat d < length (qp_list s)" "pools_agree u s" "flag_waits s (loc_flag_p w)"
    and "mpi_rank (uru_mpi s') = d" "pools_agree u s'" "flag_waits s' (rmt_flag_p w)"
  shows "process_wc (wc_of (qp_list s ! nat d) wr) s =
      res_bind (mpi_flag_event (loc_flag_p w) (loc_flag_add w) (one_finished_at (nat d) s)) (\<lambda>s.
      if opcode wr = IBV_WR_RDMA_READ
      then res_bind (uri_verbs_send_rmt_complete d (wrid_rmt_imm wr) s) (\<lambda>s. Inr (0, s)) else Inr (0, s)) \<and>
    (case told wr of
       None \<Rightarrow> rmt_flag_p w = 0
     | Some e \<Rightarrow> process_wc (told_wc qp e) s' = res_bind (mpi_flag_event (rmt_flag_p w) (rmt_flag_add w) s') (\<lambda>s. Inr (1, s)))"
proof -
  obtain la' ls' src ra rs op lm rm wr1 where c: "uri_mem_get_info (mems u) ch (loc_mem w) = Inr (la', ls', src)"
      "wr_opcode t = Inr op"
      "verbs_loc_event src w u (verbs_base_wr op la' ra lm rm w) = Inr wr1" "verbs_rmt_event d w u wr1 = Inr wr"
    by (rule verbs_create_wr_Inr [OF assms(1)])
  have src: "src = mpi_rank (uru_mpi s)" using c(1) assms(2) by simp
  have op: "op = IBV_WR_RDMA_WRITE \<or> op = IBV_WR_RDMA_READ" using c(2) by (cases t) (simp_all add: wr_opcode_def)
  have base: "opcode wr1 = op" "wrid_rmt_imm wr1 = 0" "imm_data wr1 = 0" "wrid_imm wr = wrid_imm wr1"
    using c(3) verbs_rmt_event_frame [OF c(4)] by (auto simp: verbs_loc_event_def verbs_base_wr_def split: if_splits)
  let ?s = "one_finished_at (nat d) s"
  have fin: "req_finished (qp_list s ! nat d) s = Inr (d, ?s)"
    using assms(3-5) by (auto simp: req_finished_def verbs_ready_def Let_def one_finished_at_def)
  have own: "uri_verbs_event_progress (wrid_imm wr) ?s = mpi_flag_event (loc_flag_p w) (loc_flag_add w) ?s"
  proof (cases "loc_flag_p w = 0")
    case True
    then have "wrid_imm wr = 0" using c(3) base(4) by (auto simp: verbs_loc_event_def verbs_base_wr_def)
    then show ?thesis using True by (simp add: uri_verbs_event_progress_def mpi_flag_event_def)
  next
    case False
    then have "uri_verbs_event_fill src (loc_flag_p w) (loc_flag_add w) u = Inr (wrid_imm wr)"
      using c(3) base(4) by (auto simp: verbs_loc_event_def)
    then show ?thesis
      using event_as_mpi(1) [of ?s "loc_flag_p w" "loc_flag_add w" u "wrid_imm wr"] assms(6,7) False src
      by (simp add: waits_finished) (simp add: one_finished_at_def)
  qed
  have read: "opcode wr = IBV_WR_RDMA_READ \<longleftrightarrow> op = IBV_WR_RDMA_READ"
    using c(4) base(1) by (auto simp: verbs_rmt_event_def split: if_splits)
  have sender: "process_wc (wc_of (qp_list s ! nat d) wr) s =
      res_bind (mpi_flag_event (loc_flag_p w) (loc_flag_add w) ?s) (\<lambda>s.
      if opcode wr = IBV_WR_RDMA_READ
      then res_bind (uri_verbs_send_rmt_complete d (wrid_rmt_imm wr) s) (\<lambda>s. Inr (0, s)) else Inr (0, s))"
    by (simp add: process_wc_def wc_of_def fin own)
  have target: "case told wr of None \<Rightarrow> rmt_flag_p w = 0
     | Some e \<Rightarrow> process_wc (told_wc qp e) s' = res_bind (mpi_flag_event (rmt_flag_p w) (rmt_flag_add w) s') (\<lambda>s. Inr (1, s))"
  proof (cases "rmt_flag_p w = 0")
    case True
    then have "wr = wr1" using c(4) by (simp add: verbs_rmt_event_def)
    then show ?thesis using True base(1,2) op by (auto simp: told_def answers_def)
  next
    case False
    obtain e where e: "uri_verbs_event_fill d (rmt_flag_p w) (rmt_flag_add w) u = Inr e"
        "told wr = (if op = IBV_WR_RDMA_WRITE then Some e else if e = 0 then None else Some e)"
      using c(4) False base(1) op by (auto simp: verbs_rmt_event_def told_def answers_def rmt_complete_wr_def split: if_splits)
    have "uri_verbs_event_progress e s' = mpi_flag_event (rmt_flag_p w) (rmt_flag_add w) s'" "e \<noteq> 0"
      using event_as_mpi [of s' "rmt_flag_p w" "rmt_flag_add w" u e] e(1) assms(8-10) False by simp_all
    then show ?thesis by (simp add: e(2) process_wc_def told_wc_def)
  qed
  from sender target show ?thesis ..
qed

text \<open>Rank 0 puts into the memory of rank 1; the flags at 264 and 528 both wait for one event.\<close>

definition verbs_example_peer :: uri_verbs_state where
  "verbs_example_peer = verbs_example\<lparr>uru_mpi := \<lparr>mpi_rank = 1, mpi_size = 2, same_node = [False, True]\<rparr>\<rparr>"

theorem verbs_write_notifies_like_mpi_witness:
  "\<exists>wr. verbs_create_wr verbs_example_hdr (URU_TRANSFER_TYPE_DMA_PUT, verbs_example_wrt) verbs_example = Inr (1, wr) \<and>
     process_wc (wc_of 9 wr) verbs_example =
       res_bind (mpi_flag_event 264 (- 1) (one_finished_at 1 verbs_example)) (\<lambda>s. Inr (0, s)) \<and>
     (\<exists>e. told wr = Some e \<and>
       process_wc (told_wc 7 e) verbs_example_peer = res_bind (mpi_flag_event 528 (- 1) verbs_example_peer) (\<lambda>s. Inr (1, s)))"
proof -
  note c = verbs_example_create
  have m: "uri_mem_get_info (mems verbs_example) verbs_example_hdr (loc_mem verbs_example_wrt) =
      Inr (0x10000, 4096, mpi_rank (uru_mpi verbs_example))" "(0::int) \<le> 1"
    by (simp_all add: uri_mem_get_info_def verbs_example_defs)
  have s: "verbs_ready verbs_example" "nat 1 < length (qp_list verbs_example)" "pools_agree verbs_example verbs_example"
      "flag_waits verbs_example (loc_flag_p verbs_example_wrt)"
    by (simp_all add: verbs_ready_def verbs_example_def less_Suc_eq pools_agree_def flag_waits_def sizeof_flag_def verbs_example_wrt_def)
  have s': "mpi_rank (uru_mpi verbs_example_peer) = 1" "pools_agree verbs_example verbs_example_peer"
      "flag_waits verbs_example_peer (rmt_flag_p verbs_example_wrt)"
    by (simp_all add: verbs_example_peer_def verbs_example_def pools_agree_def flag_waits_def sizeof_flag_def verbs_example_wrt_def)
  from verbs_write_notifies_like_mpi [OF c m s s', of 7] show ?thesis
    unfolding c by (auto simp: told_def verbs_example_defs)
qed

end
