(* ===== verification/Uru_Layout.thy ===== *)
theory Uru_Layout
  imports Uru_Status
begin

text \<open>
  The C types of the program's structures on 64-bit Linux: sizes, alignments and the bytes of a value,
  with the structures of \<open>src/unr/api/unr.h\<close>, \<open>src/unr/base/unr_def.h\<close>, \<open>src/uri/mpi/uri_mpi.h\<close>,
  \<open>src/uri/verbs/uri_verbs.h\<close> and \<open>src/uru/type\<close>. A typed value has the bytes that its type says, and
  reading them gives the value back.
\<close>

section \<open>Types\<close>

text \<open>An integer of \<open>n\<close> bytes, signed or not (pointers are unsigned); a structure, packed or not; a union; an array.\<close>

datatype ctype =
    TInt nat bool
  | TStruct bool "ctype list"
  | TUnion "ctype list"
  | TArr nat ctype

text \<open>The bytes of a union are left as they are.\<close>

datatype cval =
    VInt int
  | VList "cval list"
  | VBytes "u8 list"

definition round_up :: "nat \<Rightarrow> nat \<Rightarrow> nat" where
  "round_up off a = (off + a - 1) div a * a"

definition padded :: "bool \<Rightarrow> nat \<Rightarrow> nat \<Rightarrow> nat" where
  "padded packed off a = (if packed then off else round_up off a)"

fun calign :: "ctype \<Rightarrow> nat" where
  "calign (TInt n _) = n"
| "calign (TStruct packed ts) = (if packed then 1 else foldr max (map calign ts) 1)"
| "calign (TUnion ts) = foldr max (map calign ts) 1"
| "calign (TArr n t) = calign t"

fun fields_end :: "bool \<Rightarrow> nat \<Rightarrow> (nat \<times> nat) list \<Rightarrow> nat" where
  "fields_end packed off [] = off"
| "fields_end packed off ((n, a) # fs) = fields_end packed (padded packed off a + n) fs"

fun csize :: "ctype \<Rightarrow> nat" where
  "csize (TInt n _) = n"
| "csize (TStruct packed ts) =
     padded packed (fields_end packed 0 (map (\<lambda>t. (csize t, calign t)) ts)) (foldr max (map calign ts) 1)"
| "csize (TUnion ts) = round_up (foldr max (map csize ts) 0) (foldr max (map calign ts) 1)"
| "csize (TArr n t) = n * csize t"

text \<open>Where the fields of a structure start.\<close>

fun field_offsets :: "bool \<Rightarrow> nat \<Rightarrow> ctype list \<Rightarrow> nat list" where
  "field_offsets packed off [] = []"
| "field_offsets packed off (t # ts) =
     (let o' = padded packed off (calign t) in o' # field_offsets packed (o' + csize t) ts)"

section \<open>Values and their bytes\<close>

fun le_bytes :: "nat \<Rightarrow> int \<Rightarrow> u8 list" where
  "le_bytes 0 x = []"
| "le_bytes (Suc n) x = of_int x # le_bytes n (x div 256)"

fun le_nat :: "u8 list \<Rightarrow> int" where
  "le_nat [] = 0"
| "le_nat (b # bs) = uint b + 256 * le_nat bs"

definition le_int :: "bool \<Rightarrow> nat \<Rightarrow> u8 list \<Rightarrow> int" where
  "le_int sg n bs = (let x = le_nat bs in if sg \<and> 2 ^ (8 * n - 1) \<le> x then x - 2 ^ (8 * n) else x)"

fun has_type :: "ctype \<Rightarrow> cval \<Rightarrow> bool" and have_types :: "ctype list \<Rightarrow> cval list \<Rightarrow> bool" where
  "has_type (TInt n sg) (VInt x) = (0 < n \<and>
     (if sg then - (2 ^ (8 * n - 1)) \<le> x \<and> x < 2 ^ (8 * n - 1) else 0 \<le> x \<and> x < 2 ^ (8 * n)))"
| "has_type (TStruct packed ts) (VList vs) = have_types ts vs"
| "has_type (TUnion ts) (VBytes bs) = (length bs = csize (TUnion ts))"
| "has_type (TArr n t) (VList vs) = (length vs = n \<and> (\<forall>v \<in> set vs. has_type t v))"
| "has_type _ _ = False"
| "have_types [] [] = True"
| "have_types (t # ts) (v # vs) = (has_type t v \<and> have_types ts vs)"
| "have_types _ _ = False"

fun encode :: "ctype \<Rightarrow> cval \<Rightarrow> u8 list"
  and encode_fields :: "bool \<Rightarrow> nat \<Rightarrow> ctype list \<Rightarrow> cval list \<Rightarrow> u8 list" where
  "encode (TInt n _) (VInt x) = le_bytes n x"
| "encode (TStruct packed ts) (VList vs) =
     (let bs = encode_fields packed 0 ts vs in bs @ replicate (csize (TStruct packed ts) - length bs) 0)"
| "encode (TUnion ts) (VBytes bs) = bs"
| "encode (TArr n t) (VList vs) = concat (map (encode t) vs)"
| "encode _ _ = []"
| "encode_fields packed off (t # ts) (v # vs) =
     (let o' = padded packed off (calign t) in
      replicate (o' - off) 0 @ encode t v @ encode_fields packed (o' + csize t) ts vs)"
| "encode_fields packed off _ _ = []"

fun decode :: "ctype \<Rightarrow> u8 list \<Rightarrow> cval"
  and decode_fields :: "bool \<Rightarrow> nat \<Rightarrow> ctype list \<Rightarrow> u8 list \<Rightarrow> cval list" where
  "decode (TInt n sg) bs = VInt (le_int sg n (take n bs))"
| "decode (TStruct packed ts) bs = VList (decode_fields packed 0 ts bs)"
| "decode (TUnion ts) bs = VBytes (take (csize (TUnion ts)) bs)"
| "decode (TArr n t) bs = VList (map (\<lambda>i. decode t (drop (i * csize t) bs)) [0..<n])"
| "decode_fields packed off [] bs = []"
| "decode_fields packed off (t # ts) bs =
     (let o' = padded packed off (calign t) in
      decode t (drop o' bs) # decode_fields packed (o' + csize t) ts bs)"

section \<open>Integers\<close>

lemma length_le_bytes [simp]: "length (le_bytes n x) = n"
  by (induction n arbitrary: x) auto

lemma le_nat_bytes: "le_nat (le_bytes n x) = x mod 2 ^ (8 * n)"
proof (induction n arbitrary: x)
  case (Suc n)
  have "x mod 2 ^ (8 * Suc n) = x mod 256 + 256 * (x div 256 mod 2 ^ (8 * n))"
    using zmod_zmult2_eq [of "2 ^ (8 * n)" x 256] by (simp add: power_add)
  then show ?case using Suc by (simp add: uint_word_of_int)
qed simp

lemma le_int_bytes:
  assumes "has_type (TInt n sg) (VInt x)"
  shows "le_int sg n (le_bytes n x) = x"
proof -
  obtain k where k: "8 * n = Suc k" using assms by (cases n) auto
  have p: "(2 :: int) ^ (8 * n) = 2 * 2 ^ k" "8 * n - 1 = k" by (simp_all add: k)
  show ?thesis
  proof (cases "0 \<le> x")
    case True
    then have "x mod 2 ^ (8 * n) = x" using assms p by (cases sg) auto
    then show ?thesis using assms p by (auto simp: le_int_def le_nat_bytes Let_def)
  next
    case False
    then have "sg" "- (2 ^ k) \<le> x" using assms p(2) by (auto split: if_splits)
    moreover have "x mod 2 ^ (8 * n) = x + 2 ^ (8 * n)"
    proof -
      have "(x + 2 ^ (8 * n)) mod 2 ^ (8 * n) = x + 2 ^ (8 * n)"
        using False calculation(2) p(1) by (intro mod_pos_pos_trivial) simp_all
      then show ?thesis by simp
    qed
    ultimately show ?thesis using False p by (simp add: le_int_def le_nat_bytes Let_def)
  qed
qed

section \<open>Layout\<close>

text \<open>Alignments are positive.\<close>

fun wf_ctype :: "ctype \<Rightarrow> bool" where
  "wf_ctype (TInt n _) = (0 < n)"
| "wf_ctype (TStruct packed ts) = (\<forall>t \<in> set ts. wf_ctype t)"
| "wf_ctype (TUnion ts) = (\<forall>t \<in> set ts. wf_ctype t)"
| "wf_ctype (TArr n t) = wf_ctype t"

lemma foldr_max_pos: "0 < foldr max ns (1 :: nat)"
  by (induction ns) auto

lemma calign_pos: "wf_ctype t \<Longrightarrow> 0 < calign t"
  using foldr_max_pos by (induction t) auto

lemma round_up_ge: "0 < a \<Longrightarrow> off \<le> round_up off a"
proof -
  assume a: "0 < a"
  have "off + a - 1 = (off + a - 1) div a * a + (off + a - 1) mod a" by simp
  moreover have "(off + a - 1) mod a < a" using a by simp
  ultimately show ?thesis unfolding round_up_def by linarith
qed

lemma padded_ge: "0 < a \<Longrightarrow> off \<le> padded packed off a"
  by (simp add: padded_def round_up_ge)

lemma length_encode_fields:
  assumes "\<forall>t \<in> set ts. wf_ctype t" "have_types ts vs"
    and "\<And>t v. t \<in> set ts \<Longrightarrow> has_type t v \<Longrightarrow> length (encode t v) = csize t"
  shows "off + length (encode_fields packed off ts vs) = fields_end packed off (map (\<lambda>t. (csize t, calign t)) ts)"
  using assms
proof (induction ts arbitrary: vs off)
  case Nil
  then show ?case by (cases vs) auto
next
  case (Cons t ts)
  obtain v vs' where vs: "vs = v # vs'" "has_type t v" "have_types ts vs'" using Cons.prems(2) by (cases vs) auto
  have "off \<le> padded packed off (calign t)" using Cons.prems(1) calign_pos padded_ge by simp
  moreover have "length (encode t v) = csize t" using Cons.prems(3) vs(2) by simp
  moreover have "padded packed off (calign t) + csize t +
      length (encode_fields packed (padded packed off (calign t) + csize t) ts vs') =
      fields_end packed (padded packed off (calign t) + csize t) (map (\<lambda>t. (csize t, calign t)) ts)"
    using Cons.IH Cons.prems(1,3) vs(3) by simp
  ultimately show ?case by (simp add: vs(1) Let_def)
qed

lemma length_encode:
  "wf_ctype t \<Longrightarrow> has_type t v \<Longrightarrow> length (encode t v) = csize t"
proof (induction t arbitrary: v)
  case (TInt n sg)
  then show ?case by (cases v) auto
next
  case (TStruct packed ts)
  obtain vs where vs: "v = VList vs" "have_types ts vs" using TStruct.prems(2) by (cases v) auto
  have "length (encode_fields packed 0 ts vs) = fields_end packed 0 (map (\<lambda>t. (csize t, calign t)) ts)"
    using length_encode_fields [of ts vs 0 packed] TStruct vs(2) by simp
  moreover have "fields_end packed 0 (map (\<lambda>t. (csize t, calign t)) ts) \<le> csize (TStruct packed ts)"
    using padded_ge [OF foldr_max_pos] by simp
  ultimately show ?case by (simp add: vs(1) Let_def)
next
  case (TUnion ts)
  then show ?case by (cases v) auto
next
  case (TArr n t)
  obtain vs where vs: "v = VList vs" "length vs = n" "\<forall>v \<in> set vs. has_type t v" using TArr.prems(2) by (cases v) auto
  have "map (length \<circ> encode t) vs = map (\<lambda>_. csize t) vs" using TArr vs(3) by simp
  then show ?case using vs(1,2) by (simp add: length_concat sum_list_replicate map_replicate_const del: map_eq_conv)
qed

lemma drop_chunk:
  assumes "i < length xs" "\<And>x. x \<in> set xs \<Longrightarrow> length (f x) = n"
  shows "drop (i * n) (concat (map f xs) @ rest) = f (xs ! i) @ concat (map f (drop (Suc i) xs)) @ rest"
  using assms
proof (induction xs arbitrary: i)
  case (Cons x xs)
  then show ?case by (cases i) auto
qed simp

section \<open>The bytes give the value back\<close>

lemma decode_encode_fields:
  assumes "\<forall>t \<in> set ts. wf_ctype t" "have_types ts vs" "length pre = off"
    and "\<And>t v bs. t \<in> set ts \<Longrightarrow> has_type t v \<Longrightarrow> decode t (encode t v @ bs) = v"
  shows "decode_fields packed off ts (pre @ encode_fields packed off ts vs @ rest) = vs"
  using assms
proof (induction ts arbitrary: vs off pre)
  case Nil
  then show ?case by (cases vs) auto
next
  case (Cons t ts)
  obtain v vs' where vs: "vs = v # vs'" "has_type t v" "have_types ts vs'" using Cons.prems(2) by (cases vs) auto
  let ?o = "padded packed off (calign t)"
  let ?pre = "pre @ replicate (?o - off) 0 @ encode t v"
  have o: "off \<le> ?o" using Cons.prems(1) calign_pos padded_ge by simp
  have "length ?pre = ?o + csize t" using o Cons.prems(1,3) length_encode vs(2) by simp
  then have "decode_fields packed (?o + csize t) ts (?pre @ encode_fields packed (?o + csize t) ts vs' @ rest) = vs'"
    using Cons.prems(1,4) vs(3) by (intro Cons.IH) auto
  moreover have "decode t (encode t v @ encode_fields packed (?o + csize t) ts vs' @ rest) = v"
    using Cons.prems(4) vs(2) by simp
  ultimately show ?case using o Cons.prems(3) by (simp add: vs(1) Let_def)
qed

lemma decode_encode:
  "wf_ctype t \<Longrightarrow> has_type t v \<Longrightarrow> decode t (encode t v @ bs) = v"
proof (induction t arbitrary: v bs)
  case (TInt n sg)
  then obtain x where v: "v = VInt x" by (cases v) auto
  have "le_int sg n (le_bytes n x) = x" using TInt.prems(2) unfolding v by (rule le_int_bytes)
  then show ?case by (simp add: v)
next
  case (TStruct packed ts)
  obtain vs where vs: "v = VList vs" "have_types ts vs" using TStruct.prems(2) by (cases v) auto
  show ?case
    using decode_encode_fields [of ts vs "[]" 0 packed] TStruct vs by (simp add: Let_def)
next
  case (TUnion ts)
  then show ?case by (cases v) auto
next
  case (TArr n t)
  obtain vs where vs: "v = VList vs" "length vs = n" "\<forall>v \<in> set vs. has_type t v" using TArr.prems(2) by (cases v) auto
  have "decode t (drop (i * csize t) (concat (map (encode t) vs) @ bs)) = vs ! i" if "i < n" for i
    using that TArr vs drop_chunk [of i vs "encode t" "csize t" bs] length_encode by simp
  then have "map (\<lambda>i. decode t (drop (i * csize t) (concat (map (encode t) vs) @ bs))) [0..<n] = vs"
    using vs(2) by (intro nth_equalityI) (simp_all del: drop_append)
  then show ?case using vs(1) by (simp del: drop_append)
qed

section \<open>The structures\<close>

abbreviation "U8 \<equiv> TInt 1 False"
abbreviation "U32 \<equiv> TInt 4 False"
abbreviation "I32 \<equiv> TInt 4 True"
abbreviation "U64 \<equiv> TInt 8 False"
abbreviation "I64 \<equiv> TInt 8 True"
abbreviation "Ptr \<equiv> TInt 8 False"

definition uru_queue_s :: ctype where
  "uru_queue_s = TStruct False [I32, I32, I32, I32, Ptr]"

definition uru_flag_s :: ctype where
  "uru_flag_s = TStruct False [I64, Ptr, U32, I32]"

definition unr_blk_h :: ctype where
  "unr_blk_h = TStruct False [TArr 40 U8]"

definition unr_sig_h :: ctype where
  "unr_sig_h = TStruct False [TArr 12 U8]"

definition unr_mem_s :: ctype where
  "unr_mem_s = TStruct False [Ptr, U64, I32, I32]"

definition unr_blk_s :: ctype where
  "unr_blk_s = TStruct True [I32, I32, U64, U64, Ptr, Ptr]"

definition unr_sig_s :: ctype where
  "unr_sig_s = TStruct True [I32, Ptr]"

text \<open>The type of a request is MPI's own: a pointer or an integer.\<close>

definition uri_mpi_op_s :: "ctype \<Rightarrow> ctype" where
  "uri_mpi_op_s MPI_Request = TStruct False [Ptr, U64, Ptr, I64, I32, I32, MPI_Request, U32, U32]"

definition uri_mpi_op_batch_s :: ctype where
  "uri_mpi_op_batch_s = TStruct False [I32, I32]"

definition uri_mpi_ctrl_msg_s :: ctype where
  "uri_mpi_ctrl_msg_s = TStruct False [U32, TUnion [TStruct False [U64], TStruct False [I32], TStruct False [I32], TStruct False [I32]]]"

definition uri_verbs_mem_s :: ctype where
  "uri_verbs_mem_s = TStruct False [U32, U32, Ptr]"

definition verbs_imm_protocol_s :: ctype where
  "verbs_imm_protocol_s = TStruct False [U32]"

definition verbs_wrid_protocol_s :: ctype where
  "verbs_wrid_protocol_s = TStruct False [verbs_imm_protocol_s, verbs_imm_protocol_s]"

lemmas layout_defs = uru_queue_s_def uru_flag_s_def unr_blk_h_def unr_sig_h_def unr_mem_s_def unr_blk_s_def unr_sig_s_def
  uri_mpi_op_s_def uri_mpi_op_batch_s_def uri_mpi_ctrl_msg_s_def uri_verbs_mem_s_def verbs_imm_protocol_s_def
  verbs_wrid_protocol_s_def

lemma layout_sizes [simp]:
  "csize uru_queue_s = 24" "csize uru_flag_s = 24" "csize unr_blk_h = 40" "csize unr_sig_h = 12" "csize unr_mem_s = 24"
  "csize unr_blk_s = 40" "csize unr_sig_s = 12" "csize uri_mpi_op_batch_s = 8" "csize uri_mpi_ctrl_msg_s = 16"
  "csize uri_verbs_mem_s = 16" "csize verbs_imm_protocol_s = 4" "csize verbs_wrid_protocol_s = 8"
  by (simp_all add: layout_defs padded_def round_up_def)

text \<open>An operation has the same size with either type of request.\<close>

lemma op_size_either [simp]: "csize (uri_mpi_op_s Ptr) = 56" "csize (uri_mpi_op_s I32) = 56"
  by (simp_all add: layout_defs padded_def round_up_def)

section \<open>The datatypes that initialisation makes\<close>

text \<open>
  The end of \<open>unr_init\<close>: the counts of the three contiguous MPI datatypes (of a memory handle, a block
  handle and a signal handle), after the assertions that the public types have the size of the
  private ones.
\<close>

definition unr_datatypes :: "u64 \<Rightarrow> (int \<times> int \<times> int) res" where
  "unr_datatypes mem_t_size =
     uru_assert (csize unr_blk_h = csize unr_blk_s)
     (uru_assert (csize unr_sig_h = csize unr_sig_s)
     (uru_assert (csize uru_queue_s = 24)
       (Inr (i32 (uint mem_t_size), i32 (int (csize unr_blk_h)), i32 (int (csize unr_sig_h))))))"

lemma unr_datatypes_Inr [simp]: "unr_datatypes n = Inr (i32 (uint n), 40, 12)"
  by (simp add: unr_datatypes_def i32_def)

end
