(* ===== verification/Unr_Channel.thy ===== *)
theory Unr_Channel
  imports Uri_Base Unr_Stripe Uru_Layout
begin

text \<open>
  Choosing and opening the channels: \<open>src/unr/base/unr_channel.c\<close>, with the data of
  \<open>unr_def.h\<close> that the layer above the channels keeps: the tables of \<open>unr_channels_s\<close>, blocks and
  plans.

  A channel handle is the position of the channel in the registry; \<open>'s\<close> is the state that the
  channel modules share. Null offsets and the reuse index \<open>-1\<close> are \<open>None\<close>.
\<close>

unbundle bit_operations_syntax

section \<open>State\<close>

record unr_channels_t =
  avail_channels :: "nat list"
  inter_channels :: "nat list"
  intra_channels :: "nat list"
  intra_channel_reuse :: "nat option list"
  inter_channel_blk_size :: "u64 list"
  inter_channel_blk_size_sum :: u64
  intra_channel_blk_size :: "u64 list"
  intra_channel_blk_size_sum :: u64
  unr_mem_t_size :: u64
  inter_uri_mem_h_offset :: "u64 list"
  intra_uri_mem_h_offset :: "u64 list"
  loc_mem_arr :: "addr list"
  rmt_mem_arr :: "addr list list"

text \<open>A block: a part of a registered memory, with the flags to count down (null where there is none).\<close>

record unr_blk_t =
  blk_dst_rank :: int
  blk_mem_idx :: int
  blk_offset :: u64
  blk_size :: u64
  blk_send_flag_p :: addr
  blk_recv_flag_p :: addr

text \<open>The parameters of a plan; an array that may be null is an option.\<close>

record unr_plan_create_para_t =
  need_current_load :: bool
  once_now :: bool
  num_sends :: nat
  loc_blk_arr :: "unr_blk_t list"
  loc_sig_arr :: "unr_sig_t list option"
  loc_offset_arr :: "u64 list option"
  size_arr :: "u64 list option"
  rmt_blk_arr :: "unr_blk_t list"
  rmt_sig_arr :: "unr_sig_t list option"
  rmt_offset_arr :: "u64 list option"
  dma_type_arr :: uru_transfer_arr

text \<open>A plan; a null plan handle is \<open>0\<close>, a null channel handle is \<open>None\<close>.\<close>

record unr_plan_t =
  plan_status :: nat
  num_uri_plan :: nat
  uri_plan_h_arr :: "addr list"
  uri_channel_h_arr :: "nat option list"
  para :: "unr_plan_create_para_t option"

text \<open>
  The lengths \<open>num_*_channels\<close>, \<open>loc_mem_arr_len\<close> and \<open>rmt_mem_arr_len\<close> are those of the lists.
  \<open>recv_buf\<close> lists the handles in the buffer that the last exchange of handles filled, \<open>plans\<close> is
  the heap of plans, and \<open>u_brk\<close> is where the next heap object goes.
\<close>

record 's unr_base_state =
  uri :: 's
  registry :: "'s uri_channel list"
  unr_channels :: "unr_channels_t option"
  unr_initialized :: bool
  daemon_thread_continue :: bool
  recv_buf :: "addr list"
  plans :: "addr \<Rightarrow> unr_plan_t option"
  u_brk :: addr

text \<open>\<open>sizeof(unr_mem_t)\<close>\<close>

definition sizeof_unr_mem :: u64 where
  "sizeof_unr_mem = 24"

section \<open>The channels that the user selected\<close>

definition channel_name :: "'s uri_channel \<Rightarrow> string" where
  "channel_name ch = ch_name (uri_channel_attr_get ch)"

fun find_from :: "nat \<Rightarrow> string \<Rightarrow> 's uri_channel list \<Rightarrow> nat option" where
  "find_from i n [] = None"
| "find_from i n (ch # chs) = (if channel_name ch = n then Some i else find_from (i + 1) n chs)"

definition find_channel :: "string \<Rightarrow> 's uri_channel list \<Rightarrow> nat option res" where
  "find_channel n reg = res_bind (uri_query_channel_list reg) (\<lambda>reg. Inr (find_from 0 n reg))"

text \<open>The tokens that \<open>strtok(env, ",")\<close> gives one after the other: empty ones are skipped.\<close>

fun split_on :: "char \<Rightarrow> string \<Rightarrow> string list" where
  "split_on c [] = [[]]"
| "split_on c (x # xs) =
     (if x = c then [] # split_on c xs
      else case split_on c xs of [] \<Rightarrow> [[x]] | t # ts \<Rightarrow> (x # t) # ts)"

definition tokens :: "string \<Rightarrow> string list" where
  "tokens s = filter (\<lambda>t. t \<noteq> []) (split_on CHR '','' s)"

text \<open>
  The array of the selected channels has room for \<open>room\<close> entries. A token writes its entry before
  the test that its channel exists.
\<close>

definition select_token ::
  "nat \<Rightarrow> 's uri_channel list \<Rightarrow> string \<Rightarrow> nat list \<Rightarrow> nat list res" where
  "select_token room reg tok chs =
     res_bind (find_channel tok reg) (\<lambda>c.
       if room \<le> length chs then Inl OutOfBounds
       else case c of None \<Rightarrow> Inl (Exit URU_ASSERT_EXIT) | Some i \<Rightarrow> Inr (chs @ [i]))"

definition select_channels :: "nat \<Rightarrow> string option \<Rightarrow> 's uri_channel list \<Rightarrow> nat list res" where
  "select_channels room env reg =
     (case env of
        None \<Rightarrow> res_bind (find_channel ''mpi'' reg)
          (\<lambda>c. case c of None \<Rightarrow> Inl (Exit URU_ASSERT_EXIT) | Some i \<Rightarrow> Inr [i])
      | Some e \<Rightarrow> res_bind (fold_res (select_token room reg) (tokens e) [])
          (\<lambda>chs. uru_assert (0 < length chs) (Inr chs)))"

text \<open>
  Which of the inter-node channels an intra-node channel is, the channels in use, each once, and
  their numbers.
\<close>

definition intra_reuse :: "nat list \<Rightarrow> nat \<Rightarrow> nat option" where
  "intra_reuse inter_chs c = map_of (zip inter_chs [0..<length inter_chs]) c"

definition combine_channels :: "nat list \<Rightarrow> nat list \<Rightarrow> nat list" where
  "combine_channels inter_chs intra_chs = inter_chs @ filter (\<lambda>c. intra_reuse inter_chs c = None) intra_chs"

definition set_channel_id :: "nat \<times> nat \<Rightarrow> 's uri_channel list \<Rightarrow> 's uri_channel list" where
  "set_channel_id ic reg = (case ic of (i, c) \<Rightarrow>
     reg[c := (reg ! c)\<lparr>hdr := (hdr (reg ! c))\<lparr>attr := (attr (hdr (reg ! c)))\<lparr>channel_id := int i\<rparr>\<rparr>\<rparr>])"

definition set_channel_ids :: "nat list \<Rightarrow> 's uri_channel list \<Rightarrow> 's uri_channel list" where
  "set_channel_ids avail reg = fold set_channel_id (enumerate 0 avail) reg"

section \<open>Opening the channels\<close>

text \<open>
  One turn of the loop that opens: the channel's part of a memory handle starts where the handle
  has ended so far; a channel that is open already shares the part. The status of
  \<open>uri_channel_open\<close> is not looked at.
\<close>

definition open_or_reuse ::
  "nat \<times> u64 option \<Rightarrow> u64 \<Rightarrow> 's unr_base_state \<Rightarrow> (u64 \<times> u64 \<times> 's unr_base_state) res" where
  "open_or_reuse cr h_size s = (case cr of
     (c, None) \<Rightarrow>
       res_bind (uri_channel_open (registry s ! c) h_size (uri s)) (\<lambda>(_, ch, u).
       res_bind (uri_mem_h_size ch) (\<lambda>tmp.
       Inr (h_size, h_size + tmp, s\<lparr>registry := (registry s)[c := ch], uri := u\<rparr>)))
   | (c, Some off) \<Rightarrow> Inr (off, h_size, s))"

fun open_channels ::
  "(nat \<times> u64 option) list \<Rightarrow> u64 \<Rightarrow> 's unr_base_state \<Rightarrow> (u64 list \<times> u64 \<times> 's unr_base_state) res" where
  "open_channels [] h_size s = Inr ([], h_size, s)"
| "open_channels (cr # crs) h_size s =
     res_bind (open_or_reuse cr h_size s) (\<lambda>(off, h_size, s).
     res_bind (open_channels crs h_size s) (\<lambda>(offs, h_size, s). Inr (off # offs, h_size, s)))"

section \<open>Block sizes\<close>

definition blocksize_of :: "'s uri_channel list \<Rightarrow> nat \<Rightarrow> u64" where
  "blocksize_of reg c = ch_blocksize (uri_channel_attr_get (reg ! c))"

definition type_of :: "'s uri_channel list \<Rightarrow> nat \<Rightarrow> string" where
  "type_of reg c = ch_type (uri_channel_attr_get (reg ! c))"

definition check_blocksizes :: "'s uri_channel list \<Rightarrow> nat list \<Rightarrow> (u64 list \<times> u64) res" where
  "check_blocksizes reg chs =
     uru_assert (list_all (\<lambda>c. blocksize_of reg c > 0 \<and>
         (blocksize_of reg c AND (blocksize_of reg c - 1)) = 0) chs)
     (uru_assert (list_all (\<lambda>c. blocksize_of reg c = blocksize_of reg (hd chs) \<and> type_of reg c = type_of reg (hd chs)) (tl chs))
     (Inr (map (blocksize_of reg) chs, sum_list (map (blocksize_of reg) chs))))"

section \<open>Initialisation, the daemon thread, the end\<close>

text \<open>
  The answers of the environment: \<open>UNR_INTER\<close> and \<open>UNR_INTRA\<close>, the values of MPI, and whether the
  daemon thread could be made.
\<close>

record unr_env =
  env_inter :: "string option"
  env_intra :: "string option"
  mpi_initialized :: bool
  comm_rank :: int
  comm_size :: int
  processor_name :: string
  all_names :: "string list"
  thread_created :: bool

text \<open>
  \<open>unr_init\<close>, first part: the selected channels. The arrays for the inter-node and the intra-node
  channels lie one after the other in one block, so that inter-node entries may run over the
  intra-node ones, which are written later, but intra-node entries may not run past the end. Either
  way the duplicates are found below.
\<close>

definition unr_select :: "unr_env \<Rightarrow> 's uri_channel list \<Rightarrow> (nat list \<times> nat list) res" where
  "unr_select e reg =
     res_bind (uri_query_channel_list reg) (\<lambda>reg.
     res_bind (select_channels (2 * length reg) (env_inter e) reg) (\<lambda>inter_chs.
     res_bind (select_channels (length reg) (env_intra e) reg) (\<lambda>intra_chs.
     uru_assert (distinct inter_chs \<and> distinct intra_chs) (Inr (inter_chs, intra_chs)))))"

definition unr_open ::
  "nat list \<Rightarrow> nat list \<Rightarrow> 's unr_base_state \<Rightarrow> (u64 list \<times> u64 list \<times> u64 \<times> 's unr_base_state) res" where
  "unr_open inter_chs intra_chs s =
     res_bind (open_channels (map (\<lambda>c. (c, None)) inter_chs) sizeof_unr_mem s) (\<lambda>(inter_offs, h_size, s).
     res_bind (open_channels (map (\<lambda>c. (c, map_option ((!) inter_offs) (intra_reuse inter_chs c))) intra_chs) h_size s)
       (\<lambda>(intra_offs, h_size, s). Inr (inter_offs, intra_offs, h_size, s)))"

definition unr_init ::
  "unr_env \<Rightarrow> (('z) uri_state_scheme) unr_base_state \<Rightarrow>
   (uru_status_t \<times> ('z uri_state_scheme) unr_base_state) res" where
  "unr_init e s =
     (if unr_initialized s then Inr (URU_STATUS_OK, s)
      else
        res_bind (uru_mpi_init None (mpi_initialized e) (comm_rank e) (comm_size e) (processor_name e) (all_names e)) (\<lambda>u.
        let s = s\<lparr>unr_initialized := True, uri := (uri s)\<lparr>uru_mpi := u\<rparr>\<rparr> in
        res_bind (unr_select e (registry s)) (\<lambda>(inter_chs, intra_chs).
        let avail = combine_channels inter_chs intra_chs;
            s = s\<lparr>registry := set_channel_ids avail (registry s)\<rparr> in
        res_bind (unr_open inter_chs intra_chs s) (\<lambda>(inter_offs, intra_offs, h_size, s).
        res_bind (check_blocksizes (registry s) inter_chs) (\<lambda>(inter_blk, inter_sum).
        res_bind (check_blocksizes (registry s) intra_chs) (\<lambda>(intra_blk, intra_sum).
        res_bind (unr_datatypes h_size) (\<lambda>_.
        uru_assert (thread_created e)
          (Inr (URU_STATUS_OK,
            s\<lparr>unr_channels := Some \<lparr>avail_channels = avail, inter_channels = inter_chs, intra_channels = intra_chs,
                 intra_channel_reuse = map (intra_reuse inter_chs) intra_chs,
                 inter_channel_blk_size = inter_blk, inter_channel_blk_size_sum = inter_sum,
                 intra_channel_blk_size = intra_blk, intra_channel_blk_size_sum = intra_sum,
                 unr_mem_t_size = h_size, inter_uri_mem_h_offset = inter_offs, intra_uri_mem_h_offset = intra_offs,
                 loc_mem_arr = [], rmt_mem_arr = replicate (nat (comm_size e)) []\<rparr>,
               daemon_thread_continue := True\<rparr>)))))))))"

text \<open>One round of the daemon thread over the channels in use; it goes on until \<open>unr_finalize\<close>.\<close>

definition daemon_round :: "nat list \<Rightarrow> 's unr_base_state \<Rightarrow> 's unr_base_state res" where
  "daemon_round = fold_res (\<lambda>c s. res_bind (uri_channel_daemon (registry s ! c) (uri s)) (\<lambda>(_, u). Inr (s\<lparr>uri := u\<rparr>)))"

definition unr_daemon_thread :: "nat \<Rightarrow> 's unr_base_state \<Rightarrow> 's unr_base_state res" where
  "unr_daemon_thread rounds s =
     (case unr_channels s of
        None \<Rightarrow> Inl NullDeref
      | Some uc \<Rightarrow> fold_res (\<lambda>_. daemon_round (avail_channels uc)) [0..<rounds] s)"

fun close_channels :: "nat list \<Rightarrow> 's unr_base_state \<Rightarrow> 's unr_base_state res option" where
  "close_channels [] s = Some (Inr s)"
| "close_channels (c # cs) s =
     (case uri_channel_close (registry s ! c) (uri s) of
        None \<Rightarrow> None
      | Some (Inl e) \<Rightarrow> Some (Inl e)
      | Some (Inr (_, ch, u)) \<Rightarrow> close_channels cs (s\<lparr>registry := (registry s)[c := ch], uri := u\<rparr>))"

text \<open>
  \<open>mpi_finalized\<close>: what \<open>MPI_Finalized\<close> says after the daemon thread has stopped. The loop that waits
  for the thread ends only if \<open>unr_init\<close> has started one: \<open>daemon_thread_running\<close> is 1 from the start
  and only the thread clears it, so that without it the call does not return.
\<close>

definition unr_finalize :: "bool \<Rightarrow> 's unr_base_state \<Rightarrow> 's unr_base_state res option" where
  "unr_finalize mpi_finalized s =
     (let s = s\<lparr>daemon_thread_continue := False\<rparr> in
      case unr_channels s of
        None \<Rightarrow> None
      | Some uc \<Rightarrow> if mpi_finalized then Some (Inl (Exit URU_ASSERT_EXIT)) else close_channels (avail_channels uc) s)"

end
