(* ===== verification/Unr_Channel_Props.thy ===== *)
theory Unr_Channel_Props
  imports Unr_Channel Uri_Mpi_Rdma
begin

text \<open>
  What \<open>unr_init\<close> leaves: the channels in use are open, each has its own part of a memory handle,
  and the block sizes are fit for dividing transfers. The definitions are those of \<open>Unr_Channel\<close>.
\<close>

section \<open>Selecting\<close>

lemma find_from_Some: "find_from i n chs = Some k \<Longrightarrow> i \<le> k \<and> k < i + length chs \<and> channel_name (chs ! (k - i)) = n"
proof (induction chs arbitrary: i)
  case (Cons ch chs)
  show ?case
  proof (cases "channel_name ch = n")
    case True
    then show ?thesis using Cons.prems by simp
  next
    case False
    then have "find_from (i + 1) n chs = Some k" using Cons.prems by simp
    from Cons.IH [OF this] have b: "i + 1 \<le> k" "k < i + 1 + length chs" "channel_name (chs ! (k - (i + 1))) = n"
      by simp_all
    then have "(ch # chs) ! (k - i) = chs ! (k - (i + 1))" by (simp add: nth_Cons' )
    then show ?thesis using b by simp
  qed
qed simp

lemma find_channel_Some: "find_channel n reg = Inr (Some k) \<Longrightarrow> k < length reg \<and> channel_name (reg ! k) = n"
  using find_from_Some [of 0 n reg k] by (simp add: find_channel_def uri_query_channel_list_def)

lemma select_token_Inr:
  "select_token room reg tok chs = Inr chs' \<longleftrightarrow>
     (\<exists>i. find_channel tok reg = Inr (Some i) \<and> length chs < room \<and> chs' = chs @ [i])"
  by (auto simp: select_token_def split: if_splits option.splits)

lemma select_tokens:
  assumes "fold_res (select_token room reg) toks chs = Inr chs'" "list_all (\<lambda>c. c < length reg) chs"
    "map (\<lambda>c. channel_name (reg ! c)) chs = done_toks"
  shows "list_all (\<lambda>c. c < length reg) chs' \<and> map (\<lambda>c. channel_name (reg ! c)) chs' = done_toks @ toks"
  using assms
proof (induction toks arbitrary: chs done_toks)
  case Nil
  then show ?case by simp
next
  case (Cons tok toks)
  then obtain i where i: "find_channel tok reg = Inr (Some i)"
      "fold_res (select_token room reg) toks (chs @ [i]) = Inr chs'"
    unfolding fold_res.simps res_bind_eq_Inr select_token_Inr by blast
  have "list_all (\<lambda>c. c < length reg) (chs @ [i])" "map (\<lambda>c. channel_name (reg ! c)) (chs @ [i]) = done_toks @ [tok]"
    using Cons.prems(2,3) find_channel_Some [OF i(1)] by simp_all
  from Cons.IH [OF i(2) this] show ?case by simp
qed

text \<open>The channels that \<open>select_channels\<close> gives are the ones whose names the user listed, in order.\<close>

lemma select_channels_Inr:
  assumes "select_channels room env reg = Inr chs"
  shows "list_all (\<lambda>c. c < length reg) chs" "chs \<noteq> []"
    "map (\<lambda>c. channel_name (reg ! c)) chs = (case env of None \<Rightarrow> [''mpi''] | Some e \<Rightarrow> tokens e)"
proof -
  have "list_all (\<lambda>c. c < length reg) chs \<and> chs \<noteq> [] \<and>
    map (\<lambda>c. channel_name (reg ! c)) chs = (case env of None \<Rightarrow> [''mpi''] | Some e \<Rightarrow> tokens e)"
  proof (cases env)
    case None
    then show ?thesis using assms find_channel_Some [of "''mpi''" reg]
      by (auto simp: select_channels_def split: option.splits)
  next
    case (Some e)
    then have "fold_res (select_token room reg) (tokens e) [] = Inr chs" "chs \<noteq> []"
      using assms by (auto simp: select_channels_def)
    with select_tokens [OF this(1)] Some show ?thesis by simp
  qed
  then show "list_all (\<lambda>c. c < length reg) chs" "chs \<noteq> []"
    "map (\<lambda>c. channel_name (reg ! c)) chs = (case env of None \<Rightarrow> [''mpi''] | Some e \<Rightarrow> tokens e)" by blast+
qed

lemma unr_select_Inr:
  assumes "unr_select e reg = Inr (inter_chs, intra_chs)"
  shows "list_all (\<lambda>c. c < length reg) inter_chs" "list_all (\<lambda>c. c < length reg) intra_chs"
    "distinct inter_chs" "distinct intra_chs" "inter_chs \<noteq> []" "intra_chs \<noteq> []"
  using assms select_channels_Inr [of "2 * length reg" "env_inter e" reg inter_chs]
    select_channels_Inr [of "length reg" "env_intra e" reg intra_chs]
  by (auto simp: unr_select_def uri_query_channel_list_def)

section \<open>The channels in use\<close>

lemma intra_reuse_None: "intra_reuse inter_chs c = None \<longleftrightarrow> c \<notin> set inter_chs"
  by (simp add: intra_reuse_def map_of_eq_None_iff map_fst_zip flip: set_map)

lemma intra_reuse_Some: "intra_reuse inter_chs c = Some j \<Longrightarrow> j < length inter_chs \<and> inter_chs ! j = c"
  by (auto simp: intra_reuse_def dest!: map_of_SomeD simp: in_set_zip)

lemma combine_distinct:
  "distinct inter_chs \<Longrightarrow> distinct intra_chs \<Longrightarrow> distinct (combine_channels inter_chs intra_chs)"
  by (auto simp: combine_channels_def intra_reuse_None)

lemma set_combine: "set (combine_channels inter_chs intra_chs) = set inter_chs \<union> set intra_chs"
  by (auto simp: combine_channels_def intra_reuse_None)

text \<open>Numbering changes nothing but the number.\<close>

definition numbered :: "'s uri_channel \<Rightarrow> 's uri_channel \<Rightarrow> bool" where
  "numbered ch ch' \<longleftrightarrow> (\<exists>i. ch' = ch\<lparr>hdr := (hdr ch)\<lparr>attr := (attr (hdr ch))\<lparr>channel_id := i\<rparr>\<rparr>\<rparr>)"

lemma numbered_refl [simp]: "numbered ch ch"
  unfolding numbered_def by (rule exI [of _ "channel_id (attr (hdr ch))"]) simp

lemma numbered_trans: "numbered a b \<Longrightarrow> numbered b c \<Longrightarrow> numbered a c"
  by (auto simp: numbered_def)

lemma numberedD:
  "numbered ch ch' \<Longrightarrow> func_ptrs ch' = func_ptrs ch \<and> opened (hdr ch') = opened (hdr ch) \<and>
     mem_h_offset (hdr ch') = mem_h_offset (hdr ch) \<and> ch_blocksize (attr (hdr ch')) = ch_blocksize (attr (hdr ch)) \<and>
     ch_type (attr (hdr ch')) = ch_type (attr (hdr ch)) \<and> ch_name (attr (hdr ch')) = ch_name (attr (hdr ch))"
  by (auto simp: numbered_def)

lemma set_channel_ids_from:
  "length (fold set_channel_id (enumerate n avail) reg) = length reg \<and>
   (\<forall>c < length reg. numbered (reg ! c) (fold set_channel_id (enumerate n avail) reg ! c)) \<and>
   (\<forall>c. c \<notin> set avail \<longrightarrow> fold set_channel_id (enumerate n avail) reg ! c = reg ! c) \<and>
   (distinct avail \<longrightarrow> list_all (\<lambda>c. c < length reg) avail \<longrightarrow>
     (\<forall>i < length avail. channel_id (attr (hdr (fold set_channel_id (enumerate n avail) reg ! (avail ! i)))) = int (n + i)))"
proof (induction avail arbitrary: n reg)
  case (Cons c avail)
  let ?reg = "set_channel_id (n, c) reg"
  have one: "length ?reg = length reg" "d < length reg \<Longrightarrow> numbered (reg ! d) (?reg ! d)"
      "d \<noteq> c \<Longrightarrow> ?reg ! d = reg ! d" "c < length reg \<Longrightarrow> channel_id (attr (hdr (?reg ! c))) = int n" for d
  proof -
    show "length ?reg = length reg" "d \<noteq> c \<Longrightarrow> ?reg ! d = reg ! d"
        "c < length reg \<Longrightarrow> channel_id (attr (hdr (?reg ! c))) = int n"
      by (simp_all add: set_channel_id_def)
    show "numbered (reg ! d) (?reg ! d)" if "d < length reg"
    proof (cases "d = c")
      case True
      then show ?thesis using that unfolding numbered_def
        by (intro exI [of _ "int n"]) (simp add: set_channel_id_def)
    qed (simp add: set_channel_id_def)
  qed
  note IH = Cons.IH [of "Suc n" ?reg]
  have "numbered (reg ! d) (fold set_channel_id (enumerate (Suc n) avail) ?reg ! d)" if "d < length reg" for d
    using numbered_trans [OF one(2) [OF that]] IH that one(1) by simp
  moreover have "channel_id (attr (hdr (fold set_channel_id (enumerate n (c # avail)) reg ! ((c # avail) ! i)))) = int (n + i)"
    if "distinct (c # avail)" "list_all (\<lambda>c. c < length reg) (c # avail)" "i < length (c # avail)" for i
  proof (cases i)
    case 0
    then show ?thesis using that IH one(4) by simp
  next
    case (Suc k)
    then show ?thesis using that IH one(1) by simp
  qed
  moreover have "fold set_channel_id (enumerate (Suc n) avail) ?reg ! d = reg ! d" if "d \<notin> set (c # avail)" for d
    using that IH one(3) by simp
  ultimately show ?case using IH one(1) by simp
qed simp

section \<open>Opening\<close>

text \<open>
  The channels' parts of a memory handle follow one another from \<open>lo\<close> to \<open>hi\<close>, each as long as the
  module asks for and at the offset the channel was opened with.
\<close>

fun parts :: "'s uri_channel list \<Rightarrow> nat list \<Rightarrow> nat \<Rightarrow> nat \<Rightarrow> bool" where
  "parts reg [] lo hi \<longleftrightarrow> lo = hi"
| "parts reg (c # cs) lo hi \<longleftrightarrow> c < length reg \<and> opened (hdr (reg ! c)) \<and> unat (mem_h_offset (hdr (reg ! c))) = lo \<and>
     (\<exists>sz. uri_mem_h_size (reg ! c) = Inr sz \<and> parts reg cs (lo + unat sz) hi)"

lemma parts_append: "parts reg (xs @ ys) lo hi \<longleftrightarrow> (\<exists>mid. parts reg xs lo mid \<and> parts reg ys mid hi)"
  by (induction xs arbitrary: lo) auto

lemma parts_cong:
  "length reg' = length reg \<Longrightarrow> \<forall>c \<in> set cs. reg' ! c = reg ! c \<Longrightarrow> parts reg' cs lo hi = parts reg cs lo hi"
  by (induction cs arbitrary: lo) simp_all

lemma parts_mono: "parts reg cs lo hi \<Longrightarrow> lo \<le> hi"
  by (induction cs arbitrary: lo) (auto dest: add_leD1)

lemma parts_nth:
  assumes "parts reg cs lo hi" "i < length cs"
  shows "cs ! i < length reg \<and> opened (hdr (reg ! (cs ! i))) \<and> lo \<le> unat (mem_h_offset (hdr (reg ! (cs ! i)))) \<and>
    (\<exists>sz. uri_mem_h_size (reg ! (cs ! i)) = Inr sz \<and> unat (mem_h_offset (hdr (reg ! (cs ! i)))) + unat sz \<le> hi)"
  using assms
proof (induction cs arbitrary: lo i)
  case (Cons c cs)
  then obtain sz where sz: "uri_mem_h_size (reg ! c) = Inr sz" "parts reg cs (lo + unat sz) hi" by auto
  show ?case
  proof (cases i)
    case 0
    then show ?thesis using Cons.prems sz parts_mono [OF sz(2)] by auto
  next
    case (Suc k)
    then show ?thesis using Cons.IH [OF sz(2), of k] Cons.prems(2) by auto
  qed
qed simp

text \<open>Two channels' parts do not overlap.\<close>

lemma parts_disjoint:
  assumes "parts reg cs lo hi" "i < j" "j < length cs"
  shows "\<exists>sz. uri_mem_h_size (reg ! (cs ! i)) = Inr sz \<and>
    unat (mem_h_offset (hdr (reg ! (cs ! i)))) + unat sz \<le> unat (mem_h_offset (hdr (reg ! (cs ! j))))"
  using assms
proof (induction cs arbitrary: lo i j)
  case (Cons c cs)
  then obtain sz where sz: "uri_mem_h_size (reg ! c) = Inr sz" "parts reg cs (lo + unat sz) hi" by auto
  obtain k where k: "j = Suc k" using Cons.prems(2) by (cases j) auto
  show ?case
  proof (cases i)
    case 0
    then show ?thesis using Cons.prems k sz parts_nth [OF sz(2), of k] by auto
  next
    case (Suc m)
    then show ?thesis using Cons.IH [OF sz(2), of m k] Cons.prems k by auto
  qed
qed simp

text \<open>A registry before \<open>unr_init\<close>: nothing open, block sizes and handle parts of sane size.\<close>

definition small_parts :: "'s uri_channel \<Rightarrow> bool" where
  "small_parts ch \<longleftrightarrow> (\<forall>fp f h. func_ptrs ch = Some fp \<longrightarrow> mem_h_size fp = Some f \<longrightarrow> f h \<le> 2 ^ 32)"

definition registry_ok :: "'s uri_channel list \<Rightarrow> bool" where
  "registry_ok reg \<longleftrightarrow> length reg \<le> URI_MAX_CHANNEL_NUM \<and>
     (\<forall>ch \<in> set reg. \<not> opened (hdr ch) \<and> ch_blocksize (attr (hdr ch)) \<le> 2 ^ 32 \<and> small_parts ch)"

definition same_channel :: "'s uri_channel \<Rightarrow> 's uri_channel \<Rightarrow> bool" where
  "same_channel ch ch' \<longleftrightarrow> attr (hdr ch') = attr (hdr ch) \<and> func_ptrs ch' = func_ptrs ch"

lemma open_one:
  assumes "open_or_reuse (c, None) h s = Inr (off, h', s')" "c < length (registry s)"
    "\<not> opened (hdr (registry s ! c))" "small_parts (registry s ! c)"
  obtains ch sz where "off = h" "h' = h + sz" "registry s' = (registry s)[c := ch]" "opened (hdr ch)"
    "mem_h_offset (hdr ch) = h" "same_channel (registry s ! c) ch" "uri_mem_h_size ch = Inr sz" "sz \<le> 2 ^ 32"
proof -
  let ?ch = "(registry s ! c)\<lparr>hdr := (hdr (registry s ! c))\<lparr>opened := True, mem_h_offset := h\<rparr>\<rparr>"
  obtain u sz where o: "off = h" "h' = h + sz" "s' = s\<lparr>registry := (registry s)[c := ?ch], uri := u\<rparr>"
      "uri_mem_h_size ?ch = Inr sz"
    using assms(1,3) by (auto simp: open_or_reuse_def uri_channel_open_def Let_def with_func_Inr)
  then have "sz \<le> 2 ^ 32"
    using assms(4) by (auto simp: uri_mem_h_size_def with_func_Inr small_parts_def sizeof_uri_mem_def)
  then show thesis using o by (intro that [where ch = ?ch and sz = sz]) (simp_all add: same_channel_def)
qed

definition new_ones :: "(nat \<times> u64 option) list \<Rightarrow> nat list" where
  "new_ones crs = map fst (filter (\<lambda>cr. snd cr = None) crs)"

lemma new_ones_simps [simp]:
  "new_ones [] = []" "new_ones ((c, None) # crs) = c # new_ones crs" "new_ones ((c, Some off) # crs) = new_ones crs"
  by (simp_all add: new_ones_def)

lemma open_channels_parts:
  assumes "open_channels crs h s = Inr (offs, h', s')" "distinct (new_ones crs)"
    "\<forall>c \<in> set (new_ones crs). c < length (registry s) \<and> \<not> opened (hdr (registry s ! c)) \<and> small_parts (registry s ! c)"
    "unat h + length crs * 2 ^ 32 < 2 ^ 64"
  shows "parts (registry s') (new_ones crs) (unat h) (unat h') \<and> length (registry s') = length (registry s) \<and>
    (\<forall>c. c \<notin> set (new_ones crs) \<longrightarrow> registry s' ! c = registry s ! c) \<and>
    (\<forall>c. same_channel (registry s ! c) (registry s' ! c)) \<and> unat h' \<le> unat h + length crs * 2 ^ 32 \<and>
    offs = map (\<lambda>(c, r). case r of Some off \<Rightarrow> off | None \<Rightarrow> mem_h_offset (hdr (registry s' ! c))) crs"
  using assms
proof (induction crs arbitrary: h s offs)
  case Nil
  then show ?case by (simp add: same_channel_def)
next
  case (Cons cr crs)
  obtain off h1 s1 offs1 where 1: "open_or_reuse cr h s = Inr (off, h1, s1)" "open_channels crs h1 s1 = Inr (offs1, h', s')"
      "offs = off # offs1"
    using Cons.prems(1) by auto
  obtain c r where cr: "cr = (c, r)" by (cases cr)
  show ?case
  proof (cases r)
    case (Some o')
    then have "h1 = h" "s1 = s" "off = o'" using 1(1) by (simp_all add: cr open_or_reuse_def)
    then show ?thesis using Cons.IH [of h s offs1] Cons.prems(2-4) 1(2,3) by (simp add: cr Some)
  next
    case None
    from Cons.prems(2-3) have c: "c < length (registry s)" "\<not> opened (hdr (registry s ! c))" "small_parts (registry s ! c)"
        "c \<notin> set (new_ones crs)" "distinct (new_ones crs)"
      by (simp_all add: cr None)
    from open_one [OF 1(1) [unfolded cr None] c(1-3)]
    obtain ch sz where o: "off = h" "h1 = h + sz" "registry s1 = (registry s)[c := ch]" "opened (hdr ch)"
        "mem_h_offset (hdr ch) = h" "same_channel (registry s ! c) ch" "uri_mem_h_size ch = Inr sz" "sz \<le> 2 ^ 32" .
    have sz: "unat sz \<le> 2 ^ 32" using o(8) by (simp add: word_le_nat_alt)
    have "unat (h + sz) = unat h + unat sz" using Cons.prems(4) sz by (intro unat_add_bounded) simp
    then have h1: "unat h1 = unat h + unat sz" by (simp add: o(2))
    have pre: "\<forall>d \<in> set (new_ones crs). d < length (registry s1) \<and> \<not> opened (hdr (registry s1 ! d)) \<and> small_parts (registry s1 ! d)"
    proof
      fix d assume d: "d \<in> set (new_ones crs)"
      then have "d \<noteq> c" using c(4) by auto
      then show "d < length (registry s1) \<and> \<not> opened (hdr (registry s1 ! d)) \<and> small_parts (registry s1 ! d)"
        using d Cons.prems(3) by (simp add: o(3) cr None)
    qed
    have "unat h1 + length crs * 2 ^ 32 < 2 ^ 64" using Cons.prems(4) sz h1 by simp
    note IH = Cons.IH [OF 1(2) c(5) pre this]
    have ch: "registry s' ! c = ch" using IH c(1,4) by (simp add: o(3))
    have "same_channel (registry s ! d) (registry s' ! d)" for d
    proof (cases "d = c")
      case True
      then show ?thesis using ch o(6) by simp
    next
      case False
      then have "registry s1 ! d = registry s ! d" by (simp add: o(3))
      then show ?thesis using IH by metis
    qed
    moreover have "registry s' ! d = registry s ! d" if "d \<notin> set (new_ones (cr # crs))" for d
      using IH that by (simp add: o(3) cr None)
    ultimately show ?thesis using IH ch c(1) o h1 sz 1(3) by (auto simp: cr None)
  qed
qed

section \<open>Block sizes\<close>

lemma unat_sum_list:
  fixes ws :: "u64 list"
  shows "sum_list (map unat ws) < 2 ^ 64 \<Longrightarrow> unat (sum_list ws) = sum_list (map unat ws)"
proof (induction ws)
  case (Cons w ws)
  then have "unat (sum_list ws) = sum_list (map unat ws)" by simp
  then show ?case using Cons.prems by (simp add: unat_add_bounded)
qed simp

lemma check_blocksizes_blk_ok:
  assumes "check_blocksizes reg chs = Inr (blk, blk_sum)" "chs \<noteq> []" "length chs \<le> 16"
    "\<forall>c \<in> set chs. blocksize_of reg c \<le> 2 ^ 32"
  shows "blk_ok blk blk_sum \<and> blk = map (blocksize_of reg) chs"
proof -
  have b: "blk = map (blocksize_of reg) chs" "blk_sum = sum_list blk" "list_all (\<lambda>c. blocksize_of reg c > 0) chs"
    using assms(1) by (auto simp: check_blocksizes_def list_all_iff)
  have "sum_list (map unat blk) \<le> sum_list (map (\<lambda>_. 2 ^ 32) blk)"
    using assms(4) by (intro sum_list_mono2) (simp_all add: b(1) word_le_nat_alt)
  also have "\<dots> = length chs * 2 ^ 32" by (simp add: b(1) comp_def sum_list_triv)
  also have "\<dots> < 2 ^ 64" using assms(3) by simp
  finally have "unat blk_sum = sum_list (map unat blk)" unfolding b(2) by (rule unat_sum_list)
  then show ?thesis using b assms(2) by (simp add: blk_ok_def list_all_iff)
qed

section \<open>After initialisation\<close>

definition offset_of :: "'s uri_channel list \<Rightarrow> nat \<Rightarrow> u64" where
  "offset_of reg c = mem_h_offset (hdr (reg ! c))"

definition channels_ok :: "'s unr_base_state \<Rightarrow> bool" where
  "channels_ok s \<longleftrightarrow> (case unr_channels s of None \<Rightarrow> False | Some uc \<Rightarrow>
     distinct (avail_channels uc) \<and> set (avail_channels uc) = set (inter_channels uc) \<union> set (intra_channels uc) \<and>
     parts (registry s) (avail_channels uc) (unat sizeof_unr_mem) (unat (unr_mem_t_size uc)) \<and>
     inter_uri_mem_h_offset uc = map (offset_of (registry s)) (inter_channels uc) \<and>
     intra_uri_mem_h_offset uc = map (offset_of (registry s)) (intra_channels uc) \<and>
     intra_channel_reuse uc = map (intra_reuse (inter_channels uc)) (intra_channels uc) \<and>
     avail_channels uc = combine_channels (inter_channels uc) (intra_channels uc) \<and>
     blk_ok (inter_channel_blk_size uc) (inter_channel_blk_size_sum uc) \<and>
     blk_ok (intra_channel_blk_size uc) (intra_channel_blk_size_sum uc) \<and>
     length (inter_channel_blk_size uc) = length (inter_channels uc) \<and>
     length (intra_channel_blk_size uc) = length (intra_channels uc))"

lemma unr_open_parts:
  assumes "unr_open inter_chs intra_chs s = Inr (inter_offs, intra_offs, h, s')"
    and "distinct inter_chs" "distinct intra_chs" "length inter_chs \<le> 16" "length intra_chs \<le> 16"
    and "\<forall>c \<in> set inter_chs \<union> set intra_chs.
      c < length (registry s) \<and> \<not> opened (hdr (registry s ! c)) \<and> small_parts (registry s ! c)"
  shows "parts (registry s') (combine_channels inter_chs intra_chs) (unat sizeof_unr_mem) (unat h) \<and>
    inter_offs = map (offset_of (registry s')) inter_chs \<and> intra_offs = map (offset_of (registry s')) intra_chs \<and>
    length (registry s') = length (registry s) \<and> (\<forall>c. same_channel (registry s ! c) (registry s' ! c))"
proof -
  let ?c1 = "map (\<lambda>c. (c, None :: u64 option)) inter_chs"
  obtain h1 s1 where 1: "open_channels ?c1 sizeof_unr_mem s = Inr (inter_offs, h1, s1)"
    and 2: "open_channels (map (\<lambda>c. (c, map_option ((!) inter_offs) (intra_reuse inter_chs c))) intra_chs) h1 s1 =
      Inr (intra_offs, h, s')"
    using assms(1) by (auto simp: unr_open_def)
  let ?c2 = "map (\<lambda>c. (c, map_option ((!) inter_offs) (intra_reuse inter_chs c))) intra_chs"
  have n1: "new_ones ?c1 = inter_chs" by (simp add: new_ones_def comp_def)
  have n2: "new_ones ?c2 = filter (\<lambda>c. intra_reuse inter_chs c = None) intra_chs"
    by (simp add: new_ones_def filter_map comp_def)
  have a: "parts (registry s1) inter_chs (unat sizeof_unr_mem) (unat h1)" "length (registry s1) = length (registry s)"
      "\<And>c. c \<notin> set inter_chs \<Longrightarrow> registry s1 ! c = registry s ! c" "\<And>c. same_channel (registry s ! c) (registry s1 ! c)"
      "unat h1 \<le> unat sizeof_unr_mem + length inter_chs * 2 ^ 32"
      "inter_offs = map (\<lambda>c. mem_h_offset (hdr (registry s1 ! c))) inter_chs"
    using open_channels_parts [OF 1] assms(2,4,6) unfolding n1 by (simp_all add: sizeof_unr_mem_def)
  have pre: "\<forall>c \<in> set (new_ones ?c2). c < length (registry s1) \<and> \<not> opened (hdr (registry s1 ! c)) \<and> small_parts (registry s1 ! c)"
    unfolding n2 using a(2,3) assms(6) by (auto simp: intra_reuse_None)
  have b: "parts (registry s') (new_ones ?c2) (unat h1) (unat h)" "length (registry s') = length (registry s1)"
      "\<And>c. c \<notin> set (new_ones ?c2) \<Longrightarrow> registry s' ! c = registry s1 ! c" "\<And>c. same_channel (registry s1 ! c) (registry s' ! c)"
      "intra_offs = map (\<lambda>(c, r). case r of Some off \<Rightarrow> off | None \<Rightarrow> mem_h_offset (hdr (registry s' ! c))) ?c2"
    using open_channels_parts [OF 2 _ pre] assms(3,4,5) a(5) unfolding n2 by (simp_all add: sizeof_unr_mem_def)
  have keep: "registry s' ! c = registry s1 ! c" if "c \<in> set inter_chs" for c
    using b(3) [of c] that unfolding n2 by (simp add: intra_reuse_None)
  have "parts (registry s') inter_chs (unat sizeof_unr_mem) (unat h1)"
    using a(1) parts_cong [OF b(2)] keep by blast
  then have p: "parts (registry s') (combine_channels inter_chs intra_chs) (unat sizeof_unr_mem) (unat h)"
    using b(1) unfolding n2 combine_channels_def parts_append by blast
  have inter: "inter_offs = map (offset_of (registry s')) inter_chs"
    unfolding a(6) using keep by (simp add: offset_of_def)
  have "(case map_option ((!) inter_offs) (intra_reuse inter_chs c) of Some off \<Rightarrow> off
      | None \<Rightarrow> mem_h_offset (hdr (registry s' ! c))) = offset_of (registry s') c" for c
  proof (cases "intra_reuse inter_chs c")
    case None
    then show ?thesis by (simp add: offset_of_def)
  next
    case (Some j)
    from intra_reuse_Some [OF this] show ?thesis by (simp add: Some inter)
  qed
  then have "intra_offs = map (offset_of (registry s')) intra_chs" unfolding b(5) by simp
  moreover have "same_channel (registry s ! c) (registry s' ! c)" for c
    using a(4) [of c] b(4) [of c] by (simp add: same_channel_def)
  ultimately show ?thesis using p inter a(2) b(2) by simp
qed

lemma length_le_registry: "distinct chs \<Longrightarrow> list_all (\<lambda>c. c < n) chs \<Longrightarrow> length chs \<le> n"
proof -
  assume a: "distinct chs" "list_all (\<lambda>c. c < n) chs"
  then have "set chs \<subseteq> {..<n}" by (auto simp: list_all_iff)
  then have "card (set chs) \<le> card {..<n}" by (intro card_mono) auto
  then show ?thesis using distinct_card [OF a(1)] by simp
qed

lemma unr_init_steps:
  assumes "unr_init e s = Inr (st, s')" "\<not> unr_initialized s"
  obtains u inter_chs intra_chs inter_offs intra_offs h t inter_blk inter_sum intra_blk intra_sum where
    "unr_select e (registry s) = Inr (inter_chs, intra_chs)"
    "unr_open inter_chs intra_chs (s\<lparr>unr_initialized := True, uri := (uri s)\<lparr>uru_mpi := u\<rparr>,
       registry := set_channel_ids (combine_channels inter_chs intra_chs) (registry s)\<rparr>) = Inr (inter_offs, intra_offs, h, t)"
    "check_blocksizes (registry t) inter_chs = Inr (inter_blk, inter_sum)"
    "check_blocksizes (registry t) intra_chs = Inr (intra_blk, intra_sum)"
    "s' = t\<lparr>unr_channels := Some \<lparr>avail_channels = combine_channels inter_chs intra_chs, inter_channels = inter_chs,
       intra_channels = intra_chs, intra_channel_reuse = map (intra_reuse inter_chs) intra_chs,
       inter_channel_blk_size = inter_blk, inter_channel_blk_size_sum = inter_sum,
       intra_channel_blk_size = intra_blk, intra_channel_blk_size_sum = intra_sum,
       unr_mem_t_size = h, inter_uri_mem_h_offset = inter_offs, intra_uri_mem_h_offset = intra_offs,
       loc_mem_arr = [], rmt_mem_arr = replicate (nat (comm_size e)) []\<rparr>, daemon_thread_continue := True\<rparr>"
    "u = \<lparr>mpi_rank = comm_rank e, mpi_size = comm_size e,
       same_node = map (\<lambda>i. processor_name e = all_names e ! i) [0..<nat (comm_size e)]\<rparr>"
  using assms unfolding unr_init_def uru_mpi_init_def Let_def by (auto split: if_splits)

lemma unr_init_channels_ok:
  assumes "unr_init e s = Inr (st, s')" "\<not> unr_initialized s" "registry_ok (registry s)"
  shows "channels_ok s' \<and> (\<exists>inter_chs intra_chs uc. unr_select e (registry s) = Inr (inter_chs, intra_chs) \<and>
    unr_channels s' = Some uc \<and> inter_channels uc = inter_chs \<and> intra_channels uc = intra_chs \<and>
    (\<forall>i < length (avail_channels uc).
      channel_id (attr (hdr (registry s' ! (avail_channels uc ! i)))) = int i) \<and>
    (\<forall>c < length (registry s). channel_name (registry s' ! c) = channel_name (registry s ! c)) \<and>
    loc_mem_arr uc = [] \<and> rmt_mem_arr uc = replicate (nat (comm_size e)) [])"
proof -
  obtain u inter_chs intra_chs inter_offs intra_offs h t inter_blk inter_sum intra_blk intra_sum where
      sel: "unr_select e (registry s) = Inr (inter_chs, intra_chs)"
    and opn: "unr_open inter_chs intra_chs (s\<lparr>unr_initialized := True, uri := (uri s)\<lparr>uru_mpi := u\<rparr>,
       registry := set_channel_ids (combine_channels inter_chs intra_chs) (registry s)\<rparr>) = Inr (inter_offs, intra_offs, h, t)"
    and ci: "check_blocksizes (registry t) inter_chs = Inr (inter_blk, inter_sum)"
    and ca: "check_blocksizes (registry t) intra_chs = Inr (intra_blk, intra_sum)"
    and s': "s' = t\<lparr>unr_channels := Some \<lparr>avail_channels = combine_channels inter_chs intra_chs, inter_channels = inter_chs,
       intra_channels = intra_chs, intra_channel_reuse = map (intra_reuse inter_chs) intra_chs,
       inter_channel_blk_size = inter_blk, inter_channel_blk_size_sum = inter_sum,
       intra_channel_blk_size = intra_blk, intra_channel_blk_size_sum = intra_sum,
       unr_mem_t_size = h, inter_uri_mem_h_offset = inter_offs, intra_uri_mem_h_offset = intra_offs,
       loc_mem_arr = [], rmt_mem_arr = replicate (nat (comm_size e)) []\<rparr>, daemon_thread_continue := True\<rparr>"
    by (rule unr_init_steps [OF assms(1,2)])
  define avail where "avail = combine_channels inter_chs intra_chs"
  define reg where "reg = set_channel_ids avail (registry s)"
  note sl = unr_select_Inr [OF sel]
  have ids: "length reg = length (registry s)" "\<And>c. c < length (registry s) \<Longrightarrow> numbered (registry s ! c) (reg ! c)"
    unfolding reg_def set_channel_ids_def using set_channel_ids_from [of 0 avail "registry s"] by simp_all
  have in_reg: "\<forall>c \<in> set inter_chs \<union> set intra_chs. c < length (registry s)" using sl(1,2) by (auto simp: list_all_iff)
  have len: "length inter_chs \<le> 16" "length intra_chs \<le> 16"
    using length_le_registry [OF sl(3,1)] length_le_registry [OF sl(4,2)] assms(3)
    by (simp_all add: registry_ok_def URI_MAX_CHANNEL_NUM_def)
  have ok: "\<not> opened (hdr (reg ! c)) \<and> small_parts (reg ! c) \<and> blocksize_of reg c \<le> 2 ^ 32" if "c < length (registry s)" for c
    using assms(3) numberedD [OF ids(2) [OF that]] nth_mem [OF that]
    by (auto simp: registry_ok_def small_parts_def blocksize_of_def uri_channel_attr_get_def)
  have o: "parts (registry t) avail (unat sizeof_unr_mem) (unat h)" "inter_offs = map (offset_of (registry t)) inter_chs"
      "intra_offs = map (offset_of (registry t)) intra_chs" "length (registry t) = length reg"
      "\<And>c. same_channel (reg ! c) (registry t ! c)"
    using unr_open_parts [OF opn sl(3,4) len] in_reg ok ids(1) unfolding avail_def [symmetric] reg_def [symmetric] by auto
  have at: "attr (hdr (registry t ! c)) = attr (hdr (reg ! c))" for c using o(5) by (simp add: same_channel_def)
  then have blk: "\<forall>c \<in> set inter_chs \<union> set intra_chs. blocksize_of (registry t) c \<le> 2 ^ 32"
    using ok in_reg by (simp add: blocksize_of_def uri_channel_attr_get_def)
  have bi: "blk_ok inter_blk inter_sum \<and> inter_blk = map (blocksize_of (registry t)) inter_chs"
    by (rule check_blocksizes_blk_ok [OF ci sl(5) len(1)]) (use blk in auto)
  have ba: "blk_ok intra_blk intra_sum \<and> intra_blk = map (blocksize_of (registry t)) intra_chs"
    by (rule check_blocksizes_blk_ok [OF ca sl(6) len(2)]) (use blk in auto)
  have "channels_ok s'"
    using o(1-3) bi ba combine_distinct [OF sl(3,4)] set_combine [of inter_chs intra_chs]
    by (auto simp: channels_ok_def s' avail_def)
  moreover have "channel_id (attr (hdr (registry t ! (avail ! i)))) = int i" if "i < length avail" for i
  proof -
    have "list_all (\<lambda>c. c < length (registry s)) avail" using in_reg set_combine [of inter_chs intra_chs]
      by (auto simp: avail_def list_all_iff)
    then show ?thesis
      using set_channel_ids_from [of 0 avail "registry s"] combine_distinct [OF sl(3,4)] that
      unfolding at reg_def set_channel_ids_def avail_def by simp
  qed
  moreover have "channel_name (registry t ! c) = channel_name (registry s ! c)" if "c < length (registry s)" for c
    using numberedD [OF ids(2) [OF that]] by (simp add: channel_name_def uri_channel_attr_get_def at)
  ultimately show ?thesis using sel by (auto simp: s' avail_def)
qed

text \<open>
  C13. After \<open>unr_init\<close> every channel in use is open and owns a part of each memory handle: the
  parts start behind the head that the handle shares, do not overlap, and end within the size
  that \<open>unr_mem_reg\<close> allocates; an intra-node channel that is also an inter-node channel shares its
  part. The table that \<open>unr_mem_reg\<close> uses for the offsets agrees with the one that the channel
  subtracts to find the head.
\<close>

theorem unr_init_lays_out_handles:
  assumes "unr_init e s = Inr (st, s')" "\<not> unr_initialized s" "registry_ok (registry s)"
  shows "\<exists>uc. unr_channels s' = Some uc \<and>
    (\<forall>i < length (avail_channels uc). \<exists>sz. let c = avail_channels uc ! i in
       opened (hdr (registry s' ! c)) \<and> uri_mem_h_size (registry s' ! c) = Inr sz \<and>
       unat sizeof_unr_mem \<le> unat (offset_of (registry s') c) \<and>
       unat (offset_of (registry s') c) + unat sz \<le> unat (unr_mem_t_size uc) \<and>
       (\<forall>j < length (avail_channels uc). i < j \<longrightarrow>
         unat (offset_of (registry s') c) + unat sz \<le> unat (offset_of (registry s') (avail_channels uc ! j)))) \<and>
    inter_uri_mem_h_offset uc = map (offset_of (registry s')) (inter_channels uc) \<and>
    intra_uri_mem_h_offset uc = map (offset_of (registry s')) (intra_channels uc)"
proof -
  obtain uc where uc: "unr_channels s' = Some uc"
      "parts (registry s') (avail_channels uc) (unat sizeof_unr_mem) (unat (unr_mem_t_size uc))"
      "inter_uri_mem_h_offset uc = map (offset_of (registry s')) (inter_channels uc)"
      "intra_uri_mem_h_offset uc = map (offset_of (registry s')) (intra_channels uc)"
    using unr_init_channels_ok [OF assms] by (auto simp: channels_ok_def)
  have "\<exists>sz. let c = avail_channels uc ! i in
       opened (hdr (registry s' ! c)) \<and> uri_mem_h_size (registry s' ! c) = Inr sz \<and>
       unat sizeof_unr_mem \<le> unat (offset_of (registry s') c) \<and>
       unat (offset_of (registry s') c) + unat sz \<le> unat (unr_mem_t_size uc) \<and>
       (\<forall>j < length (avail_channels uc). i < j \<longrightarrow>
         unat (offset_of (registry s') c) + unat sz \<le> unat (offset_of (registry s') (avail_channels uc ! j)))"
    if i: "i < length (avail_channels uc)" for i
    using parts_nth [OF uc(2) i] parts_disjoint [OF uc(2), of i] unfolding offset_of_def Let_def by fastforce
  then show ?thesis using uc by blast
qed

text \<open>A process with the MPI channel for both classes.\<close>

definition example_mpi_channel :: "uri_mpi_state uri_channel" where
  "example_mpi_channel = \<lparr>hdr = \<lparr>attr = \<lparr>ch_name = ''mpi'', ch_type = ''mpi'', ch_description = [], ch_blocksize = 4096,
     channel_id = 0\<rparr>, num_devices = 1, device_id = 0, opened = False, mem_h_offset = 0\<rparr>,
     func_ptrs = Some (uri_mpi_channel_func_ptrs (sort_key op_rank) True [] (\<lambda>_. None) [])\<rparr>"

definition example_base :: "uri_mpi_state unr_base_state" where
  "example_base = \<lparr>uri = queue_example_state, registry = [example_mpi_channel], unr_channels = None,
     unr_initialized = False, daemon_thread_continue = True, recv_buf = [], plans = (\<lambda>_. None), u_brk = 1000\<rparr>"

definition example_env :: unr_env where
  "example_env = \<lparr>env_inter = Some ''mpi,'', env_intra = None, mpi_initialized = True, comm_rank = 0, comm_size = 2,
     processor_name = ''n0'', all_names = [''n0'', ''n1''], thread_created = True\<rparr>"

lemma example_registry_ok: "registry_ok (registry example_base)"
  by (simp add: registry_ok_def example_base_def example_mpi_channel_def small_parts_def URI_MAX_CHANNEL_NUM_def
      uri_mpi_channel_func_ptrs_def uri_mpi_mem_h_size_def)

lemma example_select: "unr_select example_env (registry example_base) = Inr ([0], [0])"
  by (simp add: unr_select_def example_env_def example_base_def example_mpi_channel_def select_channels_def tokens_def
      select_token_def find_channel_def uri_query_channel_list_def channel_name_def uri_channel_attr_get_def)

lemma example_open:
  "\<exists>t. unr_open [0] [0] (example_base\<lparr>unr_initialized := True, uri := u,
       registry := set_channel_ids [0] (registry example_base)\<rparr>) = Inr ([24], [24], 24, t) \<and>
     check_blocksizes (registry t) [0] = Inr ([4096], 4096)"
proof -
  have o: "4096 AND 4095 = (0 :: u64)" by simp
  show ?thesis
    by (simp add: unr_open_def open_or_reuse_def uri_channel_open_def set_channel_ids_def intra_reuse_def
        set_channel_id_def check_blocksizes_def blocksize_of_def type_of_def uri_channel_attr_get_def
        uri_mem_h_size_def uri_mpi_channel_func_ptrs_def uri_mpi_channel_open_def uri_mpi_mem_h_size_def
        example_base_def example_mpi_channel_def with_func_def sizeof_unr_mem_def sizeof_uri_mem_def Let_def o)
qed

lemma example_init: "\<exists>s. unr_init example_env example_base = Inr (URU_STATUS_OK, s)"
proof -
  define u where "u = \<lparr>mpi_rank = comm_rank example_env, mpi_size = comm_size example_env,
    same_node = map (\<lambda>i. processor_name example_env = all_names example_env ! i) [0..<nat (comm_size example_env)]\<rparr>"
  obtain t where t: "unr_open [0] [0] (example_base\<lparr>unr_initialized := True, uri := (uri example_base)\<lparr>uru_mpi := u\<rparr>,
       registry := set_channel_ids [0] (registry example_base)\<rparr>) = Inr ([24], [24], 24, t)"
      "check_blocksizes (registry t) [0] = Inr ([4096], 4096)"
    using example_open by blast
  have m: "mpi_initialized example_env" "thread_created example_env" "\<not> unr_initialized example_base"
    by (simp_all add: example_env_def example_base_def)
  have c: "combine_channels [0] [0] = [0]" by (simp add: combine_channels_def intra_reuse_def)
  show ?thesis
    unfolding unr_init_def uru_mpi_init_def option.case Let_def u_def [symmetric]
    by (simp add: m example_select c t)
qed

theorem unr_init_lays_out_handles_witness:
  "\<exists>s uc. unr_init example_env example_base = Inr (URU_STATUS_OK, s) \<and> unr_channels s = Some uc \<and>
     inter_uri_mem_h_offset uc = map (offset_of (registry s)) (inter_channels uc)"
proof -
  obtain s where s: "unr_init example_env example_base = Inr (URU_STATUS_OK, s)" using example_init by blast
  have "\<not> unr_initialized example_base" by (simp add: example_base_def)
  from unr_init_lays_out_handles [OF s this example_registry_ok] s show ?thesis by blast
qed

text \<open>
  C30. \<open>unr_init\<close> selects the channels whose names the user listed, separated by commas, in that
  order, and the MPI channel where nothing is listed; it uses each of them once and numbers them
  by their position.
\<close>

theorem unr_init_selects:
  assumes "unr_init e s = Inr (st, s')" "\<not> unr_initialized s" "registry_ok (registry s)"
  shows "\<exists>uc. unr_channels s' = Some uc \<and>
    map (\<lambda>c. channel_name (registry s' ! c)) (inter_channels uc) =
      (case env_inter e of None \<Rightarrow> [''mpi''] | Some names \<Rightarrow> tokens names) \<and>
    map (\<lambda>c. channel_name (registry s' ! c)) (intra_channels uc) =
      (case env_intra e of None \<Rightarrow> [''mpi''] | Some names \<Rightarrow> tokens names) \<and>
    distinct (avail_channels uc) \<and> set (avail_channels uc) = set (inter_channels uc) \<union> set (intra_channels uc) \<and>
    (\<forall>i < length (avail_channels uc). channel_id (attr (hdr (registry s' ! (avail_channels uc ! i)))) = int i)"
proof -
  obtain inter_chs intra_chs uc where sel: "unr_select e (registry s) = Inr (inter_chs, intra_chs)"
    and uc: "unr_channels s' = Some uc" "inter_channels uc = inter_chs" "intra_channels uc = intra_chs"
      "\<forall>i < length (avail_channels uc). channel_id (attr (hdr (registry s' ! (avail_channels uc ! i)))) = int i"
    and nm: "\<And>c. c < length (registry s) \<Longrightarrow> channel_name (registry s' ! c) = channel_name (registry s ! c)"
    and ok: "channels_ok s'"
    using unr_init_channels_ok [OF assms] by blast
  have sc: "select_channels (2 * length (registry s)) (env_inter e) (registry s) = Inr inter_chs"
      "select_channels (length (registry s)) (env_intra e) (registry s) = Inr intra_chs"
    using sel by (auto simp: unr_select_def uri_query_channel_list_def)
  have ds: "distinct (avail_channels uc) \<and> set (avail_channels uc) = set inter_chs \<union> set intra_chs"
    using ok uc(1-3) unfolding channels_ok_def by fastforce
  have "map (\<lambda>c. channel_name (registry s' ! c)) inter_chs = map (\<lambda>c. channel_name (registry s ! c)) inter_chs"
      "map (\<lambda>c. channel_name (registry s' ! c)) intra_chs = map (\<lambda>c. channel_name (registry s ! c)) intra_chs"
    using select_channels_Inr(1) [OF sc(1)] select_channels_Inr(1) [OF sc(2)] nm by (auto simp: list_all_iff)
  then show ?thesis
    using uc select_channels_Inr(3) [OF sc(1)] select_channels_Inr(3) [OF sc(2)] ds by simp
qed

theorem unr_init_selects_witness:
  "\<exists>s uc. unr_init example_env example_base = Inr (URU_STATUS_OK, s) \<and> unr_channels s = Some uc \<and>
     map (\<lambda>c. channel_name (registry s ! c)) (inter_channels uc) = [''mpi'']"
proof -
  obtain s where s: "unr_init example_env example_base = Inr (URU_STATUS_OK, s)" using example_init by blast
  have "\<not> unr_initialized example_base" by (simp add: example_base_def)
  from unr_init_selects [OF s this example_registry_ok] s show ?thesis
    by (auto simp: example_env_def tokens_def)
qed

end
