(* ===== verification/Uri_Module.thy ===== *)
theory Uri_Module
  imports Uri_Mpi_Link Uri_Verbs_Flow
begin

text \<open>
  What the layers above rely on in a channel module, as a locale, and that both modules of the
  repository keep it: a module never changes the heads of memory handles nor the process's view of
  MPI, and asks for a small part of each handle.
\<close>

section \<open>The contract\<close>

definition same_env :: "('z) uri_state_scheme \<Rightarrow> 'z uri_state_scheme \<Rightarrow> bool" where
  "same_env s t \<longleftrightarrow> mems t = mems s \<and> uru_mpi t = uru_mpi s"

lemma same_env_refl [simp]: "same_env s s"
  by (simp add: same_env_def)

lemma same_env_trans: "same_env s t \<Longrightarrow> same_env t u \<Longrightarrow> same_env s u"
  by (simp add: same_env_def)

locale channel_module =
  fixes fp :: "('z uri_state_scheme) uri_channel_func_ptrs"
  assumes open_env: "channel_open fp = Some f_open \<Longrightarrow> f_open h s = Inr (st, t) \<Longrightarrow> same_env s t"
    and daemon_env: "channel_daemon fp = Some f_daemon \<Longrightarrow> f_daemon h s = Inr (st, t) \<Longrightarrow> same_env s t"
    and part_small: "mem_h_size fp = Some f_size \<Longrightarrow> f_size h \<le> 2 ^ 32"
    and reg_env: "mem_reg fp = Some f_reg \<Longrightarrow> f_reg h a n p s = Inr (st, t) \<Longrightarrow> same_env s t"
    and create_env: "rdma_plan_create fp = Some f_create \<Longrightarrow> f_create h now ws s = Inr (pl, t) \<Longrightarrow> same_env s t"
    and start_env: "rdma_plan_start fp = Some f_start \<Longrightarrow> f_start h pl s = Inr (st, t) \<Longrightarrow> same_env s t"
    and destroy_env: "rdma_plan_destroy fp = Some f_destroy \<Longrightarrow> f_destroy h pl s = Inr (st, t) \<Longrightarrow> same_env s t"

text \<open>The dispatch functions of the channel layer keep what the module keeps.\<close>

context channel_module
begin

lemma uri_channel_daemon_env:
  "func_ptrs ch = Some fp \<Longrightarrow> uri_channel_daemon ch s = Inr (st, t) \<Longrightarrow> same_env s t"
  by (auto simp: uri_channel_daemon_def with_func_Inr intro: daemon_env)

lemma uri_channel_open_env:
  "func_ptrs ch = Some fp \<Longrightarrow> uri_channel_open ch off s = Inr (st, ch', t) \<Longrightarrow> same_env s t"
  by (auto simp: uri_channel_open_def with_func_Inr Let_def intro: open_env split: if_splits)

lemma uri_mem_reg_env:
  "func_ptrs ch = Some fp \<Longrightarrow> uri_mem_reg ch a n p s = Inr (st, t) \<Longrightarrow> same_env s t"
  by (auto simp: uri_mem_reg_def with_func_Inr intro: reg_env)

lemma uri_rdma_plan_create_env:
  "func_ptrs ch = Some fp \<Longrightarrow> uri_rdma_plan_create ch now ts ws s = Inr (pl, t) \<Longrightarrow> same_env s t"
  by (auto simp: uri_rdma_plan_create_def with_func_Inr intro: create_env split: option.splits if_splits)

lemma uri_rdma_plan_start_env:
  "func_ptrs ch = Some fp \<Longrightarrow> uri_rdma_plan_start ch pl s = Inr (st, t) \<Longrightarrow> same_env s t"
  by (auto simp: uri_rdma_plan_start_def with_func_Inr intro: start_env)

lemma uri_rdma_plan_destroy_env:
  "func_ptrs ch = Some fp \<Longrightarrow> uri_rdma_plan_destroy ch pl s = Inr (st, t) \<Longrightarrow> same_env s t"
  by (auto simp: uri_rdma_plan_destroy_def with_func_Inr intro: destroy_env)

end

section \<open>The MPI module\<close>

lemma que_app_env: "uri_mpi_req_que_app ps s = Inr t \<Longrightarrow> same_env s t"
  by (erule que_app_frame) (simp add: same_env_def)

lemma op_free_env: "op_free p s = Inr t \<Longrightarrow> same_env s t"
  by (drule op_free_frame) (simp add: same_env_def)

lemma op_frees_env: "fold_res (\<lambda>b. op_free (b_ops b)) bs s = Inr t \<Longrightarrow> same_env s t"
  by (erule fold_res_invariant) (auto dest: op_free_env intro: same_env_trans)

lemma issue_all_env [simp]: "same_env s (issue_all c ops s)"
  by (simp add: issue_all_def same_env_def)

lemma send_ctrl_env: "send_ctrl d m s = (p, t) \<Longrightarrow> same_env s t"
  by (auto simp: send_ctrl_eq same_env_def)

lemma id_env:
  "get_tag r s = Inr (x, t) \<Longrightarrow> same_env s t"
  "get_batch_id r s = Inr (x, t) \<Longrightarrow> same_env s t"
  "return_tag r x s = Inr t \<Longrightarrow> same_env s t"
  "return_batch_id r x s = Inr t \<Longrightarrow> same_env s t"
  by (auto simp: get_tag_def get_batch_id_def return_tag_def return_batch_id_def same_env_def split: if_splits)

lemma recv_ops_init_env: "recv_ops_init ops s = Inr (ops', t) \<Longrightarrow> same_env s t"
proof (induction ops arbitrary: s ops')
  case (Cons op ops)
  then obtain op' s1 ops1 where 1: "recv_op_init op s = Inr (op', s1)" "recv_ops_init ops s1 = Inr (ops1, t)" by auto
  have "same_env s s1" using 1(1) by (auto simp: recv_op_init_def mpi_issue_def same_env_def split: if_splits)
  then show ?case using Cons.IH [OF 1(2)] by (rule same_env_trans)
qed simp

lemma exec_ops_env: "exec_ops ops s = Inr (ps, t) \<Longrightarrow> same_env s t"
proof (induction ops arbitrary: s ps)
  case (Cons op ops)
  then obtain p s1 ps1 where 1: "exec_op op s = Inr (p, s1)" "exec_ops ops s1 = Inr (ps1, t)" by auto
  have "same_env s s1" using 1(1) by (auto simp: exec_op_def op_alloc_def mpi_issue_def same_env_def split: if_splits)
  then show ?case using Cons.IH [OF 1(2)] by (rule same_env_trans)
qed simp

lemma process_ctrl_env:
  assumes "uri_mpi_process_ctrl_msg src m s = Inr t"
  shows "same_env s t"
proof (cases "cm_type m")
  case create_op_batch
  then obtain ops s1 s2 ops' where 1: "grow_table src (cm_batch_id m) s = Inr s1" "recv_ops_init ops s1 = Inr (ops', s2)"
      and t: "t = set_slot src (cm_batch_id m) (Some \<lparr>b_batch_id = cm_batch_id m, b_ops = brk s2\<rparr>)
        (snd (op_alloc ops' s2))"
    using assms by (auto simp: uri_mpi_process_ctrl_msg_def op_alloc_def Let_def split: if_splits option.splits)
  have "same_env s s1" using 1(1) by (auto simp: grow_table_def Let_def same_env_def split: if_splits)
  moreover have "same_env s2 t" by (simp add: t set_slot_def op_alloc_def same_env_def)
  ultimately show ?thesis using recv_ops_init_env [OF 1(2)] by (meson same_env_trans)
next
  case destroy_op_batch
  then obtain b ops s1 where "op_free b (issue_all (\<lambda>op. MPI_Request_free (op_req op)) ops s) = Inr s1"
      "t = set_slot src (cm_batch_id m) None s1"
    using assms by (auto simp: uri_mpi_process_ctrl_msg_def Let_def split: option.splits)
  then have "same_env s s1" "same_env s1 t"
    by (auto dest!: op_free_env simp: set_slot_def same_env_def issue_all_def)
  then show ?thesis by (rule same_env_trans)
next
  case start_op_batch
  then obtain b ops where "uri_mpi_req_que_app (block_ptrs b ops) (issue_all (\<lambda>op. MPI_Start (op_req op)) ops s) = Inr t"
    using assms by (auto simp: uri_mpi_process_ctrl_msg_def Let_def split: option.splits if_splits)
  from que_app_env [OF this] show ?thesis by (rule same_env_trans [OF issue_all_env])
next
  case execute_op_batch
  then obtain ops ps s1 where "exec_ops ops s = Inr (ps, s1)" "uri_mpi_req_que_app ps s1 = Inr t"
    using assms by (auto simp: uri_mpi_process_ctrl_msg_def Let_def split: option.splits)
  then show ?thesis by (meson exec_ops_env que_app_env same_env_trans)
qed (use assms in \<open>simp_all add: uri_mpi_process_ctrl_msg_def Let_def\<close>)

lemma daemon_queue_env:
  assumes "daemon_queue testsome s = Inr t"
  shows "same_env s t"
proof -
  obtain idx where idx: "(if arr_tail s = 0 then Some [] else testsome (map fst (waiting s))) = Some idx"
    using assms unfolding daemon_queue_def Let_def by (auto split: option.splits if_splits)
  obtain s2 where 1: "fold_res (\<lambda>j. complete_op (snd (waiting s ! j))) idx s = Inr s2"
    and 2: "(case compact idx 0 (length idx) (arr_tail s2) (req_q s2) of
        (tail, arr) \<Rightarrow> Inr (s2\<lparr>req_q := arr, arr_tail := tail\<rparr>)) = (Inr t :: _ res)"
    using assms unfolding daemon_queue_def Let_def idx by (auto split: if_splits)
  have "same_env s s2" using complete_ops_frame [OF 1] by (simp add: same_queue_def same_env_def)
  moreover have "same_env s2 t"
    using 2 by (cases "compact idx 0 (length idx) (arr_tail s2) (req_q s2)") (auto simp: same_env_def)
  ultimately show ?thesis by (rule same_env_trans)
qed

lemma process_ctrls_env:
  "fold_res (\<lambda>(src, m). uri_mpi_process_ctrl_msg src m) msgs s = Inr t \<Longrightarrow> same_env s t"
  by (erule fold_res_invariant) (auto dest: process_ctrl_env intro: same_env_trans)

lemma mpi_daemon_env: "uri_mpi_channel_daemon msgs testsome ch s = Inr (st, t) \<Longrightarrow> same_env s t"
  unfolding uri_mpi_channel_daemon_def res_bind_eq_Inr
  by (auto dest!: process_ctrls_env daemon_queue_env intro: same_env_trans)

lemma create_wrt_env: "create_wrt ch once_now w s = Inr (so, ro, ps, t) \<Longrightarrow> same_env s t"
  by (auto simp: create_wrt_def get_tag_def mpi_issue_def op_alloc_def Let_def same_env_def
      split: prod.splits if_splits)

lemma create_wrts_env: "create_wrts ch once_now ws s = Inr (sos, ros, ps, t) \<Longrightarrow> same_env s t"
proof (induction ws arbitrary: s sos ros ps)
  case (Cons w ws)
  then obtain so ro ps1 s1 sos1 ros1 ps2 where
    1: "create_wrt ch once_now w s = Inr (so, ro, ps1, s1)" "create_wrts ch once_now ws s1 = Inr (sos1, ros1, ps2, t)"
    by auto
  show ?case by (rule same_env_trans [OF create_wrt_env [OF 1(1)] Cons.IH [OF 1(2)]])
qed simp

lemma announce_env: "announce once_now run s = Inr (b, p, t) \<Longrightarrow> same_env s t"
  by (auto simp: announce_def op_alloc_def get_batch_id_def send_ctrl_eq Let_def same_env_def
      split: prod.splits if_splits)

lemma announce_all_env: "announce_all once_now runs s = Inr (bs, ps, t) \<Longrightarrow> same_env s t"
proof (induction runs arbitrary: s bs ps)
  case (Cons run runs)
  then obtain b p s1 bs1 ps1 where
    1: "announce once_now run s = Inr (b, p, s1)" "announce_all once_now runs s1 = Inr (bs1, ps1, t)"
    by auto
  show ?case by (rule same_env_trans [OF announce_env [OF 1(1)] Cons.IH [OF 1(2)]])
qed simp

lemma mpi_create_env:
  assumes "uri_mpi_rdma_plan_create qsort ch once_now wrts s = Inr (pl, t)"
  shows "same_env s t"
proof -
  obtain sos ros ps s1 runs bs ps' s2 s3 where
    1: "create_wrts ch once_now wrts s = Inr (sos, ros, ps, s1)" "announce_all once_now runs s1 = Inr (bs, ps', s2)"
       "uri_mpi_req_que_app (ps @ ps') s2 = Inr s3"
    and 2: "(let (sb, s) = op_alloc sos s3; plan_p = brk s; s = s\<lparr>brk := brk s + 1\<rparr> in
     if once_now then
       res_bind (op_free sb s) (\<lambda>s.
       res_bind (fold_res (\<lambda>b. op_free (b_ops b)) bs s) (\<lambda>s. Inr (plan_p, s)))
     else Inr (plan_p, s\<lparr>mpi_plans := (mpi_plans s)(plan_p \<mapsto>
       \<lparr>pl_send_batch = \<lparr>b_batch_id = - 1, b_ops = sb\<rparr>, pl_recv_batch = bs\<rparr>)\<rparr>)) = Inr (pl, t)"
    using assms unfolding uri_mpi_rdma_plan_create_def res_bind_eq_Inr split_paired_Ex split_conv Let_def by blast
  have "same_env s s3"
    using create_wrts_env [OF 1(1)] announce_all_env [OF 1(2)] que_app_env [OF 1(3)] by (meson same_env_trans)
  moreover have "same_env s3 t"
    using 2 by (auto simp: op_alloc_def Let_def dest!: op_free_env op_frees_env split: if_splits)
      (auto simp: same_env_def)
  ultimately show ?thesis by (rule same_env_trans)
qed

lemma start_all_env: "start_all bs s = Inr (ps, t) \<Longrightarrow> same_env s t"
proof (induction bs arbitrary: s ps)
  case (Cons b bs)
  obtain d where d: "batch_rank b s = Inr d" using Cons.prems by auto
  obtain p s1 where
    1: "send_ctrl d \<lparr>cm_type = start_op_batch, cm_batch_id = b_batch_id b, cm_ops = None\<rparr> s = (p, s1)"
    by (rule prod.exhaust)
  obtain ps1 where 2: "start_all bs s1 = Inr (ps1, t)" using Cons.prems by (auto simp: d 1)
  show ?case by (rule same_env_trans [OF send_ctrl_env [OF 1] Cons.IH [OF 2]])
qed simp

lemma mpi_start_env:
  assumes "uri_mpi_rdma_plan_start ch pl s = Inr (st, t)"
  shows "same_env s t"
proof -
  obtain bs ps s1 ops q where 1: "start_all bs s = Inr (ps, s1)"
      "uri_mpi_req_que_app q (issue_all (\<lambda>op. MPI_Start (op_req op)) ops s1) = Inr t"
    using assms by (auto simp: uri_mpi_rdma_plan_start_def)
  show ?thesis
    using start_all_env [OF 1(1)] issue_all_env que_app_env [OF 1(2)] by (meson same_env_trans)
qed

lemma destroy_all_env: "destroy_all bs s = Inr (ps, t) \<Longrightarrow> same_env s t"
proof (induction bs arbitrary: s ps)
  case (Cons b bs)
  obtain d where d: "batch_rank b s = Inr d" using Cons.prems by auto
  obtain p s1 where
    1: "send_ctrl d \<lparr>cm_type = destroy_op_batch, cm_batch_id = b_batch_id b, cm_ops = None\<rparr> s = (p, s1)"
    by (rule prod.exhaust)
  obtain s2 ps1 where 2: "return_batch_id d (b_batch_id b) s1 = Inr s2" "destroy_all bs s2 = Inr (ps1, t)"
    using Cons.prems by (auto simp: d 1)
  show ?case
    using send_ctrl_env [OF 1] id_env(4) [OF 2(1)] Cons.IH [OF 2(2)] by (meson same_env_trans)
qed simp

lemma drop_send_op_env: "drop_send_op op s = Inr t \<Longrightarrow> same_env s t"
  by (auto simp: drop_send_op_def mpi_issue_def return_tag_def same_env_def split: if_splits)

lemma mpi_destroy_env:
  assumes "uri_mpi_rdma_plan_destroy ch pl s = Inr (st, t)"
  shows "same_env s t"
proof -
  obtain ops s1 bs ps s2 s3 b s4 s5 where
    1: "fold_res drop_send_op ops s = Inr s1" "destroy_all bs s1 = Inr (ps, s2)" "uri_mpi_req_que_app ps s2 = Inr s3"
      "op_free b s3 = Inr s4" "fold_res (\<lambda>b. op_free (b_ops b)) bs s4 = Inr s5"
    and t: "t = s5\<lparr>mpi_plans := (mpi_plans s5)(pl := None)\<rparr>"
    using assms by (auto simp: uri_mpi_rdma_plan_destroy_def)
  have "same_env s s1" using 1(1) by (rule fold_res_invariant) (auto dest: drop_send_op_env intro: same_env_trans)
  then have "same_env s s5"
    using destroy_all_env [OF 1(2)] que_app_env [OF 1(3)] op_free_env [OF 1(4)] op_frees_env [OF 1(5)]
    by (meson same_env_trans)
  then show ?thesis by (simp add: t same_env_def)
qed

lemma mpi_open_env: "uri_mpi_channel_open thread_multiple ch s = Inr (st, t) \<Longrightarrow> same_env s t"
  by (auto simp: uri_mpi_channel_open_def Let_def same_env_def)

interpretation mpi_mod: channel_module "uri_mpi_channel_func_ptrs qsort thread_multiple msgs testsome rounds"
  by unfold_locales
    (auto simp: uri_mpi_channel_func_ptrs_def uri_mpi_mem_h_size_def uri_mpi_mem_reg_def
      dest: mpi_open_env mpi_daemon_env mpi_create_env mpi_start_env mpi_destroy_env)

section \<open>The Verbs module\<close>

text \<open>The daemon thread that works while a sender waits for room.\<close>

definition daemon_steps :: "(nat \<Rightarrow> (('z) uri_verbs_state_scheme \<Rightarrow> 'z uri_verbs_state_scheme) list) \<Rightarrow> bool" where
  "daemon_steps progress \<longleftrightarrow> (\<forall>i. \<forall>d \<in> set (progress i). \<forall>s. same_env s (d s))"

lemma wait_room_env:
  "wait_room ds r s = Inr t \<Longrightarrow> \<forall>d \<in> set ds. \<forall>s. same_env s (d s) \<Longrightarrow> same_env s t"
proof (induction ds arbitrary: s)
  case (Cons d ds)
  show ?case
  proof (cases "qp_full r s")
    case True
    then have "wait_room ds r (d s) = Inr t" using Cons.prems(1) by (simp split: if_splits)
    from Cons.IH [OF this] Cons.prems(2) show ?thesis by (auto intro: same_env_trans)
  qed (use Cons.prems in simp)
qed (simp split: if_splits)

lemma verbs_post_env: "verbs_post r wr s = Inr t \<Longrightarrow> same_env s t"
  by (auto simp: verbs_post_def verbs_posted_def verbs_issue_def same_env_def Let_def)

lemma verbs_start_wrs_env:
  assumes "daemon_steps progress"
  shows "verbs_start_wrs progress i wrs s = Inr t \<Longrightarrow> same_env s t"
proof (induction wrs arbitrary: i s)
  case (Cons rw wrs)
  obtain r wr where rw: "rw = (r, wr)" by (cases rw)
  obtain s1 s2 where 1: "wait_room (progress i) r s = Inr s1" "verbs_post r wr s1 = Inr s2" "verbs_start_wrs progress (i + 1) wrs s2 = Inr t"
    using Cons.prems by (auto simp: rw split: if_splits)
  have "same_env s s1" using wait_room_env [OF 1(1)] assms by (simp add: daemon_steps_def)
  then show ?case using verbs_post_env [OF 1(2)] Cons.IH [OF 1(3)] by (meson same_env_trans)
qed simp

lemma verbs_start_env:
  "daemon_steps progress \<Longrightarrow> uri_verbs_rdma_plan_start progress ch pl s = Inr (st, t) \<Longrightarrow> same_env s t"
  by (auto simp: uri_verbs_rdma_plan_start_def intro: verbs_start_wrs_env split: option.splits)

lemma verbs_destroy_env: "uri_verbs_rdma_plan_destroy ch pl s = Inr (st, t) \<Longrightarrow> same_env s t"
  by (auto simp: uri_verbs_rdma_plan_destroy_def same_env_def split: option.splits)

lemma verbs_create_env:
  assumes "daemon_steps progress" "uri_verbs_rdma_plan_create progress ch once_now wrts s = Inr (pl, t)"
  shows "same_env s t"
proof -
  obtain wrs where 1: "verbs_create_wrs ch wrts s = Inr wrs" using assms(2) by (auto simp: uri_verbs_rdma_plan_create_def)
  let ?s = "s\<lparr>v_brk := v_brk s + 1, verbs_plans := (verbs_plans s)(v_brk s \<mapsto> \<lparr>vp_wr = wrs\<rparr>)\<rparr>"
  have "same_env s ?s" by (simp add: same_env_def)
  moreover have "same_env ?s t"
  proof (cases once_now)
    case True
    then obtain st1 s1 st2 where 2: "uri_verbs_rdma_plan_start progress ch (v_brk s) ?s = Inr (st1, s1)"
        "uri_verbs_rdma_plan_destroy ch (v_brk s) s1 = Inr (st2, t)"
      using assms(2) unfolding uri_verbs_rdma_plan_create_def 1 Let_def by auto
    show ?thesis by (rule same_env_trans [OF verbs_start_env [OF assms(1) 2(1)] verbs_destroy_env [OF 2(2)]])
  next
    case False
    then show ?thesis using assms(2) unfolding uri_verbs_rdma_plan_create_def 1 Let_def by (auto simp: same_env_def)
  qed
  ultimately show ?thesis by (rule same_env_trans)
qed


lemma event_env: "uri_verbs_event_progress e s = Inr t \<Longrightarrow> same_env s t"
  by (erule event_progress_frame) (simp add: same_env_def)

lemma req_finished_env: "req_finished q s = Inr (r, t) \<Longrightarrow> same_env s t"
  by (auto simp: req_finished_def Let_def same_env_def split: if_splits)

lemma rmt_complete_env: "uri_verbs_send_rmt_complete r e s = Inr t \<Longrightarrow> same_env s t"
  by (auto simp: uri_verbs_send_rmt_complete_def verbs_issue_def same_env_def split: if_splits)

lemma process_wc_env: "process_wc wc s = Inr (n, t) \<Longrightarrow> same_env s t"
  unfolding process_wc_def
  by (auto split: if_splits ibv_wc_opcode.splits dest!: event_env req_finished_env rmt_complete_env intro: same_env_trans)

lemma process_wcs_env: "process_wcs wcs s = Inr (n, t) \<Longrightarrow> same_env s t"
proof (induction wcs arbitrary: s n)
  case (Cons wc wcs)
  then obtain k s1 m where 1: "process_wc wc s = Inr (k, s1)" "process_wcs wcs s1 = Inr (m, t)" by auto
  show ?case by (rule same_env_trans [OF process_wc_env [OF 1(1)] Cons.IH [OF 1(2)]])
qed simp

lemma daemon_poll_env: "daemon_poll wcs s = Inr t \<Longrightarrow> same_env s t"
  unfolding daemon_poll_def
  by (auto split: if_splits dest!: process_wcs_env) (simp_all add: verbs_issue_def same_env_def)

lemma verbs_daemon_env: "uri_verbs_channel_daemon polls ch s = Inr (st, t) \<Longrightarrow> same_env s t"
  unfolding uri_verbs_channel_daemon_def res_bind_eq_Inr
  by (auto elim!: fold_res_invariant [where P = "same_env s"] dest: daemon_poll_env intro: same_env_trans)

lemma verbs_reg_env: "uri_verbs_mem_reg mr ch a n p s = Inr (st, t) \<Longrightarrow> same_env s t"
  by (auto simp: uri_verbs_mem_reg_def same_env_def split: option.splits)

lemma modify_env:
  "modify_qp va q a m s = Inr t \<Longrightarrow> same_env s t"
  "create_qp va i s = Inr t \<Longrightarrow> same_env s t"
  "note_qp i s = Inr t \<Longrightarrow> same_env s t"
  by (auto simp: create_qp_def modify_qp_to_init_def modify_qp_def note_qp_def verbs_issue_def same_env_def Let_def
      split: if_splits)

lemma connect_env: "connect_qp va roce i s = Inr t \<Longrightarrow> same_env s t"
  by (auto simp: connect_qp_def modify_qp_to_rts_def modify_qp_to_rtr_def modify_qp_def verbs_issue_def same_env_def
      split: if_splits)

lemma pool_env: "init_flag_pool e a bs s = Inr t \<Longrightarrow> same_env s t"
  by (auto simp: init_flag_pool_def same_env_def Let_def split: if_splits option.splits)

lemma verbs_open_env:
  assumes "uri_verbs_channel_open va ch s = Inr (st, t)"
  shows "same_env s t"
proof -
  define n where "n = nat (mpi_size (uru_mpi s))"
  obtain dev s1 s2 s3 s4 roce where 1: "open_device va ch s = Inr (dev, s1)"
      "fold_res (create_qp va) [0..<n] ((verbs_issue (ibv_post_srq_recv (max_srq_wr s1)) s1)\<lparr>qp_list := []\<rparr>) = Inr s2"
      "fold_res note_qp [0..<n] (s2\<lparr>qp2rank := (\<lambda>_. - 1)\<rparr>) = Inr s3"
      "fold_res (connect_qp va roce) [0..<n] s3 = Inr s4"
      "init_flag_pool (env_num_flags va) (va_flag_arr va) (va_flag_bases va)
        (s4\<lparr>req_submit := replicate n 0, req_finish := replicate n 0\<rparr>) = Inr t"
    using assms unfolding uri_verbs_channel_open_def Let_def n_def verbs_check_def
    by (auto split: if_splits)
  have "same_env s s1" using 1(1) by (auto simp: open_device_def Let_def verbs_check_def same_env_def split: option.splits if_splits)
  moreover have "same_env ((verbs_issue (ibv_post_srq_recv (max_srq_wr s1)) s1)\<lparr>qp_list := []\<rparr>) s2"
    using 1(2) by (rule fold_res_invariant) (auto dest: modify_env intro: same_env_trans)
  moreover have "same_env (s2\<lparr>qp2rank := (\<lambda>_. - 1)\<rparr>) s3"
    using 1(3) by (rule fold_res_invariant) (auto dest: modify_env intro: same_env_trans)
  moreover have "same_env s3 s4"
    using 1(4) by (rule fold_res_invariant) (auto dest: connect_env intro: same_env_trans)
  ultimately show ?thesis using pool_env [OF 1(5)] by (simp add: same_env_def verbs_issue_def)
qed

text \<open>The functions of the module, where what runs beside a waiting sender keeps the environment.\<close>

lemma verbs_module:
  "daemon_steps progress \<Longrightarrow> channel_module (uri_verbs_channel_func_ptrs va polls mr progress)"
  by unfold_locales
    (auto simp: uri_verbs_channel_func_ptrs_def uri_verbs_mem_h_size_def sizeof_uri_verbs_mem_def
      dest: verbs_open_env verbs_daemon_env verbs_reg_env verbs_create_env verbs_start_env verbs_destroy_env)

text \<open>The daemon thread of the process: the calls it makes while write \<open>i\<close> waits for room.\<close>

definition daemon_call :: "uri_channel_hdr \<Rightarrow> ibv_wc list list \<Rightarrow> ('z) uri_verbs_state_scheme \<Rightarrow> 'z uri_verbs_state_scheme" where
  "daemon_call ch polls s = (case uri_verbs_channel_daemon polls ch s of Inr (_, t) \<Rightarrow> t | Inl _ \<Rightarrow> s)"

lemma daemon_call_steps: "daemon_steps (\<lambda>i. map (daemon_call ch) (calls i))"
  by (auto simp: daemon_steps_def daemon_call_def dest: verbs_daemon_env split: sum.splits)

interpretation verbs_mod:
  channel_module "uri_verbs_channel_func_ptrs va polls mr (\<lambda>i. map (daemon_call ch) (calls i))"
  by (rule verbs_module [OF daemon_call_steps])

end
