(* ===== verification/Unr_Mem.thy ===== *)
theory Unr_Mem
  imports Unr_Channel_Props Uri_Module
begin

text \<open>
  Memory registration, \<open>src/unr/base/unr_mem.c\<close>: a handle is a head (\<open>unr_mem_t\<close>) with one part
  behind it for every channel in use, at the offsets that \<open>unr_init\<close> laid out; the exchange gives
  every process a copy of all handles of all processes.
\<close>

section \<open>Registering\<close>

text \<open>
  The channels that are told about a new handle: every inter-node channel, then the intra-node
  channels that are not inter-node channels as well, each with the offset of its part.
\<close>

definition reg_targets :: "unr_channels_t \<Rightarrow> (nat \<times> u64) list" where
  "reg_targets uc =
     zip (inter_channels uc) (inter_uri_mem_h_offset uc) @
     map fst (filter (\<lambda>((c, off), reuse). reuse = None)
       (zip (zip (intra_channels uc) (intra_uri_mem_h_offset uc)) (intra_channel_reuse uc)))"

definition reg_channel ::
  "u64 \<Rightarrow> u64 \<Rightarrow> addr \<Rightarrow> nat \<times> u64 \<Rightarrow> 's unr_base_state \<Rightarrow> 's unr_base_state res" where
  "reg_channel mem_addr mem_size h co s = (case co of (c, off) \<Rightarrow>
     res_bind (uri_mem_reg (registry s ! c) mem_addr mem_size (h + unat off) (uri s)) (\<lambda>(_, u). Inr (s\<lparr>uri := u\<rparr>)))"

text \<open>The handle that is returned is the address of its head.\<close>

definition unr_mem_reg ::
  "u64 \<Rightarrow> u64 \<Rightarrow> (('z) uri_state_scheme) unr_base_state \<Rightarrow>
   (uru_status_t \<times> addr \<times> ('z uri_state_scheme) unr_base_state) res" where
  "unr_mem_reg mem_addr mem_size s =
     (case unr_channels s of
        None \<Rightarrow> Inl (Exit URU_ASSERT_EXIT)
      | Some uc \<Rightarrow>
          uru_assert (mem_size > 0)
          (let h = u_brk s;
               head = \<lparr>m_addr = mem_addr, m_size = mem_size, m_rank = mpi_rank (uru_mpi (uri s)),
                 m_idx = int (length (loc_mem_arr uc))\<rparr>;
               s = s\<lparr>unr_channels := Some (uc\<lparr>loc_mem_arr := loc_mem_arr uc @ [h]\<rparr>),
                 uri := (uri s)\<lparr>mems := (mems (uri s))(h \<mapsto> head)\<rparr>, u_brk := h + unat (unr_mem_t_size uc)\<rparr> in
           res_bind (fold_res (reg_channel mem_addr mem_size h) (reg_targets uc) s) (\<lambda>s.
           Inr (URU_STATUS_OK, h, s))))"

section \<open>Exchanging the handles\<close>

text \<open>
  A handle as bytes: its head and the channels' parts. \<open>get_parts\<close> and \<open>put_parts\<close> read and write
  the parts of the handle at an address.
\<close>

definition pack_handle :: "(addr \<Rightarrow> ('z) uri_state_scheme \<Rightarrow> 'p) \<Rightarrow> 'z uri_state_scheme \<Rightarrow> addr \<Rightarrow> (unr_mem_t \<times> 'p) res" where
  "pack_handle get_parts u h =
     (case mems u h of None \<Rightarrow> Inl UseAfterFree | Some m \<Rightarrow> Inr (m, get_parts h u))"

fun pack_handles ::
  "(addr \<Rightarrow> ('z) uri_state_scheme \<Rightarrow> 'p) \<Rightarrow> 'z uri_state_scheme \<Rightarrow> addr list \<Rightarrow> (unr_mem_t \<times> 'p) list res" where
  "pack_handles get_parts u [] = Inr []"
| "pack_handles get_parts u (h # hs) =
     res_bind (pack_handle get_parts u h) (\<lambda>x. res_bind (pack_handles get_parts u hs) (\<lambda>xs. Inr (x # xs)))"

text \<open>\<open>displs\<close>: where the handles of rank \<open>r\<close> start in the receive buffer.\<close>

definition displs :: "'a list list \<Rightarrow> nat \<Rightarrow> nat" where
  "displs recv r = sum_list (map length (take r recv))"

text \<open>The received bytes land one handle after the other.\<close>

definition unpack_handle ::
  "(addr \<Rightarrow> 'p \<Rightarrow> ('z) uri_state_scheme \<Rightarrow> 'z uri_state_scheme) \<Rightarrow> addr \<times> unr_mem_t \<times> 'p \<Rightarrow>
   'z uri_state_scheme \<Rightarrow> 'z uri_state_scheme" where
  "unpack_handle put_parts x u = (case x of (h, m, p) \<Rightarrow> put_parts h p (u\<lparr>mems := (mems u)(h \<mapsto> m)\<rparr>))"

definition free_handles :: "addr list \<Rightarrow> ('z) uri_state_scheme \<Rightarrow> 'z uri_state_scheme" where
  "free_handles hs u = u\<lparr>mems := (\<lambda>p. if p \<in> set hs then None else mems u p)\<rparr>"

text \<open>
  \<open>allgatherv\<close>: what \<open>MPI_Allgather\<close> (the counts) and \<open>MPI_Allgatherv\<close> (the handles) deliver for the
  handles that this process sends, one list per rank. The displacements are C \<open>int\<close>s.
\<close>

definition unr_mem_reg_sync ::
  "(addr \<Rightarrow> ('z) uri_state_scheme \<Rightarrow> 'p) \<Rightarrow> (addr \<Rightarrow> 'p \<Rightarrow> 'z uri_state_scheme \<Rightarrow> 'z uri_state_scheme) \<Rightarrow>
   ((unr_mem_t \<times> 'p) list \<Rightarrow> (unr_mem_t \<times> 'p) list list) \<Rightarrow> ('z uri_state_scheme) unr_base_state \<Rightarrow>
   (uru_status_t \<times> ('z uri_state_scheme) unr_base_state) res" where
  "unr_mem_reg_sync get_parts put_parts allgatherv s =
     (case unr_channels s of
        None \<Rightarrow> Inl (Exit URU_ASSERT_EXIT)
      | Some uc \<Rightarrow>
          let u = free_handles (recv_buf s) (uri s) in
          res_bind (pack_handles get_parts u (loc_mem_arr uc)) (\<lambda>send.
          let recv = allgatherv send; n = nat (mpi_size (uru_mpi u)); total_count = displs recv n in
          if 2 ^ 31 \<le> total_count then Inl IntOverflow
          else
            let base = u_brk s;
                rmt = map (\<lambda>r. map (\<lambda>j. base + (displs recv r + j) * unat (unr_mem_t_size uc))
                  [0..<length (recv ! r)]) [0..<n] in
            Inr (URU_STATUS_OK,
              s\<lparr>uri := fold (unpack_handle put_parts) (zip (concat rmt) (concat (take n recv))) u,
                unr_channels := Some (uc\<lparr>rmt_mem_arr := rmt\<rparr>),
                recv_buf := concat rmt,
                u_brk := base + total_count * unat (unr_mem_t_size uc)\<rparr>)))"

section \<open>The targets are the channels in use\<close>

lemma zip_map_same: "zip (map f xs) (map g xs) = map (\<lambda>x. (f x, g x)) xs"
  by (induction xs) auto

lemma filter_map_fst: "map fst (filter (\<lambda>(x, r). P r) (map (\<lambda>x. (f x, g x)) xs)) = map f (filter (\<lambda>x. P (g x)) xs)"
  by (induction xs) auto

lemma reg_targets_avail:
  assumes "channels_ok s" "unr_channels s = Some uc"
  shows "reg_targets uc = map (\<lambda>c. (c, offset_of (registry s) c)) (avail_channels uc)"
proof -
  let ?o = "offset_of (registry s)"
  have e: "inter_uri_mem_h_offset uc = map ?o (inter_channels uc)" "intra_uri_mem_h_offset uc = map ?o (intra_channels uc)"
      "intra_channel_reuse uc = map (intra_reuse (inter_channels uc)) (intra_channels uc)"
      "avail_channels uc = combine_channels (inter_channels uc) (intra_channels uc)"
    using assms by (simp_all add: channels_ok_def)
  have z: "zip xs (map f xs) = map (\<lambda>x. (x, f x)) xs" for xs :: "nat list" and f :: "nat \<Rightarrow> 'b"
    using zip_map_same [of "\<lambda>x. x" xs f] by simp
  have "zip (map (\<lambda>c. (c, ?o c)) (intra_channels uc)) (map (intra_reuse (inter_channels uc)) (intra_channels uc)) =
      map (\<lambda>c. ((c, ?o c), intra_reuse (inter_channels uc) c)) (intra_channels uc)"
    by (rule zip_map_same)
  then have "map fst (filter (\<lambda>((c, off), reuse). reuse = None)
       (zip (zip (intra_channels uc) (intra_uri_mem_h_offset uc)) (intra_channel_reuse uc))) =
     map (\<lambda>c. (c, ?o c)) (filter (\<lambda>c. intra_reuse (inter_channels uc) c = None) (intra_channels uc))"
    using filter_map_fst [of "\<lambda>r. r = None" "\<lambda>c. (c, ?o c)" "intra_reuse (inter_channels uc)" "intra_channels uc"]
    by (simp add: e(2,3) z case_prod_unfold)
  then show ?thesis
    unfolding reg_targets_def e(4) combine_channels_def by (simp add: e(1) z)
qed

end
