(* ===== verification/Unr_Blk.thy ===== *)
theory Unr_Blk
  imports Unr_Mem Unr_Stripe_Sig
begin

text \<open>
  Blocks and transfers, \<open>src/unr/base/unr_blk.c\<close>: registering a block, creating a plan (at once, or
  later where the handles have not been exchanged yet), starting and destroying it, and the eight
  calls that create one.
\<close>

section \<open>Blocks\<close>

definition is_signal :: "unr_sig_t \<Rightarrow> bool" where
  "is_signal sg \<longleftrightarrow> sig_dst_rank sg \<noteq> UNR_NO_SIGNAL_DST_RANK"

text \<open>The flag of a signal that must be local.\<close>

definition local_flag :: "uru_mpi_t \<Rightarrow> unr_sig_t \<Rightarrow> addr res" where
  "local_flag mpi sg = (if is_signal sg then uru_assert (mpi_rank mpi = sig_dst_rank sg) (Inr (sig_flag_p sg)) else Inr 0)"

definition unr_blk_reg ::
  "addr \<Rightarrow> u64 \<Rightarrow> u64 \<Rightarrow> unr_sig_t \<Rightarrow> unr_sig_t \<Rightarrow> (('z) uri_state_scheme) unr_base_state \<Rightarrow> (uru_status_t \<times> unr_blk_t) res" where
  "unr_blk_reg mem_h offset sz send_sig_h recv_sig_h s =
     uru_assert (unr_channels s \<noteq> None)
     (uru_assert (sz > 0)
       (case mems (uri s) mem_h of
          None \<Rightarrow> Inl NullDeref
        | Some m \<Rightarrow>
            res_bind (local_flag (uru_mpi (uri s)) send_sig_h) (\<lambda>send_flag.
            res_bind (local_flag (uru_mpi (uri s)) recv_sig_h) (\<lambda>recv_flag.
            Inr (URU_STATUS_OK,
              \<lparr>blk_dst_rank = mpi_rank (uru_mpi (uri s)), blk_mem_idx = m_idx m, blk_offset = offset, blk_size = sz,
               blk_send_flag_p = send_flag, blk_recv_flag_p = recv_flag\<rparr>)))))"

section \<open>The parameters of a plan\<close>

text \<open>An optional array with at least \<open>n\<close> entries, and its entry \<open>i\<close>.\<close>

definition arr_fits :: "nat \<Rightarrow> 'a list option \<Rightarrow> bool" where
  "arr_fits n a \<longleftrightarrow> (case a of None \<Rightarrow> True | Some xs \<Rightarrow> n \<le> length xs)"

definition type_arr :: "nat \<Rightarrow> uru_transfer_arr \<Rightarrow> uru_transfer_t list" where
  "type_arr n a = (case a of
       URU_TRANSFER_TYPE_DMA_PUT_ALL \<Rightarrow> replicate n URU_TRANSFER_TYPE_DMA_PUT
     | URU_TRANSFER_TYPE_DMA_GET_ALL \<Rightarrow> replicate n URU_TRANSFER_TYPE_DMA_GET
     | Transfer_arr ts \<Rightarrow> ts)"

text \<open>\<open>size_arr\<close>: where it is null the sizes are those of the blocks, which must agree.\<close>

definition plan_sizes :: "unr_plan_create_para_t \<Rightarrow> u64 list res" where
  "plan_sizes p = (case size_arr p of
       Some xs \<Rightarrow> Inr xs
     | None \<Rightarrow>
         uru_assert (list_all (\<lambda>i. blk_size (loc_blk_arr p ! i) = blk_size (rmt_blk_arr p ! i)) [0..<num_sends p])
           (Inr (map (\<lambda>i. blk_size (loc_blk_arr p ! i)) [0..<num_sends p])))"

text \<open>The arrays of a call have \<open>num_sends\<close> entries; a shorter one is read past its end.\<close>

definition arrays_fit :: "unr_plan_create_para_t \<Rightarrow> bool" where
  "arrays_fit p \<longleftrightarrow> num_sends p \<le> length (loc_blk_arr p) \<and> num_sends p \<le> length (rmt_blk_arr p) \<and>
     arr_fits (num_sends p) (loc_sig_arr p) \<and> arr_fits (num_sends p) (rmt_sig_arr p) \<and>
     arr_fits (num_sends p) (loc_offset_arr p) \<and> arr_fits (num_sends p) (rmt_offset_arr p) \<and>
     arr_fits (num_sends p) (size_arr p) \<and> num_sends p \<le> length (type_arr (num_sends p) (dma_type_arr p))"

text \<open>Whether the handles of the remote blocks have been exchanged.\<close>

fun mem_synced :: "unr_channels_t \<Rightarrow> unr_blk_t list \<Rightarrow> bool res" where
  "mem_synced uc [] = Inr True"
| "mem_synced uc (b # bs) =
     (if blk_dst_rank b < 0 \<or> length (rmt_mem_arr uc) \<le> nat (blk_dst_rank b) then Inl OutOfBounds
      else if int (length (rmt_mem_arr uc ! nat (blk_dst_rank b))) \<le> blk_mem_idx b then Inr False
      else mem_synced uc bs)"

section \<open>One transfer\<close>

text \<open>The tables of the class of channels that reach a process: those of its own node, or the others.\<close>

definition node_channels :: "unr_channels_t \<Rightarrow> bool \<Rightarrow> nat list" where
  "node_channels uc same = (if same then intra_channels uc else inter_channels uc)"

definition node_offsets :: "unr_channels_t \<Rightarrow> bool \<Rightarrow> u64 list" where
  "node_offsets uc same = (if same then intra_uri_mem_h_offset uc else inter_uri_mem_h_offset uc)"

definition node_blk :: "unr_channels_t \<Rightarrow> bool \<Rightarrow> u64 list" where
  "node_blk uc same = (if same then intra_channel_blk_size uc else inter_channel_blk_size uc)"

definition node_blk_sum :: "unr_channels_t \<Rightarrow> bool \<Rightarrow> u64" where
  "node_blk_sum uc same = (if same then intra_channel_blk_size_sum uc else inter_channel_blk_size_sum uc)"

text \<open>
  The tests on transfer \<open>i\<close>: the ranks, the handles of both sides, and whether the target is on the
  node of this process.
\<close>

definition send_handles ::
  "unr_channels_t \<Rightarrow> uru_mpi_t \<Rightarrow> unr_blk_t \<Rightarrow> unr_blk_t \<Rightarrow> (addr \<times> addr \<times> bool) res" where
  "send_handles uc mpi lb rb =
     (let r = blk_dst_rank rb in
      uru_assert (blk_dst_rank lb = mpi_rank mpi)
      (uru_assert (r < mpi_size mpi)
      (uru_assert (blk_mem_idx lb < int (length (loc_mem_arr uc)))
      (if r < 0 \<or> length (rmt_mem_arr uc) \<le> nat r \<or> length (same_node mpi) \<le> nat r then Inl OutOfBounds
       else if int (length (rmt_mem_arr uc ! nat r)) \<le> blk_mem_idx rb then Inl (Exit URU_ERROR_EXIT)
       else if blk_mem_idx lb < 0 \<or> blk_mem_idx rb < 0 then Inl OutOfBounds
       else Inr (loc_mem_arr uc ! nat (blk_mem_idx lb), rmt_mem_arr uc ! nat r ! nat (blk_mem_idx rb), same_node mpi ! nat r)))))"

text \<open>The flag of one side: the signal of the call, or else the one bound to the block.\<close>

definition send_flag :: "int \<Rightarrow> unr_sig_t option \<Rightarrow> addr \<Rightarrow> addr res" where
  "send_flag owner sg bound = (case sg of
       Some sg \<Rightarrow> if is_signal sg then uru_assert (sig_dst_rank sg = owner) (Inr (sig_flag_p sg)) else Inr bound
     | None \<Rightarrow> Inr bound)"

definition offset_at :: "u64 list option \<Rightarrow> nat \<Rightarrow> u64" where
  "offset_at a i = (case a of None \<Rightarrow> 0 | Some xs \<Rightarrow> xs ! i)"

text \<open>The part of transfer \<open>i\<close> that channel \<open>j\<close> of the class carries.\<close>

definition stripe_wrt ::
  "unr_plan_create_para_t \<Rightarrow> nat \<Rightarrow> addr \<times> addr \<Rightarrow> u64 list \<Rightarrow> addr \<times> addr \<Rightarrow> u64 list \<Rightarrow> nat \<Rightarrow> uri_wrt" where
  "stripe_wrt p i hs offs fs sizes j = (case (hs, fs) of ((loc_h, rmt_h), (loc_flag, rmt_flag)) \<Rightarrow>
     \<lparr>loc_mem = loc_h + unat (offs ! j),
      loc_offset = blk_offset (loc_blk_arr p ! i) + offset_at (loc_offset_arr p) i + div_plan_wrt_offset sizes ! j,
      loc_flag_p = loc_flag, loc_flag_add = sig_add_arr sizes ! j, dma_size = sizes ! j,
      rmt_mem = rmt_h + unat (offs ! j),
      rmt_offset = blk_offset (rmt_blk_arr p ! i) + offset_at (rmt_offset_arr p) i + div_plan_wrt_offset sizes ! j,
      rmt_flag_p = rmt_flag, rmt_flag_add = sig_add_arr sizes ! j\<rparr>)"

text \<open>
  The body of the main loop for a transfer of size \<open>sz\<close>, which is not zero. \<open>nx\<close> are the positions
  from which the remainders go round, for the other nodes and for the own node. The result lists the
  parts with the number of their plan: the inter-node channels come first, then the intra-node ones.
\<close>

definition plan_send ::
  "unr_channels_t \<Rightarrow> uru_mpi_t \<Rightarrow> unr_plan_create_para_t \<Rightarrow> u64 \<Rightarrow> nat \<Rightarrow> nat \<times> nat \<Rightarrow>
   ((nat \<times> uru_transfer_t \<times> uri_wrt) list \<times> nat \<times> nat) res" where
  "plan_send uc mpi p sz i nx =
     (let lb = loc_blk_arr p ! i; rb = rmt_blk_arr p ! i; t = type_arr (num_sends p) (dma_type_arr p) ! i in
      res_bind (send_handles uc mpi lb rb) (\<lambda>(loc_h, rmt_h, same).
      if node_blk_sum uc same = 0 then Inl DivByZero
      else case div_plan_wrt_size sz (node_blk uc same) (node_blk_sum uc same) (if same then snd nx else fst nx) of
        None \<Rightarrow> Inl NoReturn
      | Some (sizes, next') \<Rightarrow>
          uru_assert (sum_list sizes = sz)
          (res_bind (send_flag (mpi_rank mpi) (map_option (\<lambda>xs. xs ! i) (loc_sig_arr p))
             (if t = URU_TRANSFER_TYPE_DMA_PUT then blk_send_flag_p lb else blk_recv_flag_p lb)) (\<lambda>loc_flag.
           res_bind (send_flag (blk_dst_rank rb) (map_option (\<lambda>xs. xs ! i) (rmt_sig_arr p))
             (if t = URU_TRANSFER_TYPE_DMA_PUT then blk_recv_flag_p rb else blk_send_flag_p rb)) (\<lambda>rmt_flag.
           Inr (map (\<lambda>j. (if same then j + length (inter_channels uc) else j, t,
                  stripe_wrt p i (loc_h, rmt_h) (node_offsets uc same) (loc_flag, rmt_flag) sizes j))
                (filter (\<lambda>j. sizes ! j \<noteq> 0) [0..<length (node_channels uc same)]),
              if same then (fst nx, next') else (next', snd nx)))))))"

text \<open>The arrays of every plan have room for \<open>num_sends\<close> parts.\<close>

definition put_wrt ::
  "nat \<Rightarrow> nat \<times> uru_transfer_t \<times> uri_wrt \<Rightarrow> (uru_transfer_t \<times> uri_wrt) list list \<Rightarrow> (uru_transfer_t \<times> uri_wrt) list list res" where
  "put_wrt n x wrts = (case x of (k, w) \<Rightarrow>
     if length wrts \<le> k \<or> n \<le> length (wrts ! k) then Inl OutOfBounds
     else Inr (wrts[k := wrts ! k @ [w]]))"

definition plan_step ::
  "unr_channels_t \<Rightarrow> uru_mpi_t \<Rightarrow> unr_plan_create_para_t \<Rightarrow> u64 list \<Rightarrow> nat \<Rightarrow>
   (uru_transfer_t \<times> uri_wrt) list list \<times> nat \<times> nat \<Rightarrow> ((uru_transfer_t \<times> uri_wrt) list list \<times> nat \<times> nat) res" where
  "plan_step uc mpi p sizes i st = (case st of (wrts, nx) \<Rightarrow>
     if sizes ! i = 0 then Inr (wrts, nx)
     else res_bind (plan_send uc mpi p (sizes ! i) i nx) (\<lambda>(ws, nx).
       res_bind (fold_res (put_wrt (num_sends p)) ws wrts) (\<lambda>wrts. Inr (wrts, nx))))"

text \<open>\<open>num_uri_plan\<close> has eight bits.\<close>

definition plan_count :: "unr_channels_t \<Rightarrow> nat" where
  "plan_count uc = (length (inter_channels uc) + length (intra_channels uc)) mod 256"

definition plan_wrts ::
  "unr_channels_t \<Rightarrow> uru_mpi_t \<Rightarrow> unr_plan_create_para_t \<Rightarrow> (uru_transfer_t \<times> uri_wrt) list list res" where
  "plan_wrts uc mpi p =
     uru_assert (0 < num_sends p)
     (res_bind (plan_sizes p) (\<lambda>sizes.
      res_bind (fold_res (plan_step uc mpi p sizes) [0..<num_sends p] (replicate (plan_count uc) [], 0, 0)) (\<lambda>(wrts, _).
      Inr wrts)))"

section \<open>The plans of the channels\<close>

text \<open>The channel of plan \<open>k\<close> and the creation of its part of the plan, if it has any writes.\<close>

definition plan_channel :: "unr_channels_t \<Rightarrow> nat \<Rightarrow> nat" where
  "plan_channel uc k =
     (if k < length (inter_channels uc) then inter_channels uc ! k
      else intra_channels uc ! (k - length (inter_channels uc)))"

definition create_uri_plan ::
  "unr_channels_t \<Rightarrow> bool \<Rightarrow> nat \<Rightarrow> (uru_transfer_t \<times> uri_wrt) list \<Rightarrow> 's unr_base_state \<Rightarrow>
   (addr \<times> nat option \<times> 's unr_base_state) res" where
  "create_uri_plan uc once k ws s =
     (if ws = [] then Inr (0, None, s)
      else res_bind (uri_rdma_plan_create (registry s ! plan_channel uc k) once (Some (map fst ws)) (map snd ws) (uri s))
        (\<lambda>(pl, u). Inr (pl, Some (plan_channel uc k), s\<lparr>uri := u\<rparr>)))"

fun create_uri_plans ::
  "unr_channels_t \<Rightarrow> bool \<Rightarrow> nat \<Rightarrow> (uru_transfer_t \<times> uri_wrt) list list \<Rightarrow> 's unr_base_state \<Rightarrow>
   (addr list \<times> nat option list \<times> 's unr_base_state) res" where
  "create_uri_plans uc once k [] s = Inr ([], [], s)"
| "create_uri_plans uc once k (ws # wss) s =
     res_bind (create_uri_plan uc once k ws s) (\<lambda>(pl, ch, s).
     res_bind (create_uri_plans uc once (k + 1) wss s) (\<lambda>(pls, chs, s). Inr (pl # pls, ch # chs, s)))"

text \<open>
  The part of \<open>unr_rdma_plan_create\<close> that both ways share (from line 243): the complete plan. The
  parameters that a deferred plan kept are freed; the pointer to them is not read again.
\<close>

definition build_plan ::
  "unr_plan_create_para_t \<Rightarrow> (('z) uri_state_scheme) unr_base_state \<Rightarrow> (unr_plan_t \<times> ('z uri_state_scheme) unr_base_state) res" where
  "build_plan p s = (case unr_channels s of
       None \<Rightarrow> Inl NullDeref
     | Some uc \<Rightarrow>
         res_bind (plan_wrts uc (uru_mpi (uri s)) p) (\<lambda>wrts.
         res_bind (create_uri_plans uc (once_now p) 0 wrts s) (\<lambda>(pls, chs, s).
         Inr (\<lparr>plan_status = 2, num_uri_plan = plan_count uc, uri_plan_h_arr = pls, uri_channel_h_arr = chs, para = None\<rparr>, s))))"

text \<open>
  A plan that is used once is freed, and after that its field \<open>para\<close> is read. \<open>para_kept\<close>: the freed
  memory still holds the null pointer; otherwise the run is undefined.
\<close>

definition finish_plan ::
  "bool \<Rightarrow> unr_plan_create_para_t \<Rightarrow> addr \<Rightarrow> unr_plan_t \<times> 's unr_base_state \<Rightarrow> 's unr_base_state res" where
  "finish_plan para_kept p a r = (case r of (pl, s) \<Rightarrow>
     if once_now p then
       (if para_kept then Inr (s\<lparr>plans := (plans s)(a := None)\<rparr>) else Inl UseAfterFree)
     else Inr (s\<lparr>plans := (plans s)(a \<mapsto> pl)\<rparr>))"

text \<open>\<open>unr_rdma_plan_create\<close> with \<open>create_later\<close> set: the plan at \<open>a\<close> was deferred.\<close>

definition create_deferred ::
  "bool \<Rightarrow> addr \<Rightarrow> (('z) uri_state_scheme) unr_base_state \<Rightarrow> ('z uri_state_scheme) unr_base_state res" where
  "create_deferred para_kept a s = (case plans s a of
       None \<Rightarrow> Inl UseAfterFree
     | Some pl \<Rightarrow> (case para pl of
         None \<Rightarrow> Inl NullDeref
       | Some p \<Rightarrow> res_bind (build_plan p s) (finish_plan para_kept p a)))"

text \<open>
  \<open>unr_rdma_plan_create\<close> with \<open>create_later\<close> not set. The address that is returned is that of the plan;
  where the plan is used once, the caller's pointer is set to null.
\<close>

definition unr_rdma_plan_create ::
  "bool \<Rightarrow> unr_plan_create_para_t \<Rightarrow> (('z) uri_state_scheme) unr_base_state \<Rightarrow>
   (addr \<times> ('z uri_state_scheme) unr_base_state) res" where
  "unr_rdma_plan_create para_kept p s =
     (case unr_channels s of
        None \<Rightarrow> Inl NullDeref
      | Some uc \<Rightarrow>
          if \<not> arrays_fit p then Inl OutOfBounds
          else
            let a = u_brk s; s = s\<lparr>u_brk := u_brk s + 1\<rparr> in
            res_bind (mem_synced uc (take (num_sends p) (rmt_blk_arr p))) (\<lambda>synced.
            if \<not> synced then
              (if once_now p then Inl (Exit URU_ERROR_EXIT)
               else uru_assert (0 < num_sends p)
                 (Inr (a, s\<lparr>plans := (plans s)(a \<mapsto> \<lparr>plan_status = 1, num_uri_plan = 0, uri_plan_h_arr = [],
                    uri_channel_h_arr = [], para = Some p\<rparr>)\<rparr>)))
            else
              res_bind (build_plan p s) (\<lambda>r.
              res_bind (finish_plan para_kept p a r) (\<lambda>s. Inr (if once_now p then 0 else a, s)))))"

section \<open>Starting and destroying\<close>

definition start_uri_plan :: "addr \<times> nat option \<Rightarrow> 's unr_base_state \<Rightarrow> 's unr_base_state res" where
  "start_uri_plan pc s = (case pc of (pl, ch) \<Rightarrow>
     if pl = 0 then Inr s
     else case ch of
       None \<Rightarrow> Inl (Exit URU_ASSERT_EXIT)
     | Some c \<Rightarrow> res_bind (uri_rdma_plan_start (registry s ! c) pl (uri s)) (\<lambda>(_, u). Inr (s\<lparr>uri := u\<rparr>)))"

definition destroy_uri_plan :: "addr \<times> nat option \<Rightarrow> 's unr_base_state \<Rightarrow> 's unr_base_state res" where
  "destroy_uri_plan pc s = (case pc of (pl, ch) \<Rightarrow>
     if pl = 0 then Inr s
     else case ch of
       None \<Rightarrow> Inl (Exit URU_ASSERT_EXIT)
     | Some c \<Rightarrow> res_bind (uri_rdma_plan_destroy (registry s ! c) pl (uri s)) (\<lambda>(_, u). Inr (s\<lparr>uri := u\<rparr>)))"

definition unr_plan_start ::
  "bool \<Rightarrow> addr \<Rightarrow> (('z) uri_state_scheme) unr_base_state \<Rightarrow> (uru_status_t \<times> ('z uri_state_scheme) unr_base_state) res" where
  "unr_plan_start para_kept plan_h s =
     uru_assert (unr_channels s \<noteq> None)
     (uru_assert (plan_h \<noteq> 0)
      (case plans s plan_h of
         None \<Rightarrow> Inl UseAfterFree
       | Some pl \<Rightarrow>
           res_bind (if plan_status pl \<noteq> 2 then uru_assert (plan_status pl = 1) (create_deferred para_kept plan_h s) else Inr s)
             (\<lambda>s. case plans s plan_h of
                None \<Rightarrow> Inl NullDeref
              | Some pl \<Rightarrow>
                  res_bind (fold_res start_uri_plan (zip (uri_plan_h_arr pl) (uri_channel_h_arr pl)) s)
                    (\<lambda>s. Inr (URU_STATUS_OK, s)))))"

text \<open>A deferred plan that was never started has no channel plans; its parameters are not freed.\<close>

definition unr_plan_destroy ::
  "addr \<Rightarrow> 's unr_base_state \<Rightarrow> (uru_status_t \<times> 's unr_base_state) res" where
  "unr_plan_destroy plan_h s =
     uru_assert (unr_channels s \<noteq> None)
     (if plan_h = 0 then Inl NullDeref
      else case plans s plan_h of
        None \<Rightarrow> Inl UseAfterFree
      | Some pl \<Rightarrow>
          res_bind (fold_res destroy_uri_plan (zip (uri_plan_h_arr pl) (uri_channel_h_arr pl)) s) (\<lambda>s.
          Inr (URU_STATUS_OK, s\<lparr>plans := (plans s)(plan_h := None)\<rparr>)))"

section \<open>The calls that create a plan\<close>

text \<open>\<open>need_current_load\<close> is passed on and never used.\<close>

definition start_now ::
  "bool \<Rightarrow> unr_plan_create_para_t \<Rightarrow> (('z) uri_state_scheme) unr_base_state \<Rightarrow> (uru_status_t \<times> ('z uri_state_scheme) unr_base_state) res" where
  "start_now para_kept p s =
     uru_assert (unr_channels s \<noteq> None) (res_bind (unr_rdma_plan_create para_kept p s) (\<lambda>(_, s). Inr (URU_STATUS_OK, s)))"

definition make_plan ::
  "unr_plan_create_para_t \<Rightarrow> (('z) uri_state_scheme) unr_base_state \<Rightarrow>
   (uru_status_t \<times> addr \<times> ('z uri_state_scheme) unr_base_state) res" where
  "make_plan p s =
     uru_assert (unr_channels s \<noteq> None) (res_bind (unr_rdma_plan_create True p s) (\<lambda>(a, s). Inr (URU_STATUS_OK, a, s)))"

definition unr_blk_rdma_start ::
  "bool \<Rightarrow> unr_blk_t \<Rightarrow> unr_sig_t \<Rightarrow> unr_blk_t \<Rightarrow> unr_sig_t \<Rightarrow> uru_transfer_t \<Rightarrow>
   (('z) uri_state_scheme) unr_base_state \<Rightarrow> (uru_status_t \<times> ('z uri_state_scheme) unr_base_state) res" where
  "unr_blk_rdma_start para_kept loc_blk loc_sig rmt_blk rmt_sig dma_type = start_now para_kept
     \<lparr>need_current_load = True, once_now = True, num_sends = 1,
      loc_blk_arr = [loc_blk], loc_sig_arr = Some [loc_sig], loc_offset_arr = None, size_arr = None,
      rmt_blk_arr = [rmt_blk], rmt_sig_arr = Some [rmt_sig], rmt_offset_arr = None, dma_type_arr = Transfer_arr [dma_type]\<rparr>"

definition unr_blk_rdma_plan ::
  "unr_blk_t \<Rightarrow> unr_sig_t \<Rightarrow> unr_blk_t \<Rightarrow> unr_sig_t \<Rightarrow> uru_transfer_t \<Rightarrow>
   (('z) uri_state_scheme) unr_base_state \<Rightarrow> (uru_status_t \<times> addr \<times> ('z uri_state_scheme) unr_base_state) res" where
  "unr_blk_rdma_plan loc_blk loc_sig rmt_blk rmt_sig dma_type = make_plan
     \<lparr>need_current_load = False, once_now = False, num_sends = 1,
      loc_blk_arr = [loc_blk], loc_sig_arr = Some [loc_sig], loc_offset_arr = None, size_arr = None,
      rmt_blk_arr = [rmt_blk], rmt_sig_arr = Some [rmt_sig], rmt_offset_arr = None, dma_type_arr = Transfer_arr [dma_type]\<rparr>"

definition unr_blk_part_rdma_start ::
  "bool \<Rightarrow> unr_blk_t \<Rightarrow> unr_sig_t \<Rightarrow> u64 \<Rightarrow> u64 \<Rightarrow> unr_blk_t \<Rightarrow> unr_sig_t \<Rightarrow> u64 \<Rightarrow> uru_transfer_t \<Rightarrow>
   (('z) uri_state_scheme) unr_base_state \<Rightarrow> (uru_status_t \<times> ('z uri_state_scheme) unr_base_state) res" where
  "unr_blk_part_rdma_start para_kept loc_blk loc_sig loc_off sz rmt_blk rmt_sig rmt_off dma_type = start_now para_kept
     \<lparr>need_current_load = True, once_now = True, num_sends = 1,
      loc_blk_arr = [loc_blk], loc_sig_arr = Some [loc_sig], loc_offset_arr = Some [loc_off], size_arr = Some [sz],
      rmt_blk_arr = [rmt_blk], rmt_sig_arr = Some [rmt_sig], rmt_offset_arr = Some [rmt_off],
      dma_type_arr = Transfer_arr [dma_type]\<rparr>"

definition unr_blk_part_rdma_plan ::
  "unr_blk_t \<Rightarrow> unr_sig_t \<Rightarrow> u64 \<Rightarrow> u64 \<Rightarrow> unr_blk_t \<Rightarrow> unr_sig_t \<Rightarrow> u64 \<Rightarrow> uru_transfer_t \<Rightarrow>
   (('z) uri_state_scheme) unr_base_state \<Rightarrow> (uru_status_t \<times> addr \<times> ('z uri_state_scheme) unr_base_state) res" where
  "unr_blk_part_rdma_plan loc_blk loc_sig loc_off sz rmt_blk rmt_sig rmt_off dma_type = make_plan
     \<lparr>need_current_load = False, once_now = False, num_sends = 1,
      loc_blk_arr = [loc_blk], loc_sig_arr = Some [loc_sig], loc_offset_arr = Some [loc_off], size_arr = Some [sz],
      rmt_blk_arr = [rmt_blk], rmt_sig_arr = Some [rmt_sig], rmt_offset_arr = Some [rmt_off],
      dma_type_arr = Transfer_arr [dma_type]\<rparr>"

definition unr_blk_rdma_batch_start ::
  "bool \<Rightarrow> nat \<Rightarrow> unr_blk_t list \<Rightarrow> unr_sig_t list option \<Rightarrow> unr_blk_t list \<Rightarrow> unr_sig_t list option \<Rightarrow> uru_transfer_arr \<Rightarrow>
   (('z) uri_state_scheme) unr_base_state \<Rightarrow> (uru_status_t \<times> ('z uri_state_scheme) unr_base_state) res" where
  "unr_blk_rdma_batch_start para_kept n loc_blks loc_sigs rmt_blks rmt_sigs dma_types = start_now para_kept
     \<lparr>need_current_load = True, once_now = True, num_sends = n,
      loc_blk_arr = loc_blks, loc_sig_arr = loc_sigs, loc_offset_arr = None, size_arr = None,
      rmt_blk_arr = rmt_blks, rmt_sig_arr = rmt_sigs, rmt_offset_arr = None, dma_type_arr = dma_types\<rparr>"

definition unr_blk_rdma_batch_plan ::
  "nat \<Rightarrow> unr_blk_t list \<Rightarrow> unr_sig_t list option \<Rightarrow> unr_blk_t list \<Rightarrow> unr_sig_t list option \<Rightarrow> uru_transfer_arr \<Rightarrow>
   (('z) uri_state_scheme) unr_base_state \<Rightarrow> (uru_status_t \<times> addr \<times> ('z uri_state_scheme) unr_base_state) res" where
  "unr_blk_rdma_batch_plan n loc_blks loc_sigs rmt_blks rmt_sigs dma_types = make_plan
     \<lparr>need_current_load = True, once_now = False, num_sends = n,
      loc_blk_arr = loc_blks, loc_sig_arr = loc_sigs, loc_offset_arr = None, size_arr = None,
      rmt_blk_arr = rmt_blks, rmt_sig_arr = rmt_sigs, rmt_offset_arr = None, dma_type_arr = dma_types\<rparr>"

definition unr_blk_part_rdma_batch_start ::
  "bool \<Rightarrow> nat \<Rightarrow> unr_blk_t list \<Rightarrow> unr_sig_t list option \<Rightarrow> u64 list option \<Rightarrow> u64 list option \<Rightarrow>
   unr_blk_t list \<Rightarrow> unr_sig_t list option \<Rightarrow> u64 list option \<Rightarrow> uru_transfer_arr \<Rightarrow>
   (('z) uri_state_scheme) unr_base_state \<Rightarrow> (uru_status_t \<times> ('z uri_state_scheme) unr_base_state) res" where
  "unr_blk_part_rdma_batch_start para_kept n loc_blks loc_sigs loc_offsets sizes rmt_blks rmt_sigs rmt_offsets dma_types =
     start_now para_kept
     \<lparr>need_current_load = True, once_now = True, num_sends = n,
      loc_blk_arr = loc_blks, loc_sig_arr = loc_sigs, loc_offset_arr = loc_offsets, size_arr = sizes,
      rmt_blk_arr = rmt_blks, rmt_sig_arr = rmt_sigs, rmt_offset_arr = rmt_offsets, dma_type_arr = dma_types\<rparr>"

definition unr_blk_part_rdma_batch_plan ::
  "nat \<Rightarrow> unr_blk_t list \<Rightarrow> unr_sig_t list option \<Rightarrow> u64 list option \<Rightarrow> u64 list option \<Rightarrow>
   unr_blk_t list \<Rightarrow> unr_sig_t list option \<Rightarrow> u64 list option \<Rightarrow> uru_transfer_arr \<Rightarrow>
   (('z) uri_state_scheme) unr_base_state \<Rightarrow> (uru_status_t \<times> addr \<times> ('z uri_state_scheme) unr_base_state) res" where
  "unr_blk_part_rdma_batch_plan n loc_blks loc_sigs loc_offsets sizes rmt_blks rmt_sigs rmt_offsets dma_types = make_plan
     \<lparr>need_current_load = True, once_now = False, num_sends = n,
      loc_blk_arr = loc_blks, loc_sig_arr = loc_sigs, loc_offset_arr = loc_offsets, size_arr = sizes,
      rmt_blk_arr = rmt_blks, rmt_sig_arr = rmt_sigs, rmt_offset_arr = rmt_offsets, dma_type_arr = dma_types\<rparr>"

end
