(* ===== verification/Unr_Mem_Props.thy ===== *)
theory Unr_Mem_Props
  imports Unr_Mem
begin

text \<open>
  What registration and exchange promise: every channel in use finds the memory of a handle from
  its own part of the handle, for local handles and for the copies of the handles of all ranks. The
  definitions are those of \<open>Unr_Mem\<close>; of the modules only the contract \<open>channel_module\<close> is used.
\<close>

section \<open>The invariant of the handles\<close>

definition modules_ok :: "('z uri_state_scheme) uri_channel list \<Rightarrow> bool" where
  "modules_ok reg \<longleftrightarrow> (\<forall>ch \<in> set reg. \<forall>fp. func_ptrs ch = Some fp \<longrightarrow> channel_module fp)"

text \<open>The heads lie apart by at least the size of a handle, and below the end of the heap.\<close>

definition spaced :: "nat \<Rightarrow> nat \<Rightarrow> mem_store \<Rightarrow> bool" where
  "spaced sz hi m \<longleftrightarrow> (\<forall>p. m p \<noteq> None \<longrightarrow> p + sz \<le> hi) \<and>
     (\<forall>p q. m p \<noteq> None \<and> m q \<noteq> None \<and> p < q \<longrightarrow> p + sz \<le> q)"

definition head_is :: "mem_store \<Rightarrow> addr \<Rightarrow> int \<Rightarrow> nat \<Rightarrow> bool" where
  "head_is m p r i \<longleftrightarrow> (\<exists>h. m p = Some h \<and> m_rank h = r \<and> m_idx h = int i)"

definition handles_ok :: "(('z) uri_state_scheme) unr_base_state \<Rightarrow> bool" where
  "handles_ok s \<longleftrightarrow> channels_ok s \<and> modules_ok (registry s) \<and> (case unr_channels s of None \<Rightarrow> False | Some uc \<Rightarrow>
     spaced (unat (unr_mem_t_size uc)) (u_brk s) (mems (uri s)) \<and>
     (\<forall>i < length (loc_mem_arr uc). head_is (mems (uri s)) (loc_mem_arr uc ! i) (mpi_rank (uru_mpi (uri s))) i) \<and>
     length (rmt_mem_arr uc) = nat (mpi_size (uru_mpi (uri s))) \<and>
     (\<forall>r < length (rmt_mem_arr uc). \<forall>j < length (rmt_mem_arr uc ! r).
       head_is (mems (uri s)) (rmt_mem_arr uc ! r ! j) (int r) j) \<and>
     set (recv_buf s) = set (concat (rmt_mem_arr uc)) \<and> set (recv_buf s) \<inter> set (loc_mem_arr uc) = {})"

lemma channels_ok_cong:
  assumes "channels_ok s" "unr_channels s = Some uc" "registry s' = registry s"
    and "unr_channels s' = Some (uc\<lparr>loc_mem_arr := la, rmt_mem_arr := ra\<rparr>)"
  shows "channels_ok s'"
  using assms(1) unfolding channels_ok_def assms(2,3,4) option.case
  by (elim conjE) simp

lemma channels_ok_parts:
  assumes "channels_ok s" "unr_channels s = Some uc"
  shows "parts (registry s) (avail_channels uc) (unat sizeof_unr_mem) (unat (unr_mem_t_size uc))"
  using assms(1) unfolding channels_ok_def assms(2) option.case by (elim conjE)

lemma modules_okD:
  "modules_ok reg \<Longrightarrow> c < length reg \<Longrightarrow> func_ptrs (reg ! c) = Some fp \<Longrightarrow> channel_module fp"
  by (auto simp: modules_ok_def)

lemma avail_in_registry: "channels_ok s \<Longrightarrow> unr_channels s = Some uc \<Longrightarrow> c \<in> set (avail_channels uc) \<Longrightarrow> c < length (registry s)"
proof -
  assume a: "channels_ok s" "unr_channels s = Some uc" "c \<in> set (avail_channels uc)"
  then obtain i where "i < length (avail_channels uc)" "avail_channels uc ! i = c" by (auto simp: in_set_conv_nth)
  then show ?thesis using parts_nth [OF channels_ok_parts [OF a(1,2)]] by blast
qed

lemma handle_size_pos: "channels_ok s \<Longrightarrow> unr_channels s = Some uc \<Longrightarrow> 24 \<le> unat (unr_mem_t_size uc)"
  using parts_mono [OF channels_ok_parts] by (fastforce simp: sizeof_unr_mem_def)

lemma handles_ok_channels: "handles_ok s \<Longrightarrow> \<exists>uc. unr_channels s = Some uc"
  by (auto simp: handles_ok_def split: option.splits)

lemma handles_okD:
  assumes "handles_ok s" "unr_channels s = Some uc"
  shows "channels_ok s" "modules_ok (registry s)"
    "spaced (unat (unr_mem_t_size uc)) (u_brk s) (mems (uri s))"
    "\<And>i. i < length (loc_mem_arr uc) \<Longrightarrow> head_is (mems (uri s)) (loc_mem_arr uc ! i) (mpi_rank (uru_mpi (uri s))) i"
    "length (rmt_mem_arr uc) = nat (mpi_size (uru_mpi (uri s)))"
    "\<And>r j. r < length (rmt_mem_arr uc) \<Longrightarrow> j < length (rmt_mem_arr uc ! r) \<Longrightarrow>
       head_is (mems (uri s)) (rmt_mem_arr uc ! r ! j) (int r) j"
    "set (recv_buf s) = set (concat (rmt_mem_arr uc))" "set (recv_buf s) \<inter> set (loc_mem_arr uc) = {}"
    "0 < unat (unr_mem_t_size uc)"
proof -
  show ok: "channels_ok s" using assms(1) by (simp add: handles_ok_def)
  from handle_size_pos [OF this assms(2)] show "0 < unat (unr_mem_t_size uc)" by linarith
qed (use assms(1) [unfolded handles_ok_def assms(2) option.case] in blast)+

section \<open>Registering\<close>

lemma reg_channel_env:
  assumes "reg_channel a n h co s = Inr s'" "modules_ok (registry s)" "fst co < length (registry s)"
  shows "same_env (uri s) (uri s') \<and> s' = s\<lparr>uri := uri s'\<rparr>"
proof -
  obtain c off where co: "co = (c, off)" by (cases co)
  obtain st u where u: "uri_mem_reg (registry s ! c) a n (h + unat off) (uri s) = Inr (st, u)" "s' = s\<lparr>uri := u\<rparr>"
    using assms(1) by (auto simp: reg_channel_def co)
  then obtain fp where fp: "func_ptrs (registry s ! c) = Some fp"
    by (auto simp: uri_mem_reg_def with_func_Inr)
  have "channel_module fp" using modules_okD [OF assms(2) _ fp] assms(3) by (simp add: co)
  from channel_module.uri_mem_reg_env [OF this fp u(1)] u(2) show ?thesis by simp
qed

lemma reg_channels_env:
  assumes "fold_res (reg_channel a n h) cos s = Inr s'" "modules_ok (registry s)"
    and "\<forall>co \<in> set cos. fst co < length (registry s)"
  shows "same_env (uri s) (uri s') \<and> s' = s\<lparr>uri := uri s'\<rparr>"
  using assms
proof (induction cos arbitrary: s)
  case (Cons co cos)
  then obtain s1 where 1: "reg_channel a n h co s = Inr s1" "fold_res (reg_channel a n h) cos s1 = Inr s'" by auto
  have e: "same_env (uri s) (uri s1)" "s1 = s\<lparr>uri := uri s1\<rparr>" using reg_channel_env [OF 1(1)] Cons.prems by auto
  then have "registry s1 = registry s" by (metis unr_base_state.select_convs(2) unr_base_state.surjective unr_base_state.update_convs(1))
  then have "same_env (uri s1) (uri s') \<and> s' = s1\<lparr>uri := uri s'\<rparr>" using Cons.IH [OF 1(2)] Cons.prems by simp
  then show ?case using e same_env_trans by (metis unr_base_state.surjective unr_base_state.update_convs(1))
qed simp

lemma mem_reg_steps:
  assumes "unr_mem_reg a n s = Inr (st, h, s')" "channels_ok s" "modules_ok (registry s)" "unr_channels s = Some uc"
  shows "n > 0 \<and> h = u_brk s \<and> (\<exists>u. s' = s\<lparr>unr_channels := Some (uc\<lparr>loc_mem_arr := loc_mem_arr uc @ [h]\<rparr>), uri := u,
      u_brk := h + unat (unr_mem_t_size uc)\<rparr> \<and> uru_mpi u = uru_mpi (uri s) \<and>
      mems u = (mems (uri s))(h \<mapsto> \<lparr>m_addr = a, m_size = n, m_rank = mpi_rank (uru_mpi (uri s)),
        m_idx = int (length (loc_mem_arr uc))\<rparr>))"
proof -
  let ?head = "\<lparr>m_addr = a, m_size = n, m_rank = mpi_rank (uru_mpi (uri s)), m_idx = int (length (loc_mem_arr uc))\<rparr>"
  let ?s = "s\<lparr>unr_channels := Some (uc\<lparr>loc_mem_arr := loc_mem_arr uc @ [u_brk s]\<rparr>),
    uri := (uri s)\<lparr>mems := (mems (uri s))(u_brk s \<mapsto> ?head)\<rparr>, u_brk := u_brk s + unat (unr_mem_t_size uc)\<rparr>"
  have 1: "n > 0" "h = u_brk s" "fold_res (reg_channel a n h) (reg_targets uc) ?s = Inr s'"
    using assms(1) by (auto simp: unr_mem_reg_def assms(4) Let_def)
  have "\<forall>co \<in> set (reg_targets uc). fst co < length (registry ?s)"
    using reg_targets_avail [OF assms(2,4)] avail_in_registry [OF assms(2,4)] by auto
  from reg_channels_env [OF 1(3) _ this] assms(3)
  obtain u where u: "same_env (uri ?s) u" "s' = ?s\<lparr>uri := u\<rparr>" by auto
  show ?thesis
  proof (intro conjI exI [of _ u])
    show "s' = s\<lparr>unr_channels := Some (uc\<lparr>loc_mem_arr := loc_mem_arr uc @ [h]\<rparr>), uri := u,
        u_brk := h + unat (unr_mem_t_size uc)\<rparr>"
      by (simp add: u(2) 1(2))
  qed (use u(1) 1(1,2) in \<open>simp_all add: same_env_def\<close>)
qed

lemma spaced_add:
  assumes "spaced sz hi m" "0 < sz"
  shows "spaced sz (hi + sz) (m(hi \<mapsto> x))"
proof -
  from assms have le: "m p \<noteq> None \<Longrightarrow> p + sz \<le> hi" and sp: "m p \<noteq> None \<Longrightarrow> m q \<noteq> None \<Longrightarrow> p < q \<Longrightarrow> p + sz \<le> q" for p q
    unfolding spaced_def by blast+
  show ?thesis unfolding spaced_def
  proof (intro conjI allI impI)
    fix p assume "(m(hi \<mapsto> x)) p \<noteq> None"
    then show "p + sz \<le> hi + sz" using le [of p] by (cases "p = hi") auto
  next
    fix p q assume b: "(m(hi \<mapsto> x)) p \<noteq> None \<and> (m(hi \<mapsto> x)) q \<noteq> None \<and> p < q"
    show "p + sz \<le> q"
    proof (cases "p = hi \<or> q = hi")
      case True
      then show ?thesis using b le [of p] le [of q] by auto
    next
      case False
      then show ?thesis using b sp [of p q] by simp
    qed
  qed
qed

lemma spaced_fresh: "spaced sz hi m \<Longrightarrow> 0 < sz \<Longrightarrow> m hi = None"
  by (fastforce simp: spaced_def)

lemma head_is_add: "head_is m p r i \<Longrightarrow> m q = None \<Longrightarrow> head_is (m(q \<mapsto> x)) p r i"
  by (auto simp: head_is_def)

lemma mem_reg_keeps:
  assumes "unr_mem_reg a n s = Inr (st, h, s')" "handles_ok s"
  shows "handles_ok s'"
proof -
  obtain uc where uc: "unr_channels s = Some uc" using handles_ok_channels [OF assms(2)] by blast
  note ok = handles_okD(1,2) [OF assms(2) uc] and sp = handles_okD(3) [OF assms(2) uc]
    and loc = handles_okD(4) [OF assms(2) uc] and len = handles_okD(5) [OF assms(2) uc]
    and rmt = handles_okD(6) [OF assms(2) uc] and rb = handles_okD(7,8) [OF assms(2) uc]
    and pos = handles_okD(9) [OF assms(2) uc]
  let ?head = "\<lparr>m_addr = a, m_size = n, m_rank = mpi_rank (uru_mpi (uri s)), m_idx = int (length (loc_mem_arr uc))\<rparr>"
  obtain u where u: "h = u_brk s" "s' = s\<lparr>unr_channels := Some (uc\<lparr>loc_mem_arr := loc_mem_arr uc @ [h]\<rparr>), uri := u,
      u_brk := h + unat (unr_mem_t_size uc)\<rparr>" "uru_mpi u = uru_mpi (uri s)" "mems u = (mems (uri s))(h \<mapsto> ?head)"
    using mem_reg_steps [OF assms(1) ok uc] by blast
  have fresh: "mems (uri s) h = None" unfolding u(1) by (rule spaced_fresh [OF sp pos])
  have keep: "head_is (mems (uri s)) p r i \<Longrightarrow> head_is ((mems (uri s))(h \<mapsto> x)) p r i" for p r i x
    using fresh by (rule head_is_add [rotated])
  have new: "h \<notin> set (recv_buf s)"
  proof
    assume "h \<in> set (recv_buf s)"
    then obtain r j where "r < length (rmt_mem_arr uc)" "j < length (rmt_mem_arr uc ! r)" "rmt_mem_arr uc ! r ! j = h"
      unfolding rb(1) by (auto simp: in_set_conv_nth)
    then show False using rmt fresh by (fastforce simp: head_is_def)
  qed
  have "channels_ok s'"
    by (rule channels_ok_cong [OF ok(1) uc, where la = "loc_mem_arr uc @ [h]" and ra = "rmt_mem_arr uc"])
      (simp_all add: u(2))
  moreover have "spaced (unat (unr_mem_t_size uc)) (u_brk s') (mems (uri s'))"
    using spaced_add [OF sp pos] by (simp add: u)
  moreover have "head_is (mems u) ((loc_mem_arr uc @ [h]) ! i) (mpi_rank (uru_mpi (uri s))) i"
    if "i < length (loc_mem_arr uc @ [h])" for i
  proof (cases "i < length (loc_mem_arr uc)")
    case True
    then show ?thesis using loc keep by (simp add: u(4) nth_append)
  next
    case False
    then have "i = length (loc_mem_arr uc)" using that by simp
    then show ?thesis by (simp add: u(4) head_is_def)
  qed
  moreover have "\<forall>r < length (rmt_mem_arr uc). \<forall>j < length (rmt_mem_arr uc ! r). head_is (mems u) (rmt_mem_arr uc ! r ! j) (int r) j"
    using rmt keep by (simp add: u(4))
  ultimately show ?thesis using ok(2) len rb new unfolding handles_ok_def by (simp add: u(2,3))
qed

section \<open>Exchanging\<close>

lemma displs_Suc: "n < length recv \<Longrightarrow> displs recv (Suc n) = displs recv n + length (recv ! n)"
  by (simp add: displs_def take_Suc_conv_app_nth)

lemma displs_le: "r < length recv \<Longrightarrow> j < length (recv ! r) \<Longrightarrow> r < n \<Longrightarrow> n \<le> length recv \<Longrightarrow> displs recv r + j < displs recv n"
proof (induction n)
  case (Suc n)
  show ?case
  proof (cases "r = n")
    case True
    then show ?thesis using Suc.prems displs_Suc [of n recv] by simp
  next
    case False
    then show ?thesis using Suc displs_Suc [of n recv] by fastforce
  qed
qed simp

text \<open>The copies of all ranks lie one after the other.\<close>

lemma concat_displs:
  "n \<le> length recv \<Longrightarrow> concat (map (\<lambda>r. map (\<lambda>j. f (displs recv r + j)) [0..<length (recv ! r)]) [0..<n]) = map f [0..<displs recv n]"
proof (induction n)
  case (Suc n)
  have "map (\<lambda>j. f (d + j)) [0..<m] = map f [d..<d + m]" for d m
    by (induction m) simp_all
  then show ?case using Suc displs_Suc [of n recv]
    by (simp add: upt_add_eq_append [of 0 "displs recv n", simplified])
qed (simp add: displs_def)

lemma nth_concat_displs:
  "r < length recv \<Longrightarrow> j < length (recv ! r) \<Longrightarrow> concat recv ! (displs recv r + j) = recv ! r ! j"
proof (induction recv arbitrary: r)
  case (Cons xs recv)
  then show ?case
  proof (cases r)
    case (Suc k)
    then have "displs (xs # recv) r + j = length xs + (displs recv k + j)" by (simp add: displs_def)
    then show ?thesis using Cons Suc by (simp add: nth_append)
  qed (simp add: displs_def nth_append)
qed simp

lemma length_concat_displs: "length (concat recv) = displs recv (length recv)"
  by (simp add: displs_def length_concat)

lemma unpack_all:
  assumes "length hs = length xs" "distinct hs" "\<And>h p u. same_env u (put_parts h p u)"
  shows "uru_mpi (fold (unpack_handle put_parts) (zip hs xs) u) = uru_mpi u \<and>
    (\<forall>q. q \<notin> set hs \<longrightarrow> mems (fold (unpack_handle put_parts) (zip hs xs) u) q = mems u q) \<and>
    (\<forall>k < length hs. mems (fold (unpack_handle put_parts) (zip hs xs) u) (hs ! k) = Some (fst (xs ! k)))"
  using assms(1,2)
proof (induction hs xs arbitrary: u rule: list_induct2)
  case (Cons h hs x xs)
  obtain m p where x: "x = (m, p)" by (cases x)
  let ?u = "unpack_handle put_parts (h, x) u"
  have 1: "uru_mpi ?u = uru_mpi u" "mems ?u = (mems u)(h \<mapsto> m)"
    using assms(3) [of "u\<lparr>mems := (mems u)(h \<mapsto> m)\<rparr>" h p] by (simp_all add: unpack_handle_def x same_env_def)
  have "distinct hs" "h \<notin> set hs" using Cons.prems by simp_all
  note IH = Cons.IH [OF this(1), of ?u]
  show ?case
  proof (intro conjI allI impI)
    show "uru_mpi (fold (unpack_handle put_parts) (zip (h # hs) (x # xs)) u) = uru_mpi u" using IH 1 by simp
  next
    fix q assume "q \<notin> set (h # hs)"
    then show "mems (fold (unpack_handle put_parts) (zip (h # hs) (x # xs)) u) q = mems u q" using IH 1 by simp
  next
    fix k assume "k < length (h # hs)"
    then show "mems (fold (unpack_handle put_parts) (zip (h # hs) (x # xs)) u) ((h # hs) ! k) = Some (fst ((x # xs) ! k))"
      using IH 1 \<open>h \<notin> set hs\<close> by (cases k) (simp_all add: x)
  qed
qed simp

text \<open>
  What MPI delivers: one list per rank; every rank sends its own handles in the order of their
  indices, as this process does, and this process receives its own handles as it sent them.
\<close>

definition own_handles :: "nat \<Rightarrow> (unr_mem_t \<times> 'p) list \<Rightarrow> bool" where
  "own_handles r xs \<longleftrightarrow> (\<forall>j < length xs. m_rank (fst (xs ! j)) = int r \<and> m_idx (fst (xs ! j)) = int j)"

definition gathers :: "nat \<Rightarrow> nat \<Rightarrow> ((unr_mem_t \<times> 'p) list \<Rightarrow> (unr_mem_t \<times> 'p) list list) \<Rightarrow> bool" where
  "gathers n rank allgatherv \<longleftrightarrow> (\<forall>send. own_handles rank send \<longrightarrow>
     length (allgatherv send) = n \<and> allgatherv send ! rank = send \<and> (\<forall>r < n. own_handles r (allgatherv send ! r)))"

lemma pack_handles_nth:
  "pack_handles get_parts u hs = Inr xs \<Longrightarrow> length xs = length hs \<and> (\<forall>i < length hs. mems u (hs ! i) = Some (fst (xs ! i)))"
proof (induction hs arbitrary: xs)
  case (Cons h hs)
  then obtain x ys where 1: "pack_handle get_parts u h = Inr x" "pack_handles get_parts u hs = Inr ys" "xs = x # ys" by auto
  have "mems u h = Some (fst x)" using 1(1) by (auto simp: pack_handle_def split: option.splits)
  then show ?case using Cons.IH [OF 1(2)] 1(3) by (auto simp: nth_Cons split: nat.splits)
qed simp

lemma pack_handles_total:
  "\<forall>h \<in> set hs. mems u h \<noteq> None \<Longrightarrow> \<exists>xs. pack_handles get_parts u hs = Inr xs"
  by (induction hs) (auto simp: pack_handle_def split: option.splits)

text \<open>The copies after an exchange: handle \<open>j\<close> of rank \<open>r\<close> is what that rank sent as its \<open>j\<close>-th.\<close>

lemma mem_reg_sync_steps:
  assumes "unr_mem_reg_sync get_parts put_parts allgatherv s = Inr (st, s')" "handles_ok s" "unr_channels s = Some uc"
    and n: "n = nat (mpi_size (uru_mpi (uri s)))" and rank: "mpi_rank (uru_mpi (uri s)) = int rank" "rank < n"
    and "gathers n rank allgatherv" "\<And>h p u. same_env u (put_parts h p u)"
  shows "\<exists>recv rmt u. s' = s\<lparr>uri := u, unr_channels := Some (uc\<lparr>rmt_mem_arr := rmt\<rparr>), recv_buf := concat rmt,
      u_brk := u_brk s + displs recv n * unat (unr_mem_t_size uc)\<rparr> \<and>
    length recv = n \<and> (\<forall>r < n. own_handles r (recv ! r)) \<and> recv = allgatherv (recv ! rank) \<and>
    length (recv ! rank) = length (loc_mem_arr uc) \<and>
    (\<forall>i < length (loc_mem_arr uc). mems (uri s) (loc_mem_arr uc ! i) = Some (fst (recv ! rank ! i))) \<and>
    rmt = map (\<lambda>r. map (\<lambda>j. u_brk s + (displs recv r + j) * unat (unr_mem_t_size uc)) [0..<length (recv ! r)]) [0..<n] \<and>
    concat rmt = map (\<lambda>k. u_brk s + k * unat (unr_mem_t_size uc)) [0..<displs recv n] \<and>
    uru_mpi u = uru_mpi (uri s) \<and>
    (\<forall>q. q \<notin> set (concat rmt) \<longrightarrow> mems u q = (if q \<in> set (recv_buf s) then None else mems (uri s) q)) \<and>
    (\<forall>r < n. \<forall>j < length (recv ! r). mems u (rmt ! r ! j) = Some (fst (recv ! r ! j)))"
proof -
  let ?sz = "unat (unr_mem_t_size uc)" and ?u = "free_handles (recv_buf s) (uri s)"
  note loc = handles_okD(4) [OF assms(2,3)] and dj = handles_okD(8) [OF assms(2,3)]
    and sz = handles_okD(9) [OF assms(2,3)]
  have u: "uru_mpi ?u = uru_mpi (uri s)" by (simp add: free_handles_def)
  obtain send where send: "pack_handles get_parts ?u (loc_mem_arr uc) = Inr send"
    using assms(1) unfolding unr_mem_reg_sync_def assms(3) by (auto simp: Let_def)
  define recv where "recv = allgatherv send"
  define rmt where "rmt = map (\<lambda>r. map (\<lambda>j. u_brk s + (displs recv r + j) * ?sz) [0..<length (recv ! r)]) [0..<n]"
  define v where "v = fold (unpack_handle put_parts) (zip (concat rmt) (concat (take n recv))) ?u"
  have s': "s' = s\<lparr>uri := v, unr_channels := Some (uc\<lparr>rmt_mem_arr := rmt\<rparr>), recv_buf := concat rmt,
      u_brk := u_brk s + displs recv n * ?sz\<rparr>"
    using assms(1) unfolding unr_mem_reg_sync_def assms(3) option.case Let_def send res_bind_Inr u n [symmetric]
    by (simp add: v_def rmt_def recv_def split: if_splits)
  have pk: "length send = length (loc_mem_arr uc)" "\<And>i. i < length (loc_mem_arr uc) \<Longrightarrow>
      mems (uri s) (loc_mem_arr uc ! i) = Some (fst (send ! i))"
  proof -
    fix i assume i: "i < length (loc_mem_arr uc)"
    then have "loc_mem_arr uc ! i \<notin> set (recv_buf s)" using dj nth_mem by blast
    moreover have "mems (free_handles (recv_buf s) (uri s)) (loc_mem_arr uc ! i) = Some (fst (send ! i))"
      using pack_handles_nth [OF send] i by blast
    ultimately show "mems (uri s) (loc_mem_arr uc ! i) = Some (fst (send ! i))" by (simp add: free_handles_def)
  qed (use pack_handles_nth [OF send] in blast)
  have "own_handles rank send"
    unfolding own_handles_def using pk loc by (fastforce simp: head_is_def rank(1))
  then have recv: "length recv = n" "recv ! rank = send" "\<forall>r < n. own_handles r (recv ! r)"
    using assms(7) by (simp_all add: gathers_def recv_def)
  have crmt: "concat rmt = map (\<lambda>k. u_brk s + k * ?sz) [0..<displs recv n]"
    unfolding rmt_def by (rule concat_displs) (simp add: recv(1))
  have "length (concat rmt) = length (concat (take n recv))" "distinct (concat rmt)"
    using length_concat_displs [of recv] sz by (simp_all add: crmt recv(1) distinct_map inj_on_def)
  note up = unpack_all [where put_parts = put_parts and u = "?u", OF this assms(8), folded v_def]
  have new: "mems v (rmt ! r ! j) = Some (fst (recv ! r ! j))" if "r < n" "j < length (recv ! r)" for r j
  proof -
    have k: "displs recv r + j < displs recv n" using that recv(1) by (intro displs_le) simp_all
    have 1: "concat rmt ! (displs recv r + j) = rmt ! r ! j" unfolding crmt using that k by (simp add: rmt_def)
    have 2: "concat (take n recv) ! (displs recv r + j) = recv ! r ! j"
      using nth_concat_displs [of r recv j] that recv(1) by simp
    have "displs recv r + j < length (concat rmt)" using k unfolding crmt by simp
    then have "mems v (concat rmt ! (displs recv r + j)) = Some (fst (concat (take n recv) ! (displs recv r + j)))"
      using up by blast
    then show ?thesis unfolding 1 2 .
  qed
  show ?thesis
  proof (intro exI [of _ recv] exI [of _ rmt] exI [of _ v] conjI)
    show "length (recv ! rank) = length (loc_mem_arr uc)" unfolding recv(2) by (rule pk(1))
    show "\<forall>i < length (loc_mem_arr uc). mems (uri s) (loc_mem_arr uc ! i) = Some (fst (recv ! rank ! i))"
      unfolding recv(2) using pk(2) by blast
    show "recv = allgatherv (recv ! rank)" unfolding recv(2) by (rule recv_def)
    show "\<forall>q. q \<notin> set (concat rmt) \<longrightarrow> mems v q = (if q \<in> set (recv_buf s) then None else mems (uri s) q)"
    proof (intro allI impI)
      fix q assume "q \<notin> set (concat rmt)"
      then have "mems v q = mems ?u q" using up by blast
      then show "mems v q = (if q \<in> set (recv_buf s) then None else mems (uri s) q)" by (simp add: free_handles_def)
    qed
    show "uru_mpi v = uru_mpi (uri s)" using up u by simp
  qed (fact s' recv(1) recv(3) rmt_def crmt | use new in blast)+
qed

lemma spaced_exchange:
  assumes "spaced sz hi m" "0 < sz" "set new = (\<lambda>k. hi + k * sz) ` {0..<cnt}"
    and "\<And>q. q \<notin> set new \<Longrightarrow> m' q = (if q \<in> old then None else m q)"
  shows "spaced sz (hi + cnt * sz) m'"
proof -
  have le: "p + sz \<le> hi" if "m' p \<noteq> None" "p \<notin> set new" for p
  proof -
    have "m p \<noteq> None" using that assms(4) [of p] by (auto split: if_splits)
    then show ?thesis using assms(1) by (simp add: spaced_def)
  qed
  have new: "\<exists>k < cnt. p = hi + k * sz" if "p \<in> set new" for p using that assms(3) by auto
  show ?thesis unfolding spaced_def
  proof (intro conjI allI impI)
    fix p assume p: "m' p \<noteq> None"
    show "p + sz \<le> hi + cnt * sz"
    proof (cases "p \<in> set new")
      case True
      then obtain k where k: "k < cnt" "p = hi + k * sz" using new by blast
      have "Suc k * sz \<le> cnt * sz" using k(1) by (intro mult_le_mono1) simp
      then show ?thesis using k(2) by simp
    next
      case False
      then show ?thesis using le [OF p] by simp
    qed
  next
    fix p q assume a: "m' p \<noteq> None \<and> m' q \<noteq> None \<and> p < q"
    show "p + sz \<le> q"
    proof (cases "q \<in> set new")
      case True
      then obtain k where k: "k < cnt" "q = hi + k * sz" using new by blast
      show ?thesis
      proof (cases "p \<in> set new")
        case True
        then obtain i where i: "p = hi + i * sz" using new by blast
        then have "i < k" using a k assms(2) by simp
        then have "Suc i * sz \<le> k * sz" by (intro mult_le_mono1) simp
        then show ?thesis using i k by simp
      next
        case False
        then show ?thesis using le [of p] a k by simp
      qed
    next
      case False
      then have q: "q + sz \<le> hi" "m q \<noteq> None" using le [of q] a assms(4) [of q] by (auto split: if_splits)
      show ?thesis
      proof (cases "p \<in> set new")
        case True
        then show ?thesis using new [of p] a q by auto
      next
        case False
        then have "m p \<noteq> None" using a assms(4) [of p] by (auto split: if_splits)
        then show ?thesis using assms(1) q a unfolding spaced_def by blast
      qed
    qed
  qed
qed

lemma mem_reg_sync_keeps:
  assumes "unr_mem_reg_sync get_parts put_parts allgatherv s = Inr (st, s')" "handles_ok s"
    and n: "n = nat (mpi_size (uru_mpi (uri s)))" and rank: "mpi_rank (uru_mpi (uri s)) = int rank" "rank < n"
    and "gathers n rank allgatherv" "\<And>h p u. same_env u (put_parts h p u)"
  shows "handles_ok s'"
proof -
  obtain uc where uc: "unr_channels s = Some uc" using handles_ok_channels [OF assms(2)] by blast
  note ok = handles_okD [OF assms(2) uc]
  let ?sz = "unat (unr_mem_t_size uc)"
  obtain recv rmt u where s': "s' = s\<lparr>uri := u, unr_channels := Some (uc\<lparr>rmt_mem_arr := rmt\<rparr>), recv_buf := concat rmt,
      u_brk := u_brk s + displs recv n * ?sz\<rparr>"
    and recv: "length recv = n" "\<forall>r < n. own_handles r (recv ! r)" "recv = allgatherv (recv ! rank)"
    and rmt: "rmt = map (\<lambda>r. map (\<lambda>j. u_brk s + (displs recv r + j) * ?sz) [0..<length (recv ! r)]) [0..<n]"
    and crmt: "concat rmt = map (\<lambda>k. u_brk s + k * ?sz) [0..<displs recv n]"
    and u: "uru_mpi u = uru_mpi (uri s)"
    and old: "\<forall>q. q \<notin> set (concat rmt) \<longrightarrow> mems u q = (if q \<in> set (recv_buf s) then None else mems (uri s) q)"
    and new: "\<forall>r < n. \<forall>j < length (recv ! r). mems u (rmt ! r ! j) = Some (fst (recv ! r ! j))"
    using mem_reg_sync_steps [OF assms(1,2) uc n rank assms(6,7)] by blast
  have loc: "h \<notin> set (concat rmt) \<and> h \<notin> set (recv_buf s)" if "h \<in> set (loc_mem_arr uc)" for h
  proof -
    obtain i where i: "i < length (loc_mem_arr uc)" "loc_mem_arr uc ! i = h" using \<open>h \<in> set (loc_mem_arr uc)\<close> by (auto simp: in_set_conv_nth)
    then have "mems (uri s) h \<noteq> None" using ok(4) [OF i(1)] by (auto simp: head_is_def)
    then have "h + ?sz \<le> u_brk s" using ok(3) by (simp add: spaced_def)
    then have "h \<notin> set (concat rmt)" using ok(9) unfolding crmt by auto
    then show ?thesis using that ok(8) by blast
  qed
  have "channels_ok s'"
    by (rule channels_ok_cong [OF ok(1) uc, where la = "loc_mem_arr uc" and ra = rmt]) (simp_all add: s')
  moreover have "modules_ok (registry s')" using ok(2) by (simp add: s')
  moreover have "spaced ?sz (u_brk s') (mems (uri s'))"
    using spaced_exchange [OF ok(3,9), of "concat rmt" "displs recv n" "mems u" "set (recv_buf s)"] old
    by (simp add: s' crmt)
  moreover have "head_is (mems u) (loc_mem_arr uc ! i) (mpi_rank (uru_mpi (uri s))) i" if "i < length (loc_mem_arr uc)" for i
    using ok(4) [OF that] loc [OF nth_mem [OF that]] old by (simp add: head_is_def)
  moreover have "length rmt = n" by (simp add: rmt)
  moreover have "head_is (mems u) (rmt ! r ! j) (int r) j" if "r < n" "j < length (rmt ! r)" for r j
    using that new recv by (simp add: rmt head_is_def own_handles_def)
  ultimately show ?thesis using loc n unfolding handles_ok_def by (auto simp: s' u)
qed

section \<open>After initialisation\<close>

lemma modules_ok_same:
  assumes "modules_ok reg" "length reg' = length reg" "\<And>c. c < length reg \<Longrightarrow> func_ptrs (reg' ! c) = func_ptrs (reg ! c)"
  shows "modules_ok reg'"
  unfolding modules_ok_def
proof (intro ballI allI impI)
  fix ch fp assume "ch \<in> set reg'" "func_ptrs ch = Some fp"
  then obtain c where "c < length reg" "func_ptrs (reg ! c) = Some fp"
    using assms(2,3) by (auto simp: in_set_conv_nth)
  then show "channel_module fp" by (rule modules_okD [OF assms(1)])
qed

lemma open_or_reuse_env:
  assumes "open_or_reuse cr h s = Inr (off, h', s')" "modules_ok (registry s)" "fst cr < length (registry s)"
  shows "same_env (uri s) (uri s') \<and> modules_ok (registry s') \<and> length (registry s') = length (registry s) \<and>
    u_brk s' = u_brk s \<and> recv_buf s' = recv_buf s \<and> plans s' = plans s"
proof -
  obtain c r where cr: "cr = (c, r)" by (cases cr)
  show ?thesis
  proof (cases r)
    case (Some o')
    then show ?thesis using assms by (simp add: cr open_or_reuse_def)
  next
    case None
    obtain st ch u where o: "uri_channel_open (registry s ! c) h (uri s) = Inr (st, ch, u)"
        "s' = s\<lparr>registry := (registry s)[c := ch], uri := u\<rparr>"
      using assms(1) by (auto simp: cr None open_or_reuse_def)
    have f: "func_ptrs ch = func_ptrs (registry s ! c)"
      using o(1) by (auto simp: uri_channel_open_def with_func_Inr Let_def split: if_splits)
    have "same_env (uri s) u"
    proof (cases "opened (hdr (registry s ! c))")
      case True
      then show ?thesis using o(1) by (simp add: uri_channel_open_def)
    next
      case False
      then obtain fp where fp: "func_ptrs (registry s ! c) = Some fp"
        using o(1) by (auto simp: uri_channel_open_def with_func_Inr Let_def)
      then have "channel_module fp" using modules_okD [OF assms(2) _ fp] assms(3) by (simp add: cr)
      from channel_module.uri_channel_open_env [OF this fp o(1)] show ?thesis .
    qed
    moreover have "func_ptrs ((registry s)[c := ch] ! d) = func_ptrs (registry s ! d)" if "d < length (registry s)" for d
      using f that by (cases "d = c") simp_all
    then have "modules_ok ((registry s)[c := ch])" by (intro modules_ok_same [OF assms(2)]) simp_all
    ultimately show ?thesis by (simp add: o(2))
  qed
qed

lemma open_channels_env:
  assumes "open_channels crs h s = Inr (offs, h', s')" "modules_ok (registry s)"
    "\<forall>cr \<in> set crs. fst cr < length (registry s)"
  shows "same_env (uri s) (uri s') \<and> modules_ok (registry s') \<and> length (registry s') = length (registry s) \<and>
    u_brk s' = u_brk s \<and> recv_buf s' = recv_buf s \<and> plans s' = plans s"
  using assms
proof (induction crs arbitrary: h s offs)
  case (Cons cr crs)
  then obtain off h1 s1 offs1 where 1: "open_or_reuse cr h s = Inr (off, h1, s1)"
      "open_channels crs h1 s1 = Inr (offs1, h', s')" by auto
  have e: "same_env (uri s) (uri s1) \<and> modules_ok (registry s1) \<and> length (registry s1) = length (registry s) \<and>
      u_brk s1 = u_brk s \<and> recv_buf s1 = recv_buf s \<and> plans s1 = plans s"
    using open_or_reuse_env [OF 1(1)] Cons.prems by simp
  then show ?case using Cons.IH [OF 1(2)] Cons.prems(3) by (auto intro: same_env_trans)
qed simp

text \<open>A process that has just initialised the library, and has had no handles before.\<close>

lemma unr_init_handles_ok:
  assumes "unr_init e s = Inr (st, s')" "\<not> unr_initialized s" "registry_ok (registry s)" "modules_ok (registry s)"
    and "mems (uri s) = (\<lambda>_. None)" "recv_buf s = []"
  shows "handles_ok s' \<and> mpi_rank (uru_mpi (uri s')) = comm_rank e \<and> mpi_size (uru_mpi (uri s')) = comm_size e \<and>
    plans s' = plans s \<and> u_brk s' = u_brk s \<and>
    (\<forall>uc. unr_channels s' = Some uc \<longrightarrow> length (inter_channels uc) + length (intra_channels uc) < 256)"
proof -
  obtain u inter_chs intra_chs inter_offs intra_offs h t inter_blk inter_sum intra_blk intra_sum where
      sel: "unr_select e (registry s) = Inr (inter_chs, intra_chs)"
    and opn: "unr_open inter_chs intra_chs (s\<lparr>unr_initialized := True, uri := (uri s)\<lparr>uru_mpi := u\<rparr>,
       registry := set_channel_ids (combine_channels inter_chs intra_chs) (registry s)\<rparr>) = Inr (inter_offs, intra_offs, h, t)"
    and s': "s' = t\<lparr>unr_channels := Some \<lparr>avail_channels = combine_channels inter_chs intra_chs, inter_channels = inter_chs,
       intra_channels = intra_chs, intra_channel_reuse = map (intra_reuse inter_chs) intra_chs,
       inter_channel_blk_size = inter_blk, inter_channel_blk_size_sum = inter_sum,
       intra_channel_blk_size = intra_blk, intra_channel_blk_size_sum = intra_sum,
       unr_mem_t_size = h, inter_uri_mem_h_offset = inter_offs, intra_uri_mem_h_offset = intra_offs,
       loc_mem_arr = [], rmt_mem_arr = replicate (nat (comm_size e)) []\<rparr>, daemon_thread_continue := True\<rparr>"
    and u: "u = \<lparr>mpi_rank = comm_rank e, mpi_size = comm_size e,
       same_node = map (\<lambda>i. processor_name e = all_names e ! i) [0..<nat (comm_size e)]\<rparr>"
    by (rule unr_init_steps [OF assms(1,2)])
  let ?s = "s\<lparr>unr_initialized := True, uri := (uri s)\<lparr>uru_mpi := u\<rparr>,
       registry := set_channel_ids (combine_channels inter_chs intra_chs) (registry s)\<rparr>"
  have ids: "length (registry ?s) = length (registry s)"
      "\<And>c. c < length (registry s) \<Longrightarrow> numbered (registry s ! c) (registry ?s ! c)"
    unfolding set_channel_ids_def using set_channel_ids_from [of 0 "combine_channels inter_chs intra_chs" "registry s"] by simp_all
  have m: "modules_ok (registry ?s)"
    using ids numberedD by (intro modules_ok_same [OF assms(4)]) blast+
  have b: "\<forall>c \<in> set inter_chs. c < length (registry s)" "\<forall>c \<in> set intra_chs. c < length (registry s)"
    using unr_select_Inr(1,2) [OF sel] by (simp_all add: list_all_iff)
  obtain h1 s1 where 1: "open_channels (map (\<lambda>c. (c, None)) inter_chs) sizeof_unr_mem ?s = Inr (inter_offs, h1, s1)"
      "open_channels (map (\<lambda>c. (c, map_option ((!) inter_offs) (intra_reuse inter_chs c))) intra_chs) h1 s1 =
      Inr (intra_offs, h, t)"
    using opn by (auto simp: unr_open_def)
  have e1: "same_env (uri ?s) (uri s1) \<and> modules_ok (registry s1) \<and> length (registry s1) = length (registry ?s) \<and>
      u_brk s1 = u_brk ?s \<and> recv_buf s1 = recv_buf ?s \<and> plans s1 = plans ?s"
    using open_channels_env [OF 1(1) m] b(1) ids(1) by simp
  have e2: "same_env (uri s1) (uri t) \<and> modules_ok (registry t) \<and> recv_buf t = recv_buf s1 \<and> plans t = plans s1 \<and> u_brk t = u_brk s1"
    using open_channels_env [OF 1(2)] e1 b(2) ids(1) by simp
  have "length inter_chs \<le> 16" "length intra_chs \<le> 16"
    using length_le_registry [OF unr_select_Inr(3,1) [OF sel]] length_le_registry [OF unr_select_Inr(4,2) [OF sel]] assms(3)
    by (simp_all add: registry_ok_def URI_MAX_CHANNEL_NUM_def)
  then have "length inter_chs + length intra_chs < 256" by simp
  moreover have "channels_ok s'" using unr_init_channels_ok [OF assms(1-3)] by blast
  moreover have "mems (uri t) = (\<lambda>_. None)" "uru_mpi (uri t) = u" using e1 e2 assms(5) by (simp_all add: same_env_def)
  ultimately show ?thesis
    using e1 e2 assms(6) unfolding handles_ok_def by (simp add: s' spaced_def u)
qed

section \<open>The properties\<close>

text \<open>A process of two, after \<open>unr_init\<close> with the MPI channel for both classes.\<close>

definition mem_example :: "uri_mpi_state unr_base_state" where
  "mem_example = \<lparr>uri = queue_example_state,
     registry = [example_mpi_channel\<lparr>hdr := (hdr example_mpi_channel)\<lparr>opened := True, mem_h_offset := 24\<rparr>\<rparr>],
     unr_channels = Some \<lparr>avail_channels = [0], inter_channels = [0], intra_channels = [0], intra_channel_reuse = [Some 0],
       inter_channel_blk_size = [4096], inter_channel_blk_size_sum = 4096, intra_channel_blk_size = [4096],
       intra_channel_blk_size_sum = 4096, unr_mem_t_size = 24, inter_uri_mem_h_offset = [24], intra_uri_mem_h_offset = [24],
       loc_mem_arr = [], rmt_mem_arr = [[], []]\<rparr>,
     unr_initialized = True, daemon_thread_continue = True, recv_buf = [], plans = (\<lambda>_. None), u_brk = 1000\<rparr>"

lemma mem_example_ok: "handles_ok mem_example"
proof -
  have "channels_ok mem_example"
    by (simp add: channels_ok_def mem_example_def sizeof_unr_mem_def uri_mem_h_size_def example_mpi_channel_def
        uri_mpi_channel_func_ptrs_def uri_mpi_mem_h_size_def sizeof_uri_mem_def offset_of_def intra_reuse_def
        combine_channels_def blk_ok_def with_func_def)
  moreover have "modules_ok (registry mem_example)"
    using mpi_mod.channel_module_axioms by (simp add: modules_ok_def mem_example_def example_mpi_channel_def)
  ultimately show ?thesis
    unfolding handles_ok_def by (simp add: mem_example_def queue_example_state_def example_mpi_def spaced_def nth_Cons')
qed

lemma mem_example_reg: "\<exists>s. unr_mem_reg 4096 64 mem_example = Inr (URU_STATUS_OK, 1000, s)"
  by (simp add: unr_mem_reg_def mem_example_def reg_targets_def reg_channel_def uri_mem_reg_def example_mpi_channel_def
      uri_mpi_channel_func_ptrs_def uri_mpi_mem_reg_def with_func_def)

text \<open>
  C26. Registering a memory makes a handle from which every channel in use, each told once and at the
  offset of its own part, finds the address, the size and the owner of the memory again; the handle
  becomes the last of the local handles, and no other handle changes.
\<close>

theorem mem_reg_round_trip:
  assumes "unr_mem_reg a n s = Inr (st, h, s')" "handles_ok s"
  shows "\<exists>uc uc'. unr_channels s = Some uc \<and> unr_channels s' = Some uc' \<and>
    loc_mem_arr uc' = loc_mem_arr uc @ [h] \<and> avail_channels uc' = avail_channels uc \<and>
    map fst (reg_targets uc) = avail_channels uc \<and> distinct (avail_channels uc) \<and>
    (\<forall>c \<in> set (avail_channels uc).
      uri_mem_get_info (mems (uri s')) (hdr (registry s' ! c)) (h + unat (offset_of (registry s') c)) =
        Inr (a, n, mpi_rank (uru_mpi (uri s')))) \<and>
    (\<forall>p. mems (uri s) p \<noteq> None \<longrightarrow> mems (uri s') p = mems (uri s) p)"
proof -
  obtain uc where uc: "unr_channels s = Some uc" using handles_ok_channels [OF assms(2)] by blast
  note ok = handles_okD [OF assms(2) uc]
  obtain u where u: "h = u_brk s" "s' = s\<lparr>unr_channels := Some (uc\<lparr>loc_mem_arr := loc_mem_arr uc @ [h]\<rparr>), uri := u,
      u_brk := h + unat (unr_mem_t_size uc)\<rparr>" "uru_mpi u = uru_mpi (uri s)"
      "mems u = (mems (uri s))(h \<mapsto> \<lparr>m_addr = a, m_size = n, m_rank = mpi_rank (uru_mpi (uri s)),
        m_idx = int (length (loc_mem_arr uc))\<rparr>)"
    using mem_reg_steps [OF assms(1) ok(1,2) uc] by blast
  have fresh: "mems (uri s) h = None" unfolding u(1) by (rule spaced_fresh [OF ok(3,9)])
  have "distinct (avail_channels uc)" using ok(1) unfolding channels_ok_def uc option.case by blast
  moreover have "uri_mem_get_info (mems u) (hdr (registry s ! c)) (h + unat (offset_of (registry s) c)) =
      Inr (a, n, mpi_rank (uru_mpi (uri s)))" for c
    using mem_get_info_handle [of "mems u" h _ "hdr (registry s ! c)"] unfolding offset_of_def by (simp add: u(4))
  moreover have "\<forall>p. mems (uri s) p \<noteq> None \<longrightarrow> mems u p = mems (uri s) p" using fresh by (auto simp: u(4))
  ultimately show ?thesis
    using uc reg_targets_avail [OF ok(1) uc] u(3)
    by (intro exI [of _ uc] exI [of _ "uc\<lparr>loc_mem_arr := loc_mem_arr uc @ [h]\<rparr>"]) (simp add: u(2) comp_def)
qed

theorem mem_reg_round_trip_witness:
  "\<exists>s. unr_mem_reg 4096 64 mem_example = Inr (URU_STATUS_OK, 1000, s) \<and>
     uri_mem_get_info (mems (uri s)) (hdr (registry s ! 0)) (1000 + unat (offset_of (registry s) 0)) = Inr (4096, 64, mpi_rank (uru_mpi (uri s)))"
proof -
  obtain s where s: "unr_mem_reg 4096 64 mem_example = Inr (URU_STATUS_OK, 1000, s)" using mem_example_reg by blast
  have "avail_channels (the (unr_channels mem_example)) = [0]" by (simp add: mem_example_def)
  with mem_reg_round_trip [OF s mem_example_ok] s show ?thesis by (auto simp: mem_example_def)
qed

text \<open>
  C11. After the exchange the process holds, for every rank, one copy of each handle that the rank
  sent, in the order of the indices; from each copy every channel in use finds the address and the
  size that the owner registered, and the owner's rank. Its own handles are among them.
\<close>

theorem mem_sync_round_trip:
  assumes "unr_mem_reg_sync get_parts put_parts allgatherv s = Inr (st, s')" "handles_ok s"
    and n: "n = nat (mpi_size (uru_mpi (uri s)))" and rank: "mpi_rank (uru_mpi (uri s)) = int rank" "rank < n"
    and "gathers n rank allgatherv" "\<And>h p u. same_env u (put_parts h p u)"
  shows "\<exists>uc uc' recv. unr_channels s = Some uc \<and> unr_channels s' = Some uc' \<and>
    recv = allgatherv (recv ! rank) \<and> length (recv ! rank) = length (loc_mem_arr uc) \<and>
    (\<forall>i < length (loc_mem_arr uc). mems (uri s) (loc_mem_arr uc ! i) = Some (fst (recv ! rank ! i))) \<and>
    length (rmt_mem_arr uc') = n \<and>
    (\<forall>r < n. length (rmt_mem_arr uc' ! r) = length (recv ! r) \<and> (\<forall>j < length (recv ! r). \<forall>c \<in> set (avail_channels uc').
      uri_mem_get_info (mems (uri s')) (hdr (registry s' ! c)) (rmt_mem_arr uc' ! r ! j + unat (offset_of (registry s') c)) =
        Inr (m_addr (fst (recv ! r ! j)), m_size (fst (recv ! r ! j)), int r)))"
proof -
  obtain uc where uc: "unr_channels s = Some uc" using handles_ok_channels [OF assms(2)] by blast
  let ?sz = "unat (unr_mem_t_size uc)"
  obtain recv rmt u where s': "s' = s\<lparr>uri := u, unr_channels := Some (uc\<lparr>rmt_mem_arr := rmt\<rparr>), recv_buf := concat rmt,
      u_brk := u_brk s + displs recv n * ?sz\<rparr>"
    and recv: "length recv = n" "\<forall>r < n. own_handles r (recv ! r)" "recv = allgatherv (recv ! rank)"
      "length (recv ! rank) = length (loc_mem_arr uc)"
      "\<forall>i < length (loc_mem_arr uc). mems (uri s) (loc_mem_arr uc ! i) = Some (fst (recv ! rank ! i))"
    and rmt: "rmt = map (\<lambda>r. map (\<lambda>j. u_brk s + (displs recv r + j) * ?sz) [0..<length (recv ! r)]) [0..<n]"
    and new: "\<forall>r < n. \<forall>j < length (recv ! r). mems u (rmt ! r ! j) = Some (fst (recv ! r ! j))"
    using mem_reg_sync_steps [OF assms(1,2) uc n rank assms(6,7)] by blast
  have "uri_mem_get_info (mems u) (hdr (registry s ! c)) (rmt ! r ! j + unat (offset_of (registry s) c)) =
      Inr (m_addr (fst (recv ! r ! j)), m_size (fst (recv ! r ! j)), int r)" if "r < n" "j < length (recv ! r)" for r j c
    unfolding offset_of_def using new recv(2) that by (subst mem_get_info_handle) (auto simp: own_handles_def)
  moreover have "length rmt = n" "\<And>r. r < n \<Longrightarrow> length (rmt ! r) = length (recv ! r)" by (simp_all add: rmt)
  moreover have "unr_channels s' = Some (uc\<lparr>rmt_mem_arr := rmt\<rparr>)" "uri s' = u" "registry s' = registry s" by (simp_all add: s')
  ultimately show ?thesis
    using uc recv(3-5) by (intro exI [of _ uc] exI [of _ "uc\<lparr>rmt_mem_arr := rmt\<rparr>"] exI [of _ recv] conjI) auto
qed

text \<open>The other process of two has registered one memory.\<close>

definition mem_example_gather :: "(unr_mem_t \<times> unit) list \<Rightarrow> (unr_mem_t \<times> unit) list list" where
  "mem_example_gather send = [[(\<lparr>m_addr = 7, m_size = 8, m_rank = 0, m_idx = 0\<rparr>, ())], send]"

lemma mem_example_gathers: "gathers 2 1 mem_example_gather"
  by (simp add: gathers_def mem_example_gather_def own_handles_def less_2_cases_iff)

lemma mem_example_sync:
  "\<exists>s. unr_mem_reg_sync (\<lambda>h u. ()) (\<lambda>h p u. u) mem_example_gather mem_example = Inr (URU_STATUS_OK, s)"
proof -
  obtain uc where uc: "unr_channels mem_example = Some uc" "loc_mem_arr uc = []" by (simp add: mem_example_def)
  have n: "nat (mpi_size (uru_mpi (free_handles hs (uri mem_example)))) = 2" for hs
    by (simp add: free_handles_def mem_example_def queue_example_state_def example_mpi_def)
  have d: "displs (mem_example_gather []) 2 = 1" by (simp add: displs_def mem_example_gather_def numeral_2_eq_2)
  show ?thesis unfolding unr_mem_reg_sync_def uc option.case Let_def pack_handles.simps res_bind_Inr n d by simp
qed

theorem mem_sync_round_trip_witness:
  "\<exists>s uc. unr_mem_reg_sync (\<lambda>h u. ()) (\<lambda>h p u. u) mem_example_gather mem_example = Inr (URU_STATUS_OK, s) \<and>
     unr_channels s = Some uc \<and> length (rmt_mem_arr uc) = 2 \<and> length (rmt_mem_arr uc ! 0) = 1"
proof -
  obtain s where s: "unr_mem_reg_sync (\<lambda>h u. ()) (\<lambda>h p u. u) mem_example_gather mem_example = Inr (URU_STATUS_OK, s)"
    using mem_example_sync by blast
  have u: "2 = nat (mpi_size (uru_mpi (uri mem_example)))" "mpi_rank (uru_mpi (uri mem_example)) = int 1"
    by (simp_all add: mem_example_def queue_example_state_def example_mpi_def)
  obtain uc recv where uc: "unr_channels s = Some uc" "recv = mem_example_gather (recv ! 1)" "length (rmt_mem_arr uc) = 2"
      "\<forall>r < 2. length (rmt_mem_arr uc ! r) = length (recv ! r)"
    using mem_sync_round_trip [OF s mem_example_ok u _ mem_example_gathers] by auto
  have "recv ! 0 = mem_example_gather (recv ! 1) ! 0" by (rule arg_cong [OF uc(2)])
  then have "length (rmt_mem_arr uc ! 0) = 1" using uc(4) by (simp add: mem_example_gather_def)
  then show ?thesis using s uc by blast
qed

end
