(* ===== verification/Unr_Blk_Props.thy ===== *)
theory Unr_Blk_Props
  imports Unr_Blk Unr_Mem_Props
begin

text \<open>
  What a transfer plan does: its writes move every byte of each transfer once and count as one event
  on each side, they fit the arrays of the plan, and each of them names handles from which its
  channel finds the two blocks. The definitions are those of \<open>Unr_Blk\<close>.
\<close>

section \<open>The tables of a class of channels\<close>

definition class_ok :: "unr_channels_t \<Rightarrow> bool \<Rightarrow> bool" where
  "class_ok uc same \<longleftrightarrow> blk_ok (node_blk uc same) (node_blk_sum uc same) \<and>
     length (node_blk uc same) = length (node_channels uc same) \<and>
     length (node_offsets uc same) = length (node_channels uc same)"

lemma channels_ok_class: "channels_ok s \<Longrightarrow> unr_channels s = Some uc \<Longrightarrow> class_ok uc same"
  by (cases same) (auto simp: channels_ok_def class_ok_def node_blk_def node_blk_sum_def node_channels_def node_offsets_def)

lemma channels_ok_offsets:
  "channels_ok s \<Longrightarrow> unr_channels s = Some uc \<Longrightarrow> node_offsets uc same = map (offset_of (registry s)) (node_channels uc same)"
  by (cases same) (auto simp: channels_ok_def node_channels_def node_offsets_def)

definition turn_ok :: "unr_channels_t \<Rightarrow> nat \<times> nat \<Rightarrow> bool" where
  "turn_ok uc nx \<longleftrightarrow> fst nx < length (node_channels uc False) \<and> snd nx < length (node_channels uc True)"

text \<open>The number of the plan of channel \<open>j\<close> of a class.\<close>

definition plan_no :: "unr_channels_t \<Rightarrow> bool \<Rightarrow> nat \<Rightarrow> nat" where
  "plan_no uc same j = (if same then j + length (inter_channels uc) else j)"

lemma plan_no_channel: "j < length (node_channels uc same) \<Longrightarrow> plan_channel uc (plan_no uc same j) = node_channels uc same ! j"
  by (simp add: plan_channel_def plan_no_def node_channels_def split: if_splits)

lemma plan_no_less: "j < length (node_channels uc same) \<Longrightarrow> plan_no uc same j < length (inter_channels uc) + length (intra_channels uc)"
  by (auto simp: plan_no_def node_channels_def split: if_splits)

lemma plan_no_inj: "plan_no uc same j = plan_no uc same j' \<longleftrightarrow> j = j'"
  by (simp add: plan_no_def)

section \<open>One transfer\<close>

text \<open>
  What a transfer becomes once its tests have passed: the stripes, and one write per stripe that is
  not empty. The striping loop ends and the assertion on the sum holds.
\<close>

lemma plan_send_steps:
  assumes "class_ok uc False" "class_ok uc True" "turn_ok uc nx"
    and "send_handles uc mpi (loc_blk_arr p ! i) (rmt_blk_arr p ! i) = Inr (loc_h, rmt_h, same)"
    and "lf = send_flag (mpi_rank mpi) (map_option (\<lambda>xs. xs ! i) (loc_sig_arr p))
      (if type_arr (num_sends p) (dma_type_arr p) ! i = URU_TRANSFER_TYPE_DMA_PUT
       then blk_send_flag_p (loc_blk_arr p ! i) else blk_recv_flag_p (loc_blk_arr p ! i))"
    and "rf = send_flag (blk_dst_rank (rmt_blk_arr p ! i)) (map_option (\<lambda>xs. xs ! i) (rmt_sig_arr p))
      (if type_arr (num_sends p) (dma_type_arr p) ! i = URU_TRANSFER_TYPE_DMA_PUT
       then blk_recv_flag_p (rmt_blk_arr p ! i) else blk_send_flag_p (rmt_blk_arr p ! i))"
  shows "\<exists>sizes nx'. turn_ok uc nx' \<and> length sizes = length (node_channels uc same) \<and> sum_list sizes = sz \<and>
    (\<forall>k < unat sz. \<exists>!j. j < length sizes \<and> unat (div_plan_wrt_offset sizes ! j) \<le> k \<and>
        k < unat (div_plan_wrt_offset sizes ! j) + unat (sizes ! j)) \<and>
    (\<forall>j < length sizes. unat (div_plan_wrt_offset sizes ! j) + unat (sizes ! j) \<le> unat sz) \<and>
    plan_send uc mpi p sz i nx = res_bind lf (\<lambda>loc_flag. res_bind rf (\<lambda>rmt_flag.
      Inr (map (\<lambda>j. (plan_no uc same j, type_arr (num_sends p) (dma_type_arr p) ! i,
              stripe_wrt p i (loc_h, rmt_h) (node_offsets uc same) (loc_flag, rmt_flag) sizes j))
            (filter (\<lambda>j. sizes ! j \<noteq> 0) [0..<length sizes]), nx')))"
proof -
  let ?n = "if same then snd nx else fst nx"
  have ok: "class_ok uc same" using assms(1,2) by (cases same) simp_all
  then have b: "blk_ok (node_blk uc same) (node_blk_sum uc same)" "length (node_blk uc same) = length (node_channels uc same)"
    by (simp_all add: class_ok_def)
  have "?n < length (node_blk uc same)" using assms(3) b(2) by (cases same) (simp_all add: turn_ok_def)
  from stripes_tile [OF b(1) this, of sz] obtain sizes next' where
      s: "div_plan_wrt_size sz (node_blk uc same) (node_blk_sum uc same) ?n = Some (sizes, next')"
        "length sizes = length (node_blk uc same)" "next' < length (node_blk uc same)" "sum_list sizes = sz"
        "\<forall>k < unat sz. \<exists>!j. j < length sizes \<and> unat (div_plan_wrt_offset sizes ! j) \<le> k \<and>
          k < unat (div_plan_wrt_offset sizes ! j) + unat (sizes ! j)"
        "\<forall>j < length sizes. unat (div_plan_wrt_offset sizes ! j) + unat (sizes ! j) \<le> unat sz"
    by blast
  have "node_blk_sum uc same \<noteq> 0"
  proof
    assume "node_blk_sum uc same = 0"
    then have "sum_list (map unat (node_blk uc same)) = 0" "node_blk uc same \<noteq> []" "\<forall>x \<in> set (node_blk uc same). x \<noteq> 0"
      using b(1) by (auto simp: blk_ok_def list_all_iff)
    then show False by (cases "node_blk uc same") (auto simp: unat_eq_zero)
  qed
  moreover have "turn_ok uc (if same then (fst nx, next') else (next', snd nx))"
    using assms(3) s(3) b(2) by (cases same) (simp_all add: turn_ok_def)
  ultimately show ?thesis
    using s b(2) unfolding plan_send_def Let_def assms(4) res_bind_Inr split_conv assms(5,6)
    by (intro exI [of _ sizes] exI [of _ "if same then (fst nx, next') else (next', snd nx)"]) (simp add: plan_no_def)
qed

text \<open>An empty stripe adds nothing.\<close>

lemma sig_add_multi_zero: "j < length xs \<Longrightarrow> xs ! j = 0 \<Longrightarrow> sig_add_multi n xs ! j = 0"
proof (induction xs arbitrary: j)
  case (Cons x xs)
  then show ?case by (cases j) auto
qed simp

lemma sig_add_nonempty:
  assumes "sum_list sizes \<noteq> (0 :: u64)"
  shows "sum_list (map (\<lambda>j. sig_add_arr sizes ! j) (filter (\<lambda>j. sizes ! j \<noteq> 0) [0..<length sizes])) = - 1"
proof -
  have "sum_list (map (\<lambda>j. sig_add_arr sizes ! j) (filter (\<lambda>j. sizes ! j \<noteq> 0) [0..<length sizes])) =
      sum_list (map (\<lambda>j. sig_add_arr sizes ! j) [0..<length sizes])"
    by (intro sum_list_map_filter) (auto simp: sig_add_arr_multi sig_add_multi_zero)
  also have "map (\<lambda>j. sig_add_arr sizes ! j) [0..<length sizes] = sig_add_arr sizes"
    using map_nth [of "sig_add_arr sizes"] by simp
  also have "sum_list (sig_add_arr sizes) = - 1"
  proof (rule sig_add_sum, rule ccontr)
    assume "\<not> (\<exists>x \<in> set sizes. x \<noteq> 0)"
    then have "sum_list sizes = 0" by (induction sizes) auto
    then show False using assms by simp
  qed
  finally show ?thesis .
qed

text \<open>The flags that a transfer counts down on the two sides.\<close>

definition loc_send_flag :: "uru_mpi_t \<Rightarrow> unr_plan_create_para_t \<Rightarrow> nat \<Rightarrow> addr res" where
  "loc_send_flag mpi p i = send_flag (mpi_rank mpi) (map_option (\<lambda>xs. xs ! i) (loc_sig_arr p))
     (if type_arr (num_sends p) (dma_type_arr p) ! i = URU_TRANSFER_TYPE_DMA_PUT
      then blk_send_flag_p (loc_blk_arr p ! i) else blk_recv_flag_p (loc_blk_arr p ! i))"

definition rmt_send_flag :: "unr_plan_create_para_t \<Rightarrow> nat \<Rightarrow> addr res" where
  "rmt_send_flag p i = send_flag (blk_dst_rank (rmt_blk_arr p ! i)) (map_option (\<lambda>xs. xs ! i) (rmt_sig_arr p))
     (if type_arr (num_sends p) (dma_type_arr p) ! i = URU_TRANSFER_TYPE_DMA_PUT
      then blk_recv_flag_p (rmt_blk_arr p ! i) else blk_send_flag_p (rmt_blk_arr p ! i))"

lemma plan_send_Inr:
  assumes "class_ok uc False" "class_ok uc True" "turn_ok uc nx" "plan_send uc mpi p sz i nx = Inr (ws, nx')"
  obtains loc_h rmt_h same loc_flag rmt_flag sizes where
    "send_handles uc mpi (loc_blk_arr p ! i) (rmt_blk_arr p ! i) = Inr (loc_h, rmt_h, same)"
    "turn_ok uc nx'" "length sizes = length (node_channels uc same)" "sum_list sizes = sz"
    "\<forall>k < unat sz. \<exists>!j. j < length sizes \<and> unat (div_plan_wrt_offset sizes ! j) \<le> k \<and>
        k < unat (div_plan_wrt_offset sizes ! j) + unat (sizes ! j)"
    "\<forall>j < length sizes. unat (div_plan_wrt_offset sizes ! j) + unat (sizes ! j) \<le> unat sz"
    "ws = map (\<lambda>j. (plan_no uc same j, type_arr (num_sends p) (dma_type_arr p) ! i,
              stripe_wrt p i (loc_h, rmt_h) (node_offsets uc same) (loc_flag, rmt_flag) sizes j))
            (filter (\<lambda>j. sizes ! j \<noteq> 0) [0..<length sizes])"
    "loc_send_flag mpi p i = Inr loc_flag" "rmt_send_flag p i = Inr rmt_flag"
proof -
  obtain loc_h rmt_h same where h: "send_handles uc mpi (loc_blk_arr p ! i) (rmt_blk_arr p ! i) = Inr (loc_h, rmt_h, same)"
    using assms(4) by (auto simp: plan_send_def Let_def)
  from plan_send_steps [OF assms(1-3) h loc_send_flag_def rmt_send_flag_def, of sz] obtain sizes nx1 where
      s: "turn_ok uc nx1" "length sizes = length (node_channels uc same)" "sum_list sizes = sz"
        "\<forall>k < unat sz. \<exists>!j. j < length sizes \<and> unat (div_plan_wrt_offset sizes ! j) \<le> k \<and>
          k < unat (div_plan_wrt_offset sizes ! j) + unat (sizes ! j)"
        "\<forall>j < length sizes. unat (div_plan_wrt_offset sizes ! j) + unat (sizes ! j) \<le> unat sz"
    and p: "plan_send uc mpi p sz i nx = res_bind (loc_send_flag mpi p i) (\<lambda>loc_flag. res_bind (rmt_send_flag p i) (\<lambda>rmt_flag.
      Inr (map (\<lambda>j. (plan_no uc same j, type_arr (num_sends p) (dma_type_arr p) ! i,
              stripe_wrt p i (loc_h, rmt_h) (node_offsets uc same) (loc_flag, rmt_flag) sizes j))
            (filter (\<lambda>j. sizes ! j \<noteq> 0) [0..<length sizes]), nx1)))"
    by blast
  obtain loc_flag rmt_flag where "nx' = nx1" "ws = map (\<lambda>j. (plan_no uc same j, type_arr (num_sends p) (dma_type_arr p) ! i,
              stripe_wrt p i (loc_h, rmt_h) (node_offsets uc same) (loc_flag, rmt_flag) sizes j))
            (filter (\<lambda>j. sizes ! j \<noteq> 0) [0..<length sizes])"
      "loc_send_flag mpi p i = Inr loc_flag" "rmt_send_flag p i = Inr rmt_flag"
    using assms(4) unfolding p by auto
  then show thesis using that [OF h] s by blast
qed

text \<open>Where a write starts inside the transfer, on either side.\<close>

definition loc_start :: "unr_plan_create_para_t \<Rightarrow> nat \<Rightarrow> u64" where
  "loc_start p i = blk_offset (loc_blk_arr p ! i) + offset_at (loc_offset_arr p) i"

definition rmt_start :: "unr_plan_create_para_t \<Rightarrow> nat \<Rightarrow> u64" where
  "rmt_start p i = blk_offset (rmt_blk_arr p ! i) + offset_at (rmt_offset_arr p) i"

lemma stripe_wrt_simps [simp]:
  "loc_offset (stripe_wrt p i hs offs fs sizes j) = loc_start p i + div_plan_wrt_offset sizes ! j"
  "rmt_offset (stripe_wrt p i hs offs fs sizes j) = rmt_start p i + div_plan_wrt_offset sizes ! j"
  "dma_size (stripe_wrt p i hs offs fs sizes j) = sizes ! j"
  "loc_flag_add (stripe_wrt p i hs offs fs sizes j) = sig_add_arr sizes ! j"
  "rmt_flag_add (stripe_wrt p i hs offs fs sizes j) = sig_add_arr sizes ! j"
  "loc_flag_p (stripe_wrt p i hs offs fs sizes j) = fst fs"
  "rmt_flag_p (stripe_wrt p i hs offs fs sizes j) = snd fs"
  "loc_mem (stripe_wrt p i hs offs fs sizes j) = fst hs + unat (offs ! j)"
  "rmt_mem (stripe_wrt p i hs offs fs sizes j) = snd hs + unat (offs ! j)"
  by (simp_all add: stripe_wrt_def loc_start_def rmt_start_def split: prod.splits)

section \<open>A process to try the properties on\<close>

text \<open>Rank 1 of two, on one node, with one handle of each rank exchanged.\<close>

definition blk_head :: "u64 \<Rightarrow> int \<Rightarrow> unr_mem_t" where
  "blk_head a r = \<lparr>m_addr = a, m_size = 65536, m_rank = r, m_idx = 0\<rparr>"

definition blk_channels :: unr_channels_t where
  "blk_channels = (the (unr_channels mem_example))\<lparr>loc_mem_arr := [1000], rmt_mem_arr := [[1024], [1048]]\<rparr>"

definition blk_example :: "uri_mpi_state unr_base_state" where
  "blk_example = mem_example\<lparr>uri := (uri mem_example)\<lparr>mems := [1000 \<mapsto> blk_head 4096 1, 1024 \<mapsto> blk_head 8192 0, 1048 \<mapsto> blk_head 4096 1]\<rparr>,
     unr_channels := Some blk_channels, recv_buf := [1024, 1048], u_brk := 1072\<rparr>"

definition blk_para :: unr_plan_create_para_t where
  "blk_para = \<lparr>need_current_load = False, once_now = False, num_sends = 1,
     loc_blk_arr = [\<lparr>blk_dst_rank = 1, blk_mem_idx = 0, blk_offset = 64, blk_size = 9000, blk_send_flag_p = 0, blk_recv_flag_p = 0\<rparr>],
     loc_sig_arr = None, loc_offset_arr = None, size_arr = None,
     rmt_blk_arr = [\<lparr>blk_dst_rank = 0, blk_mem_idx = 0, blk_offset = 128, blk_size = 9000, blk_send_flag_p = 0, blk_recv_flag_p = 0\<rparr>],
     rmt_sig_arr = None, rmt_offset_arr = None, dma_type_arr = URU_TRANSFER_TYPE_DMA_PUT_ALL\<rparr>"

lemma blk_example_channels: "unr_channels blk_example = Some blk_channels"
  by (simp add: blk_example_def)

lemma blk_channels_simps [simp]:
  "inter_channels blk_channels = [0]" "intra_channels blk_channels = [0]" "loc_mem_arr blk_channels = [1000]"
  "rmt_mem_arr blk_channels = [[1024], [1048]]" "unr_mem_t_size blk_channels = 24"
  "node_channels blk_channels same = [0]"
  by (simp_all add: blk_channels_def mem_example_def node_channels_def)

lemma blk_example_mpi: "uru_mpi (uri blk_example) = example_mpi"
  by (simp add: blk_example_def mem_example_def queue_example_state_def)

lemma blk_example_ok: "handles_ok blk_example"
proof -
  have m: "unr_channels mem_example = Some (the (unr_channels mem_example))" by (simp add: mem_example_def)
  have "channels_ok blk_example"
    by (rule channels_ok_cong [OF _ m, where la = "[1000]" and ra = "[[1024], [1048]]"])
      (use handles_okD(1) [OF mem_example_ok m] in \<open>simp_all add: blk_example_def blk_channels_def\<close>)
  moreover have "modules_ok (registry blk_example)"
    using handles_okD(2) [OF mem_example_ok m] by (simp add: blk_example_def)
  moreover have "mems (uri blk_example) = [1000 \<mapsto> blk_head 4096 1, 1024 \<mapsto> blk_head 8192 0, 1048 \<mapsto> blk_head 4096 1]"
      "u_brk blk_example = 1072" "recv_buf blk_example = [1024, 1048]"
    by (simp_all add: blk_example_def)
  moreover have "spaced 24 1072 [1000 \<mapsto> blk_head 4096 1, 1024 \<mapsto> blk_head 8192 0, 1048 \<mapsto> blk_head 4096 1]"
    by (auto simp: spaced_def split: if_splits)
  ultimately show ?thesis
    unfolding handles_ok_def blk_example_channels blk_example_mpi
    by (simp add: example_mpi_def head_is_def blk_head_def less_2_cases_iff nth_Cons')
qed

lemma blk_example_class: "class_ok blk_channels same"
  using channels_ok_class [OF handles_okD(1) [OF blk_example_ok blk_example_channels] blk_example_channels] .

lemma blk_example_turn: "turn_ok blk_channels (0, 0)"
  by (simp add: turn_ok_def)

lemma blk_example_handles:
  "send_handles blk_channels example_mpi (loc_blk_arr blk_para ! 0) (rmt_blk_arr blk_para ! 0) = Inr (1000, 1024, True)"
  by (simp add: send_handles_def blk_para_def example_mpi_def)

lemma blk_example_send:
  "\<exists>w nx. plan_send blk_channels example_mpi blk_para 9000 0 (0, 0) = Inr ([(1, URU_TRANSFER_TYPE_DMA_PUT, w)], nx)"
proof -
  have f: "send_flag r (map_option g None) b = Inr b" for r b and g :: "'x \<Rightarrow> unr_sig_t" by (simp add: send_flag_def)
  obtain sizes nx where s: "length sizes = 1" "sum_list sizes = 9000"
    and p: "plan_send blk_channels example_mpi blk_para 9000 0 (0, 0) = Inr (map (\<lambda>j. (plan_no blk_channels True j,
      type_arr (num_sends blk_para) (dma_type_arr blk_para) ! 0,
      stripe_wrt blk_para 0 (1000, 1024) (node_offsets blk_channels True) (0, 0) sizes j))
      (filter (\<lambda>j. sizes ! j \<noteq> 0) [0..<length sizes]), nx)"
    using plan_send_steps [OF blk_example_class blk_example_class blk_example_turn blk_example_handles refl refl, of 9000]
    by (auto simp: blk_para_def send_flag_def type_arr_def)
  obtain x where "sizes = [x]" using s(1) by (metis One_nat_def length_0_conv length_Suc_conv)
  then show ?thesis using s(2) p by (simp add: plan_no_def blk_para_def type_arr_def)
qed

lemma blk_example_wrts: "\<exists>w. plan_wrts blk_channels example_mpi blk_para = Inr [[], [(URU_TRANSFER_TYPE_DMA_PUT, w)]]"
proof -
  obtain w nx where p: "plan_send blk_channels example_mpi blk_para 9000 0 (0, 0) = Inr ([(1, URU_TRANSFER_TYPE_DMA_PUT, w)], nx)"
    using blk_example_send by blast
  have "plan_sizes blk_para = Inr [9000]" "num_sends blk_para = 1" by (simp_all add: plan_sizes_def blk_para_def)
  moreover have "plan_count blk_channels = Suc (Suc 0)" by (simp add: plan_count_def)
  moreover have "9000 \<noteq> (0 :: u64)" by simp
  ultimately show ?thesis using p by (simp add: plan_wrts_def plan_step_def put_wrt_def)
qed

section \<open>The properties of one transfer\<close>

text \<open>
  C7. The writes that one transfer becomes move every byte of the transfer exactly once, to the place
  at the same distance from the start of the transfer on the other side, through different plans of
  channels, and what they add to the two signals is one event on each.
\<close>

theorem transfer_moves_every_byte_once:
  assumes "channels_ok s" "unr_channels s = Some uc" "turn_ok uc nx"
    and "plan_send uc mpi p sz i nx = Inr (ws, nx')" "sz \<noteq> 0"
  shows "(\<forall>k < unat sz. \<exists>!x. x \<in> set ws \<and> unat (loc_offset (snd (snd x)) - loc_start p i) \<le> k \<and>
      k < unat (loc_offset (snd (snd x)) - loc_start p i) + unat (dma_size (snd (snd x)))) \<and>
    (\<forall>x \<in> set ws. rmt_offset (snd (snd x)) - rmt_start p i = loc_offset (snd (snd x)) - loc_start p i) \<and>
    sum_list (map (\<lambda>x. loc_flag_add (snd (snd x))) ws) = - 1 \<and>
    sum_list (map (\<lambda>x. rmt_flag_add (snd (snd x))) ws) = - 1 \<and>
    distinct (map fst ws) \<and> turn_ok uc nx'"
proof -
  note cls = channels_ok_class [OF assms(1,2)]
  obtain loc_h rmt_h same lf rf sizes where nx: "turn_ok uc nx'" and sum: "sum_list sizes = sz"
    and tile: "\<forall>k < unat sz. \<exists>!j. j < length sizes \<and> unat (div_plan_wrt_offset sizes ! j) \<le> k \<and>
        k < unat (div_plan_wrt_offset sizes ! j) + unat (sizes ! j)"
    and ws: "ws = map (\<lambda>j. (plan_no uc same j, type_arr (num_sends p) (dma_type_arr p) ! i,
              stripe_wrt p i (loc_h, rmt_h) (node_offsets uc same) (lf, rf) sizes j))
            (filter (\<lambda>j. sizes ! j \<noteq> 0) [0..<length sizes])"
    by (rule plan_send_Inr [OF cls cls assms(3,4)])
  let ?w = "\<lambda>j. (plan_no uc same j, type_arr (num_sends p) (dma_type_arr p) ! i,
    stripe_wrt p i (loc_h, rmt_h) (node_offsets uc same) (lf, rf) sizes j)"
  have "\<exists>!x. x \<in> set ws \<and> unat (loc_offset (snd (snd x)) - loc_start p i) \<le> k \<and>
      k < unat (loc_offset (snd (snd x)) - loc_start p i) + unat (dma_size (snd (snd x)))" if k: "k < unat sz" for k
  proof -
    obtain j where j: "j < length sizes" "unat (div_plan_wrt_offset sizes ! j) \<le> k"
        "k < unat (div_plan_wrt_offset sizes ! j) + unat (sizes ! j)"
      and only: "\<And>j'. j' < length sizes \<Longrightarrow> unat (div_plan_wrt_offset sizes ! j') \<le> k \<Longrightarrow>
        k < unat (div_plan_wrt_offset sizes ! j') + unat (sizes ! j') \<Longrightarrow> j' = j"
      using tile k by blast
    show ?thesis
    proof (rule ex1I [of _ "?w j"])
      have "sizes ! j \<noteq> 0" using j by auto
      then show "?w j \<in> set ws \<and> unat (loc_offset (snd (snd (?w j))) - loc_start p i) \<le> k \<and>
          k < unat (loc_offset (snd (snd (?w j))) - loc_start p i) + unat (dma_size (snd (snd (?w j))))"
        using j by (auto simp: ws)
    next
      fix x assume x: "x \<in> set ws \<and> unat (loc_offset (snd (snd x)) - loc_start p i) \<le> k \<and>
        k < unat (loc_offset (snd (snd x)) - loc_start p i) + unat (dma_size (snd (snd x)))"
      then obtain j' where "j' < length sizes" "x = ?w j'" by (auto simp: ws)
      then show "x = ?w j" using x only [of j'] by simp
    qed
  qed
  moreover have "sum_list (map (\<lambda>x. loc_flag_add (snd (snd x))) ws) = - 1" "sum_list (map (\<lambda>x. rmt_flag_add (snd (snd x))) ws) = - 1"
    using sig_add_nonempty [of sizes] sum assms(5) by (simp_all add: ws comp_def)
  moreover have "distinct (map fst ws)" by (simp add: ws comp_def distinct_map inj_on_def plan_no_inj)
  moreover have "rmt_offset (snd (snd x)) - rmt_start p i = loc_offset (snd (snd x)) - loc_start p i" if "x \<in> set ws" for x
    using that by (auto simp: ws)
  ultimately show ?thesis using nx by blast
qed

theorem transfer_moves_every_byte_once_witness:
  "\<exists>ws nx. plan_send blk_channels example_mpi blk_para 9000 0 (0, 0) = Inr (ws, nx) \<and>
     sum_list (map (\<lambda>x. loc_flag_add (snd (snd x))) ws) = - 1"
proof -
  obtain w nx where p: "plan_send blk_channels example_mpi blk_para 9000 0 (0, 0) = Inr ([(1, URU_TRANSFER_TYPE_DMA_PUT, w)], nx)"
    using blk_example_send by blast
  have "channels_ok blk_example" by (rule handles_okD(1) [OF blk_example_ok blk_example_channels])
  from transfer_moves_every_byte_once [OF this blk_example_channels blk_example_turn p] p show ?thesis by auto
qed

section \<open>All transfers of a plan\<close>

lemma put_wrts:
  assumes "distinct (map fst ws)" "\<forall>k \<in> fst ` set ws. k < length wrts \<and> length (wrts ! k) < n"
  shows "\<exists>wrts'. fold_res (put_wrt n) ws wrts = Inr wrts' \<and> length wrts' = length wrts \<and>
    (\<forall>k < length wrts. wrts' ! k = wrts ! k @ (case map_of ws k of None \<Rightarrow> [] | Some w \<Rightarrow> [w]))"
  using assms
proof (induction ws arbitrary: wrts)
  case (Cons x ws)
  obtain k w where x: "x = (k, w)" by (cases x)
  let ?wrts = "wrts[k := wrts ! k @ [w]]"
  have k: "k < length wrts" "length (wrts ! k) < n" "k \<notin> fst ` set ws" using Cons.prems by (auto simp: x)
  then have 1: "put_wrt n x wrts = Inr ?wrts" by (simp add: put_wrt_def x)
  have "\<forall>i \<in> fst ` set ws. i < length ?wrts \<and> length (?wrts ! i) < n"
  proof
    fix i assume "i \<in> fst ` set ws"
    then have "i \<noteq> k" "i < length wrts \<and> length (wrts ! i) < n" using Cons.prems(2) k(3) by auto
    then show "i < length ?wrts \<and> length (?wrts ! i) < n" by simp
  qed
  moreover have "distinct (map fst ws)" using Cons.prems(1) by simp
  ultimately obtain wrts' where 2: "fold_res (put_wrt n) ws ?wrts = Inr wrts'" "length wrts' = length ?wrts"
      "\<forall>i < length ?wrts. wrts' ! i = ?wrts ! i @ (case map_of ws i of None \<Rightarrow> [] | Some w \<Rightarrow> [w])"
    using Cons.IH by blast
  have "map_of ws k = None" using k(3) by (simp add: map_of_eq_None_iff)
  then have "wrts' ! i = wrts ! i @ (case map_of (x # ws) i of None \<Rightarrow> [] | Some w \<Rightarrow> [w])" if "i < length wrts" for i
    using 2(3) that by (cases "i = k") (simp_all add: x)
  then show ?case using 1 2 by simp
qed simp

text \<open>Where a write of plan \<open>k\<close> comes from, and which part of its transfer it is.\<close>

definition from_send ::
  "unr_channels_t \<Rightarrow> uru_mpi_t \<Rightarrow> unr_plan_create_para_t \<Rightarrow> u64 list \<Rightarrow> nat \<Rightarrow> uru_transfer_t \<times> uri_wrt \<Rightarrow> bool" where
  "from_send uc mpi p sizes k x \<longleftrightarrow> (\<exists>i < num_sends p. \<exists>loc_h rmt_h same. \<exists>j < length (node_channels uc same). \<exists>off.
     send_handles uc mpi (loc_blk_arr p ! i) (rmt_blk_arr p ! i) = Inr (loc_h, rmt_h, same) \<and> k = plan_no uc same j \<and>
     fst x = type_arr (num_sends p) (dma_type_arr p) ! i \<and>
     loc_mem (snd x) = loc_h + unat (node_offsets uc same ! j) \<and> rmt_mem (snd x) = rmt_h + unat (node_offsets uc same ! j) \<and>
     loc_offset (snd x) = loc_start p i + off \<and> rmt_offset (snd x) = rmt_start p i + off \<and>
     unat off + unat (dma_size (snd x)) \<le> unat (sizes ! i))"

definition wrts_ok ::
  "unr_channels_t \<Rightarrow> uru_mpi_t \<Rightarrow> unr_plan_create_para_t \<Rightarrow> u64 list \<Rightarrow> nat \<Rightarrow> (uru_transfer_t \<times> uri_wrt) list list \<Rightarrow> bool" where
  "wrts_ok uc mpi p sizes m wrts \<longleftrightarrow> length wrts = length (inter_channels uc) + length (intra_channels uc) \<and>
     (\<forall>k < length wrts. length (wrts ! k) \<le> m \<and> (\<forall>x \<in> set (wrts ! k). from_send uc mpi p sizes k x))"

lemma plan_step_ok:
  assumes "class_ok uc False" "class_ok uc True" "turn_ok uc nx" "wrts_ok uc mpi p sizes i wrts" "i < num_sends p"
  shows "case plan_step uc mpi p sizes i (wrts, nx) of
      Inr (wrts', nx') \<Rightarrow> wrts_ok uc mpi p sizes (Suc i) wrts' \<and> turn_ok uc nx'
    | Inl e \<Rightarrow> plan_send uc mpi p (sizes ! i) i nx = Inl e"
proof (cases "sizes ! i = 0")
  case True
  have "wrts_ok uc mpi p sizes (Suc i) wrts" using assms(4) unfolding wrts_ok_def by (meson le_SucI)
  then show ?thesis using assms(3) True by (simp add: plan_step_def)
next
  case False
  show ?thesis
  proof (cases "plan_send uc mpi p (sizes ! i) i nx")
    case (Inl e)
    then show ?thesis using False by (simp add: plan_step_def)
  next
    case (Inr r)
    obtain ws nx' where r: "r = (ws, nx')" by (cases r)
    note snd_ok = Inr [unfolded r]
    obtain loc_h rmt_h same lf rf szs where h: "send_handles uc mpi (loc_blk_arr p ! i) (rmt_blk_arr p ! i) = Inr (loc_h, rmt_h, same)"
      and nx': "turn_ok uc nx'" and len: "length szs = length (node_channels uc same)"
      and fits: "\<forall>j < length szs. unat (div_plan_wrt_offset szs ! j) + unat (szs ! j) \<le> unat (sizes ! i)"
      and ws: "ws = map (\<lambda>j. (plan_no uc same j, type_arr (num_sends p) (dma_type_arr p) ! i,
              stripe_wrt p i (loc_h, rmt_h) (node_offsets uc same) (lf, rf) szs j))
            (filter (\<lambda>j. szs ! j \<noteq> 0) [0..<length szs])"
      by (rule plan_send_Inr [OF assms(1-3) snd_ok])
    have w: "\<exists>j. x = (plan_no uc same j, type_arr (num_sends p) (dma_type_arr p) ! i, stripe_wrt p i (loc_h, rmt_h) (node_offsets uc same) (lf, rf) szs j) \<and>
        j < length (node_channels uc same)" if "x \<in> set ws" for x
      using that len by (auto simp: ws)
    have "distinct (map fst ws)" by (simp add: ws comp_def distinct_map inj_on_def plan_no_inj)
    moreover have "\<forall>k \<in> fst ` set ws. k < length wrts \<and> length (wrts ! k) < num_sends p"
    proof
      fix k assume "k \<in> fst ` set ws"
      then obtain j where "k = plan_no uc same j" "j < length (node_channels uc same)" using w by force
      then have k: "k < length wrts" using plan_no_less assms(4) by (simp add: wrts_ok_def)
      moreover have "length (wrts ! k) \<le> i" using k assms(4) by (simp add: wrts_ok_def)
      ultimately show "k < length wrts \<and> length (wrts ! k) < num_sends p" using assms(5) by simp
    qed
    ultimately obtain wrts' where put: "fold_res (put_wrt (num_sends p)) ws wrts = Inr wrts'" "length wrts' = length wrts"
        "\<forall>k < length wrts. wrts' ! k = wrts ! k @ (case map_of ws k of None \<Rightarrow> [] | Some w \<Rightarrow> [w])"
      using put_wrts by blast
    have "length (wrts' ! k) \<le> Suc i \<and> (\<forall>x \<in> set (wrts' ! k). from_send uc mpi p sizes k x)" if k: "k < length wrts" for k
    proof (cases "map_of ws k")
      case None
      then have "wrts' ! k = wrts ! k" using put(3) k by simp
      then show ?thesis using assms(4) k by (simp add: wrts_ok_def le_SucI)
    next
      case (Some v)
      then obtain j where j: "(k, v) = (plan_no uc same j, type_arr (num_sends p) (dma_type_arr p) ! i, stripe_wrt p i (loc_h, rmt_h) (node_offsets uc same) (lf, rf) szs j)"
          "j < length (node_channels uc same)"
        using w [OF map_of_SomeD [OF Some]] by blast
      have "from_send uc mpi p sizes k v"
        unfolding from_send_def using h j assms(5) fits len
        by (intro exI [of _ i] conjI exI [of _ loc_h] exI [of _ rmt_h] exI [of _ same] exI [of _ j]
            exI [of _ "div_plan_wrt_offset szs ! j"]) simp_all
      moreover have "wrts' ! k = wrts ! k @ [v]" using put(3) k Some by simp
      ultimately show ?thesis using assms(4) k by (simp add: wrts_ok_def)
    qed
    then have "wrts_ok uc mpi p sizes (Suc i) wrts'" using put(2) assms(4) by (simp add: wrts_ok_def)
    then show ?thesis using False snd_ok put(1) nx' by (simp add: plan_step_def)
  qed
qed

lemma plan_steps_ok:
  assumes "class_ok uc False" "class_ok uc True" "length (inter_channels uc) + length (intra_channels uc) < 256"
  shows "m \<le> num_sends p \<Longrightarrow>
    case fold_res (plan_step uc mpi p sizes) [0..<m] (replicate (plan_count uc) [], 0, 0) of
      Inr (wrts, nx) \<Rightarrow> wrts_ok uc mpi p sizes m wrts \<and> turn_ok uc nx
    | Inl e \<Rightarrow> \<exists>i < num_sends p. \<exists>nx. turn_ok uc nx \<and> plan_send uc mpi p (sizes ! i) i nx = Inl e"
proof (induction m)
  case 0
  have "node_blk uc False \<noteq> []" "node_blk uc True \<noteq> []" using assms(1,2) by (simp_all add: class_ok_def blk_ok_def)
  then have "node_channels uc False \<noteq> []" "node_channels uc True \<noteq> []"
    using assms(1,2) unfolding class_ok_def by (metis length_0_conv)+
  then have "turn_ok uc (0, 0)" by (simp add: turn_ok_def)
  moreover have "wrts_ok uc mpi p sizes 0 (replicate (plan_count uc) [])" using assms(3) by (simp add: wrts_ok_def plan_count_def)
  ultimately show ?case by simp
next
  case (Suc m)
  let ?f = "fold_res (plan_step uc mpi p sizes) [0..<m] (replicate (plan_count uc) [], 0, 0)"
  show ?case
  proof (cases ?f)
    case (Inl e)
    then show ?thesis using Suc by (simp add: fold_res_append)
  next
    case (Inr r)
    obtain wrts nx where r: "r = (wrts, nx)" by (cases r)
    have inv: "wrts_ok uc mpi p sizes m wrts" "turn_ok uc nx" using Suc Inr by (simp_all add: r)
    have m: "m < num_sends p" using Suc.prems by simp
    have "fold_res (plan_step uc mpi p sizes) [0..<Suc m] (replicate (plan_count uc) [], 0, 0) =
        plan_step uc mpi p sizes m (wrts, nx)"
      using Inr by (cases "plan_step uc mpi p sizes m (wrts, nx)") (simp_all add: fold_res_append r)
    moreover note step = plan_step_ok [OF assms(1,2) inv(2,1) m]
    ultimately show ?thesis
    proof (cases "plan_step uc mpi p sizes m (wrts, nx)")
      case (Inl e)
      then have "plan_send uc mpi p (sizes ! m) m nx = Inl e" using step by simp
      then have "\<exists>i < num_sends p. \<exists>nx. turn_ok uc nx \<and> plan_send uc mpi p (sizes ! i) i nx = Inl e"
        using inv(2) m by blast
      moreover assume "fold_res (plan_step uc mpi p sizes) [0..<Suc m] (replicate (plan_count uc) [], 0, 0) =
        plan_step uc mpi p sizes m (wrts, nx)"
      ultimately show ?thesis unfolding Inl by simp
    qed simp
  qed
qed

lemma plan_wrts_Inr:
  assumes "channels_ok s" "unr_channels s = Some uc" "length (inter_channels uc) + length (intra_channels uc) < 256"
    and "plan_wrts uc mpi p = Inr wrts"
  obtains sizes where "plan_sizes p = Inr sizes" "wrts_ok uc mpi p sizes (num_sends p) wrts"
proof -
  obtain sizes nx where sz: "plan_sizes p = Inr sizes" and f: "fold_res (plan_step uc mpi p sizes) [0..<num_sends p] (replicate (plan_count uc) [], 0, 0) = Inr (wrts, nx)"
    using assms(4) by (auto simp: plan_wrts_def)
  show thesis
    using plan_steps_ok [OF channels_ok_class [OF assms(1,2)] channels_ok_class [OF assms(1,2)] assms(3) order_refl, of p mpi sizes] f
    by (intro that [OF sz]) simp
qed

lemma plan_send_Inl:
  assumes "class_ok uc False" "class_ok uc True" "turn_ok uc nx" "plan_send uc mpi p sz i nx = Inl e"
  shows "e = Exit URU_ASSERT_EXIT \<or> send_handles uc mpi (loc_blk_arr p ! i) (rmt_blk_arr p ! i) = Inl e"
proof (cases "send_handles uc mpi (loc_blk_arr p ! i) (rmt_blk_arr p ! i)")
  case (Inl e')
  then show ?thesis using assms(4) by (simp add: plan_send_def Let_def)
next
  case (Inr h)
  obtain loc_h rmt_h same where h: "h = (loc_h, rmt_h, same)" by (cases h)
  have flag: "send_flag r sg b = Inl e' \<Longrightarrow> e' = Exit URU_ASSERT_EXIT" for r sg b e'
    by (auto simp: send_flag_def uru_assert_def split: option.splits if_splits)
  from plan_send_steps [OF assms(1-3) Inr [unfolded h] refl refl, of sz] have "e = Exit URU_ASSERT_EXIT"
    unfolding assms(4)
  proof (elim exE conjE, goal_cases)
    case (1 sizes nx')
    from 1(6) [symmetric] show ?thesis
      unfolding res_bind_eq_Inl by (elim disjE exE conjE) (erule flag | simp)+
  qed
  then show ?thesis ..
qed

text \<open>
  C29. Sorting the writes of all transfers into the plans of the channels ends, never divides by zero
  and never overruns an array: a plan gets at most one write per transfer. It fails only by an
  assertion or because the blocks of a transfer name no known handle.
\<close>

theorem plan_arrays_suffice:
  assumes "channels_ok s" "unr_channels s = Some uc" "length (inter_channels uc) + length (intra_channels uc) < 256"
  shows "case plan_wrts uc mpi p of
      Inr wrts \<Rightarrow> length wrts = length (inter_channels uc) + length (intra_channels uc) \<and> (\<forall>ws \<in> set wrts. length ws \<le> num_sends p)
    | Inl e \<Rightarrow> e = Exit URU_ASSERT_EXIT \<or> (\<exists>i < num_sends p. send_handles uc mpi (loc_blk_arr p ! i) (rmt_blk_arr p ! i) = Inl e)"
proof (cases "plan_wrts uc mpi p")
  case (Inr wrts)
  obtain sizes where "wrts_ok uc mpi p sizes (num_sends p) wrts" by (rule plan_wrts_Inr [OF assms Inr])
  then show ?thesis using Inr by (fastforce simp: wrts_ok_def in_set_conv_nth)
next
  case (Inl e)
  note cls = channels_ok_class [OF assms(1,2)]
  show ?thesis
  proof (cases "e = Exit URU_ASSERT_EXIT")
    case False
    then obtain sizes where "fold_res (plan_step uc mpi p sizes) [0..<num_sends p] (replicate (plan_count uc) [], 0, 0) = Inl e"
      using Inl by (auto simp: plan_wrts_def plan_sizes_def res_bind_eq_Inl uru_assert_def split: if_splits option.splits)
    then obtain i nx where i: "i < num_sends p" "turn_ok uc nx" "plan_send uc mpi p (sizes ! i) i nx = Inl e"
      using plan_steps_ok [OF cls cls assms(3) order_refl, of p mpi sizes] by auto
    then show ?thesis using plan_send_Inl [OF cls cls i(2,3)] False Inl by auto
  qed (simp add: Inl)
qed

theorem plan_arrays_suffice_witness:
  "\<exists>wrts. plan_wrts blk_channels example_mpi blk_para = Inr wrts \<and> length wrts = 2 \<and> (\<forall>ws \<in> set wrts. length ws \<le> 1)"
proof -
  obtain w where w: "plan_wrts blk_channels example_mpi blk_para = Inr [[], [(URU_TRANSFER_TYPE_DMA_PUT, w)]]"
    using blk_example_wrts by blast
  have "channels_ok blk_example" by (rule handles_okD(1) [OF blk_example_ok blk_example_channels])
  from plan_arrays_suffice [OF this blk_example_channels, where mpi = example_mpi and p = blk_para] w show ?thesis
    by (simp add: blk_para_def)
qed

text \<open>The handles of a transfer, and what a channel of its class reads from its parts of them.\<close>

lemma send_handles_resolve:
  assumes "handles_ok s" "unr_channels s = Some uc" "send_handles uc (uru_mpi (uri s)) lb rb = Inr (loc_h, rmt_h, same)"
  obtains loc rmt where "blk_dst_rank lb = mpi_rank (uru_mpi (uri s))"
    "mems (uri s) (loc_mem_arr uc ! nat (blk_mem_idx lb)) = Some loc" "m_idx loc = blk_mem_idx lb"
    "mems (uri s) (rmt_mem_arr uc ! nat (blk_dst_rank rb) ! nat (blk_mem_idx rb)) = Some rmt" "m_idx rmt = blk_mem_idx rb"
    "0 \<le> blk_dst_rank rb" "nat (blk_dst_rank rb) < length (rmt_mem_arr uc)"
    "\<forall>j < length (node_channels uc same). uri_mem_get_info (mems (uri s))
      (hdr (registry s ! plan_channel uc (plan_no uc same j))) (loc_h + unat (node_offsets uc same ! j)) =
      Inr (m_addr loc, m_size loc, mpi_rank (uru_mpi (uri s)))"
    "\<forall>j < length (node_channels uc same). uri_mem_get_info (mems (uri s))
      (hdr (registry s ! plan_channel uc (plan_no uc same j))) (rmt_h + unat (node_offsets uc same ! j)) =
      Inr (m_addr rmt, m_size rmt, blk_dst_rank rb)"
proof -
  note ok = handles_okD [OF assms(1,2)]
  have b: "blk_dst_rank lb = mpi_rank (uru_mpi (uri s))" "0 \<le> blk_dst_rank rb" "nat (blk_dst_rank rb) < length (rmt_mem_arr uc)"
      "0 \<le> blk_mem_idx lb" "nat (blk_mem_idx lb) < length (loc_mem_arr uc)" "0 \<le> blk_mem_idx rb"
      "nat (blk_mem_idx rb) < length (rmt_mem_arr uc ! nat (blk_dst_rank rb))"
      "loc_h = loc_mem_arr uc ! nat (blk_mem_idx lb)" "rmt_h = rmt_mem_arr uc ! nat (blk_dst_rank rb) ! nat (blk_mem_idx rb)"
    using assms(3) by (auto simp: send_handles_def Let_def split: if_splits)
  obtain loc where l: "mems (uri s) loc_h = Some loc" "m_rank loc = mpi_rank (uru_mpi (uri s))" "m_idx loc = blk_mem_idx lb"
    using ok(4) [OF b(5)] b(4,8) by (auto simp: head_is_def)
  obtain rmt where r: "mems (uri s) rmt_h = Some rmt" "m_rank rmt = blk_dst_rank rb" "m_idx rmt = blk_mem_idx rb"
    using ok(6) [OF b(3,7)] b(2,6,9) by (auto simp: head_is_def)
  have off: "node_offsets uc same ! j = mem_h_offset (hdr (registry s ! plan_channel uc (plan_no uc same j)))"
    if "j < length (node_channels uc same)" for j
    using that channels_ok_offsets [OF ok(1) assms(2), of same] by (simp add: plan_no_channel offset_of_def)
  show thesis
    using b l r mem_get_info_handle [where heads = "mems (uri s)" and p = loc_h and m = loc]
      mem_get_info_handle [where heads = "mems (uri s)" and p = rmt_h and m = rmt]
    by (intro that [of loc rmt]) (simp_all add: off)
qed

lemma plan_write_part:
  assumes "handles_ok s" "unr_channels s = Some uc" "length (inter_channels uc) + length (intra_channels uc) < 256"
    and "plan_wrts uc (uru_mpi (uri s)) p = Inr wrts" "k < length wrts" "(t, w) \<in> set (wrts ! k)"
  obtains sizes i loc rmt off where "plan_sizes p = Inr sizes" "i < num_sends p"
    "blk_dst_rank (loc_blk_arr p ! i) = mpi_rank (uru_mpi (uri s))"
    "mems (uri s) (loc_mem_arr uc ! nat (blk_mem_idx (loc_blk_arr p ! i))) = Some loc"
    "m_idx loc = blk_mem_idx (loc_blk_arr p ! i)"
    "mems (uri s) (rmt_mem_arr uc ! nat (blk_dst_rank (rmt_blk_arr p ! i)) ! nat (blk_mem_idx (rmt_blk_arr p ! i))) = Some rmt"
    "m_idx rmt = blk_mem_idx (rmt_blk_arr p ! i)"
    "uri_mem_get_info (mems (uri s)) (hdr (registry s ! plan_channel uc k)) (loc_mem w) =
      Inr (m_addr loc, m_size loc, mpi_rank (uru_mpi (uri s)))"
    "uri_mem_get_info (mems (uri s)) (hdr (registry s ! plan_channel uc k)) (rmt_mem w) =
      Inr (m_addr rmt, m_size rmt, blk_dst_rank (rmt_blk_arr p ! i))"
    "t = type_arr (num_sends p) (dma_type_arr p) ! i"
    "loc_offset w = loc_start p i + off" "rmt_offset w = rmt_start p i + off"
    "unat off + unat (dma_size w) \<le> unat (sizes ! i)"
    "0 \<le> blk_dst_rank (rmt_blk_arr p ! i)" "nat (blk_dst_rank (rmt_blk_arr p ! i)) < length (rmt_mem_arr uc)"
proof -
  note ok = handles_okD [OF assms(1,2)]
  obtain sizes where sz: "plan_sizes p = Inr sizes" and "wrts_ok uc (uru_mpi (uri s)) p sizes (num_sends p) wrts"
    by (rule plan_wrts_Inr [OF ok(1) assms(2-4)])
  then have "from_send uc (uru_mpi (uri s)) p sizes k (t, w)" using assms(5,6) by (simp add: wrts_ok_def)
  then obtain i loc_h rmt_h same j off where i: "i < num_sends p" "j < length (node_channels uc same)"
      and h: "send_handles uc (uru_mpi (uri s)) (loc_blk_arr p ! i) (rmt_blk_arr p ! i) = Inr (loc_h, rmt_h, same)"
      and k: "k = plan_no uc same j" "loc_mem w = loc_h + unat (node_offsets uc same ! j)"
        "rmt_mem w = rmt_h + unat (node_offsets uc same ! j)"
      and part: "t = type_arr (num_sends p) (dma_type_arr p) ! i" "loc_offset w = loc_start p i + off"
        "rmt_offset w = rmt_start p i + off" "unat off + unat (dma_size w) \<le> unat (sizes ! i)"
    unfolding from_send_def fst_conv snd_conv by blast
  show thesis
    by (rule send_handles_resolve [OF assms(1,2) h], rule that [OF sz i(1) _ _ _ _ _ _ _ part])
      (use i(2) in \<open>simp_all add: k\<close>)
qed

text \<open>
  C10. In every plan each write names, to the channel that will run it, parts of two handles from
  which that channel finds the memory of the local block, owned by this process, and the memory of
  the remote block, owned by the block's process.
\<close>

theorem plan_writes_resolve:
  assumes "handles_ok s" "unr_channels s = Some uc" "length (inter_channels uc) + length (intra_channels uc) < 256"
    and "plan_wrts uc (uru_mpi (uri s)) p = Inr wrts" "k < length wrts" "(t, w) \<in> set (wrts ! k)"
  shows "\<exists>i < num_sends p. \<exists>loc rmt. let lb = loc_blk_arr p ! i; rb = rmt_blk_arr p ! i;
        ch = hdr (registry s ! plan_channel uc k) in
      blk_dst_rank lb = mpi_rank (uru_mpi (uri s)) \<and>
      mems (uri s) (loc_mem_arr uc ! nat (blk_mem_idx lb)) = Some loc \<and> m_idx loc = blk_mem_idx lb \<and>
      mems (uri s) (rmt_mem_arr uc ! nat (blk_dst_rank rb) ! nat (blk_mem_idx rb)) = Some rmt \<and> m_idx rmt = blk_mem_idx rb \<and>
      uri_mem_get_info (mems (uri s)) ch (loc_mem w) = Inr (m_addr loc, m_size loc, mpi_rank (uru_mpi (uri s))) \<and>
      uri_mem_get_info (mems (uri s)) ch (rmt_mem w) = Inr (m_addr rmt, m_size rmt, blk_dst_rank rb)"
  by (rule plan_write_part [OF assms]) (auto simp: Let_def)

theorem plan_writes_resolve_witness:
  "\<exists>w (loc :: unr_mem_t). plan_wrts blk_channels example_mpi blk_para = Inr [[], [(URU_TRANSFER_TYPE_DMA_PUT, w)]] \<and>
     uri_mem_get_info (mems (uri blk_example)) (hdr (registry blk_example ! 0)) (loc_mem w) = Inr (m_addr loc, m_size loc, 1)"
proof -
  obtain w where w: "plan_wrts blk_channels example_mpi blk_para = Inr [[], [(URU_TRANSFER_TYPE_DMA_PUT, w)]]"
    using blk_example_wrts by blast
  have c: "plan_channel blk_channels 1 = 0" by (simp add: plan_channel_def)
  have n: "length (inter_channels blk_channels) + length (intra_channels blk_channels) < 256" by simp
  have k: "1 < length [[], [(URU_TRANSFER_TYPE_DMA_PUT, w)]]"
      "(URU_TRANSFER_TYPE_DMA_PUT, w) \<in> set ([[], [(URU_TRANSFER_TYPE_DMA_PUT, w)]] ! 1)" by simp_all
  note r = plan_writes_resolve [OF blk_example_ok blk_example_channels n w [folded blk_example_mpi] k, unfolded Let_def c]
  obtain loc :: unr_mem_t where "uri_mem_get_info (mems (uri blk_example)) (hdr (registry blk_example ! 0)) (loc_mem w) =
      Inr (m_addr loc, m_size loc, mpi_rank (uru_mpi (uri blk_example)))"
    using r by blast
  with w show ?thesis by (auto simp: blk_example_mpi example_mpi_def)
qed

section \<open>Deferred plans and plans that run once\<close>

text \<open>The heap of plans plays no part in what the channels do.\<close>

definition with_heap :: "(addr \<Rightarrow> unr_plan_t option) \<Rightarrow> addr \<Rightarrow> 's unr_base_state \<Rightarrow> 's unr_base_state" where
  "with_heap P x s = s\<lparr>plans := P, u_brk := x\<rparr>"

lemma with_heap_simps [simp]:
  "uri (with_heap P x s) = uri s" "registry (with_heap P x s) = registry s" "unr_channels (with_heap P x s) = unr_channels s"
  "plans (with_heap P x s) = P" "u_brk (with_heap P x s) = x" "(with_heap P x s)\<lparr>uri := u\<rparr> = with_heap P x (s\<lparr>uri := u\<rparr>)"
  "with_heap P x (with_heap Q y s) = with_heap P x s"
  by (simp_all add: with_heap_def)

lemma create_uri_plan_heap:
  "create_uri_plan uc once k ws (with_heap P x s) =
     res_bind (create_uri_plan uc once k ws s) (\<lambda>(pl, ch, t). Inr (pl, ch, with_heap P x t))"
  by (cases "ws = []")
    (simp_all add: create_uri_plan_def res_bind_def split: sum.splits prod.splits)

lemma create_uri_plans_heap:
  "create_uri_plans uc once k wss (with_heap P x s) =
     res_bind (create_uri_plans uc once k wss s) (\<lambda>(pls, chs, t). Inr (pls, chs, with_heap P x t))"
proof (induction wss arbitrary: k s)
  case (Cons ws wss)
  show ?case
  proof (cases "create_uri_plan uc once k ws s")
    case (Inl e)
    then show ?thesis by (simp add: create_uri_plan_heap)
  next
    case (Inr r)
    then show ?thesis using Cons.IH [of "k + 1" "snd (snd r)"]
      by (cases r) (simp add: create_uri_plan_heap res_bind_def split: sum.splits prod.splits)
  qed
qed simp

lemma build_plan_heap:
  "build_plan p (with_heap P x s) = res_bind (build_plan p s) (\<lambda>(pl, t). Inr (pl, with_heap P x t))"
  by (simp add: build_plan_def create_uri_plans_heap res_bind_def split: option.splits sum.splits prod.splits)

lemma create_uri_plans_frame:
  "create_uri_plans uc once k wss s = Inr (pls, chs, t) \<Longrightarrow> t = s\<lparr>uri := uri t\<rparr>"
proof (induction wss arbitrary: k s pls chs)
  case (Cons ws wss)
  then obtain pl ch s1 pls1 chs1 where 1: "create_uri_plan uc once k ws s = Inr (pl, ch, s1)"
      "create_uri_plans uc once (k + 1) wss s1 = Inr (pls1, chs1, t)" by auto
  obtain u where "s1 = s\<lparr>uri := u\<rparr>"
    using 1(1) by (cases "ws = []") (auto simp: create_uri_plan_def intro: that [of "uri s"])
  moreover have "t = s1\<lparr>uri := uri t\<rparr>" by (rule Cons.IH [OF 1(2)])
  ultimately show ?case by (metis unr_base_state.update_convs(1) unr_base_state.surjective)
qed simp

lemma build_plan_frame:
  "build_plan p s = Inr (pl, t) \<Longrightarrow> t = s\<lparr>uri := uri t\<rparr> \<and> plan_status pl = 2"
  using create_uri_plans_frame by (auto simp: build_plan_def split: option.splits)

lemma build_plan_keeps:
  assumes "build_plan p s = Inr (pl, t)"
  shows "plans t = plans s" "u_brk t = u_brk s" "unr_channels t = unr_channels s" "registry t = registry s"
    "recv_buf t = recv_buf s" "plan_status pl = 2"
proof -
  obtain u where "t = s\<lparr>uri := u\<rparr>" using build_plan_frame [OF assms] by blast
  then show "plans t = plans s" "u_brk t = u_brk s" "unr_channels t = unr_channels s" "registry t = registry s"
    "recv_buf t = recv_buf s" by simp_all
qed (use build_plan_frame [OF assms] in blast)

lemma start_uri_plan_heap:
  "start_uri_plan pc (with_heap P x s) = res_bind (start_uri_plan pc s) (\<lambda>t. Inr (with_heap P x t))"
  by (cases pc) (simp add: start_uri_plan_def res_bind_def split: option.splits sum.splits prod.splits)

lemma start_uri_plans_heap:
  "fold_res start_uri_plan pcs (with_heap P x s) = res_bind (fold_res start_uri_plan pcs s) (\<lambda>t. Inr (with_heap P x t))"
proof (induction pcs arbitrary: s)
  case (Cons pc pcs)
  then show ?case
    by (cases "start_uri_plan pc s") (simp_all add: start_uri_plan_heap)
qed simp

lemma start_uri_plan_frame: "start_uri_plan pc s = Inr t \<Longrightarrow> t = s\<lparr>uri := uri t\<rparr>"
  by (auto simp: start_uri_plan_def split: prod.splits if_splits option.splits)

lemma start_uri_plans_frame: "fold_res start_uri_plan pcs s = Inr t \<Longrightarrow> t = s\<lparr>uri := uri t\<rparr>"
proof (induction pcs arbitrary: s)
  case (Cons pc pcs)
  then obtain s1 where 1: "start_uri_plan pc s = Inr s1" "fold_res start_uri_plan pcs s1 = Inr t" by auto
  show ?case using start_uri_plan_frame [OF 1(1)] Cons.IH [OF 1(2)]
    by (metis unr_base_state.update_convs(1) unr_base_state.surjective)
qed simp

lemma deferred_created:
  assumes "unr_rdma_plan_create pk p s0 = Inr (a, s1)" "plans s1 a = Some pl" "plan_status pl = 1" "a \<noteq> 0"
  shows "\<not> once_now p \<and> arrays_fit p \<and> para pl = Some p"
proof -
  obtain uc where uc: "unr_channels s0 = Some uc" using assms(1) by (auto simp: unr_rdma_plan_create_def split: option.splits)
  have fit: "arrays_fit p" using assms(1) by (auto simp: unr_rdma_plan_create_def uc split: if_splits)
  let ?s = "s0\<lparr>u_brk := u_brk s0 + 1\<rparr>"
  obtain synced where sy: "mem_synced uc (take (num_sends p) (rmt_blk_arr p)) = Inr synced"
    using assms(1) by (auto simp: unr_rdma_plan_create_def uc fit Let_def)
  show ?thesis
  proof (cases synced)
    case True
    then obtain pl' t where t: "build_plan p ?s = Inr (pl', t)" "finish_plan pk p (u_brk s0) (pl', t) = Inr s1"
        "a = (if once_now p then 0 else u_brk s0)"
      using assms(1) by (auto simp: unr_rdma_plan_create_def uc fit sy Let_def)
    then have "plans s1 a = Some pl'" using assms(4) by (auto simp: finish_plan_def split: if_splits)
    then show ?thesis using assms(2,3) build_plan_frame [OF t(1)] by simp
  next
    case False
    then show ?thesis using assms(1,2) fit by (auto simp: unr_rdma_plan_create_def uc sy Let_def split: if_splits)
  qed
qed

lemma create_synced:
  assumes "unr_channels s = Some uc" "arrays_fit p" "\<not> once_now p"
    and "mem_synced uc (take (num_sends p) (rmt_blk_arr p)) = Inr True"
  shows "unr_rdma_plan_create pk p s =
    res_bind (build_plan p s) (\<lambda>(pl, t). Inr (u_brk s, with_heap ((plans s)(u_brk s \<mapsto> pl)) (u_brk s + 1) t))"
proof -
  have s: "s\<lparr>u_brk := u_brk s + 1\<rparr> = with_heap (plans s) (u_brk s + 1) s" by (simp add: with_heap_def)
  show ?thesis
    unfolding unr_rdma_plan_create_def assms(1,4) option.case Let_def s build_plan_heap
    using assms(2,3) by (cases "build_plan p s") (auto simp: finish_plan_def with_heap_def)
qed

lemma create_later:
  assumes "plans s a = Some pl" "para pl = Some p" "\<not> once_now p"
  shows "create_deferred pk a s =
    res_bind (build_plan p s) (\<lambda>(pl, t). Inr (with_heap ((plans s)(a \<mapsto> pl)) (u_brk s) t))"
proof (cases "build_plan p s")
  case (Inr r)
  obtain pl' t where r: "r = (pl', t)" by (cases r)
  show ?thesis using assms Inr build_plan_keeps [OF Inr [unfolded r]] by (simp add: create_deferred_def finish_plan_def with_heap_def r)
qed (use assms in \<open>simp add: create_deferred_def\<close>)

lemma start_built:
  assumes "unr_channels s \<noteq> None" "a \<noteq> 0" "plans s a = Some pl" "plan_status pl = 2"
  shows "unr_plan_start pk a s =
    res_bind (fold_res start_uri_plan (zip (uri_plan_h_arr pl) (uri_channel_h_arr pl)) s) (\<lambda>s. Inr (URU_STATUS_OK, s))"
  using assms by (simp add: unr_plan_start_def)

text \<open>
  C12. Starting a plan that was made before the handles had been exchanged does what making the plan
  now and starting it would do: the same failures, the same calls of the channels, and the same plan
  but for its address.
\<close>

theorem deferred_plan_equals_immediate:
  assumes "unr_rdma_plan_create pk p s0 = Inr (a, s1)" "plans s1 a = Some pl" "plan_status pl = 1" "a \<noteq> 0"
    and "plans s a = Some pl" "unr_channels s = Some uc" "u_brk s \<noteq> 0"
    and "mem_synced uc (take (num_sends p) (rmt_blk_arr p)) = Inr True"
  shows "case unr_rdma_plan_create pk p s of
      Inl e \<Rightarrow> unr_plan_start pk a s = Inl e
    | Inr (b, s2) \<Rightarrow> (case unr_plan_start pk b s2 of
        Inl e \<Rightarrow> unr_plan_start pk a s = Inl e
      | Inr (st, s3) \<Rightarrow> \<exists>s4. unr_plan_start pk a s = Inr (st, s4) \<and> uri s4 = uri s3 \<and> registry s4 = registry s3 \<and>
          unr_channels s4 = unr_channels s3 \<and> plans s4 a = plans s3 b)"
proof -
  have d: "\<not> once_now p" "arrays_fit p" "para pl = Some p" using deferred_created [OF assms(1-4)] by simp_all
  note now = create_synced [OF assms(6) d(2,1) assms(8)] and later = create_later [OF assms(5) d(3,1)]
  have st: "unr_plan_start pk a s = res_bind (create_deferred pk a s) (\<lambda>s. case plans s a of
      None \<Rightarrow> Inl NullDeref
    | Some pl \<Rightarrow> res_bind (fold_res start_uri_plan (zip (uri_plan_h_arr pl) (uri_channel_h_arr pl)) s)
        (\<lambda>s. Inr (URU_STATUS_OK, s)))"
    using assms(3-6) by (simp add: unr_plan_start_def)
  show ?thesis
  proof (cases "build_plan p s")
    case (Inl e)
    then show ?thesis by (simp add: now later st)
  next
    case (Inr r)
    obtain pl2 t where r: "r = (pl2, t)" by (cases r)
    let ?z = "zip (uri_plan_h_arr pl2) (uri_channel_h_arr pl2)"
    have t: "unr_channels t = Some uc" "plan_status pl2 = 2"
      using build_plan_keeps [OF Inr [unfolded r]] assms(6) by simp_all
    have a: "unr_plan_start pk a s = res_bind (fold_res start_uri_plan ?z t)
        (\<lambda>t. Inr (URU_STATUS_OK, with_heap ((plans s)(a \<mapsto> pl2)) (u_brk s) t))"
      unfolding st later Inr r by (cases "fold_res start_uri_plan ?z t") (simp_all add: start_uri_plans_heap)
    have b: "unr_plan_start pk (u_brk s) (with_heap ((plans s)(u_brk s \<mapsto> pl2)) (u_brk s + 1) t) =
        res_bind (fold_res start_uri_plan ?z t)
        (\<lambda>t. Inr (URU_STATUS_OK, with_heap ((plans s)(u_brk s \<mapsto> pl2)) (u_brk s + 1) t))"
      using t assms(7)
      by (subst start_built [of _ _ pl2]; cases "fold_res start_uri_plan ?z t") (simp_all add: start_uri_plans_heap)
    have n: "unr_rdma_plan_create pk p s = Inr (u_brk s, with_heap ((plans s)(u_brk s \<mapsto> pl2)) (u_brk s + 1) t)"
      by (simp add: now Inr r)
    show ?thesis unfolding n a sum.case split_conv b
      by (cases "fold_res start_uri_plan ?z t") simp_all
  qed
qed

text \<open>The same plan, made before the exchange and started after it.\<close>

definition early_plan :: unr_plan_t where
  "early_plan = \<lparr>plan_status = 1, num_uri_plan = 0, uri_plan_h_arr = [], uri_channel_h_arr = [], para = Some blk_para\<rparr>"

theorem deferred_plan_equals_immediate_witness:
  "\<exists>s1 (s :: uri_mpi_state unr_base_state). unr_rdma_plan_create True blk_para mem_example = Inr (1000, s1) \<and> plans s1 1000 = Some early_plan \<and>
     plans s 1000 = Some early_plan \<and>
     (case unr_rdma_plan_create True blk_para s of
        Inl e \<Rightarrow> unr_plan_start True 1000 s = Inl e
      | Inr (b, s2) \<Rightarrow> (case unr_plan_start True b s2 of
          Inl e \<Rightarrow> unr_plan_start True 1000 s = Inl e
        | Inr (st, s3) \<Rightarrow> \<exists>s4. unr_plan_start True 1000 s = Inr (st, s4) \<and> uri s4 = uri s3 \<and> registry s4 = registry s3 \<and>
            unr_channels s4 = unr_channels s3 \<and> plans s4 1000 = plans s3 b))"
proof -
  obtain s1 where 1: "unr_rdma_plan_create True blk_para mem_example = Inr (1000, s1)" "plans s1 1000 = Some early_plan"
    by (simp add: unr_rdma_plan_create_def mem_example_def blk_para_def arrays_fit_def arr_fits_def type_arr_def early_plan_def Let_def)
  let ?s = "blk_example\<lparr>plans := [1000 \<mapsto> early_plan]\<rparr>"
  have 2: "plan_status early_plan = 1" "plans ?s 1000 = Some early_plan" "unr_channels ?s = Some blk_channels" "u_brk ?s \<noteq> 0"
    by (simp_all add: early_plan_def blk_example_def)
  have 3: "mem_synced blk_channels (take (num_sends blk_para) (rmt_blk_arr blk_para)) = Inr True"
    by (simp add: blk_para_def)
  have "(1000 :: addr) \<noteq> 0" by simp
  note r = deferred_plan_equals_immediate [OF 1 2(1) this 2(2-4) 3]
  show ?thesis by (rule exI [of _ s1], rule exI [of _ ?s]) (intro conjI 1 2(2) r)
qed

text \<open>
  The calls that start a transfer at once read the plan after freeing it: what would return where
  the allocator leaves the freed field alone runs into freed memory elsewhere, and nothing else
  changes.
\<close>

theorem start_now_reads_freed_plan:
  "case unr_blk_part_rdma_batch_start True n lbs lss los szs rbs rss ros ts s of
     Inl e \<Rightarrow> unr_blk_part_rdma_batch_start False n lbs lss los szs rbs rss ros ts s = Inl e
   | Inr _ \<Rightarrow> unr_blk_part_rdma_batch_start False n lbs lss los szs rbs rss ros ts s = Inl UseAfterFree"
proof -
  let ?p = "\<lparr>need_current_load = True, once_now = True, num_sends = n, loc_blk_arr = lbs, loc_sig_arr = lss,
    loc_offset_arr = los, size_arr = szs, rmt_blk_arr = rbs, rmt_sig_arr = rss, rmt_offset_arr = ros, dma_type_arr = ts\<rparr>"
  have f: "finish_plan False ?p a r' = Inl UseAfterFree" "finish_plan True ?p a r' = Inr ((snd r')\<lparr>plans := (plans (snd r'))(a := None)\<rparr>)"
    for a and r' :: "unr_plan_t \<times> ('a uri_state_scheme) unr_base_state"
    by (cases r'; simp add: finish_plan_def)+
  show ?thesis
    unfolding unr_blk_part_rdma_batch_start_def start_now_def unr_rdma_plan_create_def f Let_def
    by (auto simp: res_bind_def uru_assert_def split: option.splits sum.splits if_splits)
qed

end
