(* ===== verification/Unr_Run.thy ===== *)
theory Unr_Run
  imports Unr_Blk_Props
begin

text \<open>
  The library as a state machine: initialisation, then registrations, exchanges, rounds of the daemon
  thread, and plans that are created, started and destroyed, in any order. Two invariants hold in
  every state that such a run reaches: the memory handles stay valid, and every plan in the heap is
  one that starting and destroying can use.
\<close>

section \<open>Steps\<close>

text \<open>What a plan in the heap looks like: deferred, with its parameters, or complete.\<close>

definition plan_ok :: "unr_channels_t \<Rightarrow> unr_plan_t \<Rightarrow> bool" where
  "plan_ok uc pl \<longleftrightarrow>
     (plan_status pl = 1 \<and> uri_plan_h_arr pl = [] \<and> (\<exists>p. para pl = Some p \<and> \<not> once_now p \<and> arrays_fit p)) \<or>
     (plan_status pl = 2 \<and> length (uri_plan_h_arr pl) = length (uri_channel_h_arr pl) \<and>
       (\<forall>i < length (uri_plan_h_arr pl). uri_plan_h_arr pl ! i \<noteq> 0 \<longrightarrow>
         (\<exists>c \<in> set (avail_channels uc). uri_channel_h_arr pl ! i = Some c)))"

definition plans_ok :: "'s unr_base_state \<Rightarrow> bool" where
  "plans_ok s \<longleftrightarrow> (case unr_channels s of None \<Rightarrow> False | Some uc \<Rightarrow>
     length (inter_channels uc) + length (intra_channels uc) < 256 \<and>
     (\<forall>a pl. plans s a = Some pl \<longrightarrow> a \<noteq> 0 \<and> a < u_brk s \<and> plan_ok uc pl))"

definition rank_ok :: "(('z) uri_state_scheme) unr_base_state \<Rightarrow> bool" where
  "rank_ok s \<longleftrightarrow> 0 \<le> mpi_rank (uru_mpi (uri s)) \<and> mpi_rank (uru_mpi (uri s)) < mpi_size (uru_mpi (uri s))"

text \<open>A run of the library in one process; the channels' parts of a handle are bytes.\<close>

inductive lib_run :: "(('z) uri_state_scheme) unr_base_state \<Rightarrow> bool" where
  init: "lib_run s'" if "unr_init e s = Inr (st, s')" "\<not> unr_initialized s" "registry_ok (registry s)"
    "modules_ok (registry s)" "mems (uri s) = (\<lambda>_. None)" "recv_buf s = []" "plans s = (\<lambda>_. None)" "u_brk s \<noteq> 0"
    "0 \<le> comm_rank e" "comm_rank e < comm_size e"
| reg: "lib_run s'" if "lib_run s" "unr_mem_reg a n s = Inr (st, h, s')"
| exchange: "lib_run s'" if "lib_run s" "unr_mem_reg_sync get_parts put_parts allgatherv s = Inr (st, s')"
    "gathers (nat (mpi_size (uru_mpi (uri s)))) (nat (mpi_rank (uru_mpi (uri s)))) (allgatherv :: (unr_mem_t \<times> u8 list) list \<Rightarrow> _)"
    "\<And>h p u. same_env u (put_parts h p u)"
| daemon: "lib_run s'" if "lib_run s" "unr_daemon_thread rounds s = Inr s'"
| create: "lib_run s'" if "lib_run s" "unr_rdma_plan_create pk p s = Inr (a, s')"
| start: "lib_run s'" if "lib_run s" "unr_plan_start pk a s = Inr (st, s')"
| destroy: "lib_run s'" if "lib_run s" "unr_plan_destroy a s = Inr (st, s')"

section \<open>What the channel modules may change\<close>

definition env_only :: "(('z) uri_state_scheme) unr_base_state \<Rightarrow> ('z uri_state_scheme) unr_base_state \<Rightarrow> bool" where
  "env_only s t \<longleftrightarrow> (\<exists>u. t = s\<lparr>uri := u\<rparr> \<and> same_env (uri s) u)"

lemma env_only_refl [simp]: "env_only s s"
  unfolding env_only_def by (rule exI [of _ "uri s"]) simp

lemma env_only_trans: "env_only s t \<Longrightarrow> env_only t u \<Longrightarrow> env_only s u"
proof -
  assume "env_only s t" "env_only t u"
  then obtain v w where "t = s\<lparr>uri := v\<rparr>" "same_env (uri s) v" "u = t\<lparr>uri := w\<rparr>" "same_env (uri t) w"
    by (auto simp: env_only_def)
  then have "u = s\<lparr>uri := w\<rparr>" "same_env (uri s) w" by (auto intro: same_env_trans)
  then show "env_only s u" unfolding env_only_def by blast
qed

lemma env_onlyD: "env_only s t \<Longrightarrow> registry t = registry s \<and> unr_channels t = unr_channels s \<and> plans t = plans s \<and>
    u_brk t = u_brk s \<and> recv_buf t = recv_buf s \<and> mems (uri t) = mems (uri s) \<and> uru_mpi (uri t) = uru_mpi (uri s)"
  by (auto simp: env_only_def same_env_def)

lemma env_only_uri: "same_env (uri s) u \<Longrightarrow> env_only s (s\<lparr>uri := u\<rparr>)"
  by (auto simp: env_only_def)

text \<open>A call into a module of the registry.\<close>

lemma module_call:
  assumes "modules_ok reg" "c < length reg" "func_ptrs (reg ! c) = Some fp"
  shows "channel_module fp"
  using modules_okD [OF assms] .

lemma daemon_call_env:
  assumes "uri_channel_daemon (reg ! c) u = Inr (st, v)" "modules_ok reg" "c < length reg"
  shows "same_env u v"
proof -
  obtain fp where "func_ptrs (reg ! c) = Some fp" using assms(1) by (auto simp: uri_channel_daemon_def with_func_Inr)
  with module_call [OF assms(2,3) this] show ?thesis using assms(1) by (rule channel_module.uri_channel_daemon_env)
qed

lemma create_call_env:
  assumes "uri_rdma_plan_create (reg ! c) once ts ws u = Inr (pl, v)" "modules_ok reg" "c < length reg"
  shows "same_env u v"
proof -
  obtain fp where "func_ptrs (reg ! c) = Some fp" using assms(1) by (auto simp: uri_rdma_plan_create_def with_func_Inr)
  with module_call [OF assms(2,3) this] show ?thesis using assms(1) by (rule channel_module.uri_rdma_plan_create_env)
qed

lemma start_call_env:
  assumes "uri_rdma_plan_start (reg ! c) pl u = Inr (st, v)" "modules_ok reg" "c < length reg"
  shows "same_env u v"
proof -
  obtain fp where "func_ptrs (reg ! c) = Some fp" using assms(1) by (auto simp: uri_rdma_plan_start_def with_func_Inr)
  with module_call [OF assms(2,3) this] show ?thesis using assms(1) by (rule channel_module.uri_rdma_plan_start_env)
qed

lemma destroy_call_env:
  assumes "uri_rdma_plan_destroy (reg ! c) pl u = Inr (st, v)" "modules_ok reg" "c < length reg"
  shows "same_env u v"
proof -
  obtain fp where "func_ptrs (reg ! c) = Some fp" using assms(1) by (auto simp: uri_rdma_plan_destroy_def with_func_Inr)
  with module_call [OF assms(2,3) this] show ?thesis using assms(1) by (rule channel_module.uri_rdma_plan_destroy_env)
qed

lemma daemon_round_env:
  assumes "daemon_round cs s = Inr t" "modules_ok (registry s)" "\<forall>c \<in> set cs. c < length (registry s)"
  shows "env_only s t"
  using assms(1) unfolding daemon_round_def
proof (rule fold_res_invariant)
  fix c v w
  assume c: "c \<in> set cs" "env_only s v" "res_bind (uri_channel_daemon (registry v ! c) (uri v)) (\<lambda>(_, u). Inr (v\<lparr>uri := u\<rparr>)) = Inr w"
  then obtain st u where u: "uri_channel_daemon (registry v ! c) (uri v) = Inr (st, u)" "w = v\<lparr>uri := u\<rparr>" by auto
  have "same_env (uri v) u" using daemon_call_env [OF u(1)] env_onlyD [OF c(2)] assms(2,3) c(1) by simp
  then show "env_only s w" using c(2) env_only_uri env_only_trans unfolding u(2) by blast
qed simp

lemma create_uri_plans_ok:
  assumes "create_uri_plans uc once k wss s = Inr (pls, chs, t)" "modules_ok (registry s)"
    and "\<forall>i \<in> {k..<k + length wss}. plan_channel uc i \<in> C" "\<forall>c \<in> C. c < length (registry s)"
  shows "env_only s t \<and> length pls = length chs \<and> (\<forall>i < length pls. pls ! i \<noteq> 0 \<longrightarrow> (\<exists>c \<in> C. chs ! i = Some c))"
  using assms
proof (induction wss arbitrary: k s pls chs)
  case (Cons ws wss)
  then obtain pl ch s1 pls1 chs1 where 1: "create_uri_plan uc once k ws s = Inr (pl, ch, s1)"
      "create_uri_plans uc once (k + 1) wss s1 = Inr (pls1, chs1, t)" "pls = pl # pls1" "chs = ch # chs1" by auto
  have k: "plan_channel uc k \<in> C" using Cons.prems(3) by simp
  have one: "env_only s s1 \<and> (pl \<noteq> 0 \<longrightarrow> (\<exists>c \<in> C. ch = Some c))"
  proof (cases "ws = []")
    case True
    then show ?thesis using 1(1) by (simp add: create_uri_plan_def)
  next
    case False
    then obtain u where u: "uri_rdma_plan_create (registry s ! plan_channel uc k) once (Some (map fst ws)) (map snd ws) (uri s) =
        Inr (pl, u)" "ch = Some (plan_channel uc k)" "s1 = s\<lparr>uri := u\<rparr>"
      using 1(1) by (auto simp: create_uri_plan_def)
    have "same_env (uri s) u" using create_call_env [OF u(1)] Cons.prems(2,4) k by blast
    then show ?thesis using env_only_uri u(2,3) k by blast
  qed
  have "env_only s1 t \<and> length pls1 = length chs1 \<and> (\<forall>i < length pls1. pls1 ! i \<noteq> 0 \<longrightarrow> (\<exists>c \<in> C. chs1 ! i = Some c))"
    using Cons.prems(2-4) env_onlyD [of s s1] one by (intro Cons.IH [OF 1(2)]) auto
  then show ?case using one env_only_trans unfolding 1(3,4) by (auto simp: nth_Cons split: nat.splits)
qed simp

section \<open>The invariants\<close>

definition lib_inv :: "(('z) uri_state_scheme) unr_base_state \<Rightarrow> bool" where
  "lib_inv s \<longleftrightarrow> handles_ok s \<and> plans_ok s \<and> rank_ok s \<and> u_brk s \<noteq> 0"

lemma lib_inv_env:
  assumes "env_only s t" "lib_inv s"
  shows "lib_inv t"
proof -
  note d = env_onlyD [OF assms(1)]
  have "registry t = registry s" "unr_channels t = unr_channels s" "plans t = plans s" "u_brk t = u_brk s"
    "recv_buf t = recv_buf s" "mems (uri t) = mems (uri s)" "uru_mpi (uri t) = uru_mpi (uri s)" using d by simp_all
  note e = this
  show ?thesis
    using assms(2) unfolding lib_inv_def handles_ok_def channels_ok_def plans_ok_def rank_ok_def e .
qed

lemma spaced_mono: "spaced sz hi m \<Longrightarrow> hi \<le> hi' \<Longrightarrow> spaced sz hi' m"
  unfolding spaced_def by (meson order_trans)

text \<open>New plans do not touch the handles.\<close>

lemma lib_inv_plans:
  assumes "lib_inv s" "unr_channels s = Some uc" "u_brk s \<le> x"
    and "\<And>a pl. P a = Some pl \<Longrightarrow> a \<noteq> 0 \<and> a < x \<and> plan_ok uc pl"
  shows "lib_inv (with_heap P x s)"
proof -
  have h: "handles_ok s" "plans_ok s" "rank_ok s" using assms(1) by (simp_all add: lib_inv_def)
  have "channels_ok (with_heap P x s)" 
    using handles_okD(1) [OF h(1) assms(2)] unfolding channels_ok_def with_heap_simps .
  moreover have "spaced (unat (unr_mem_t_size uc)) x (mems (uri s))"
    by (rule spaced_mono [OF handles_okD(3) [OF h(1) assms(2)] assms(3)])
  moreover have "recv_buf (with_heap P x s) = recv_buf s" by (simp add: with_heap_def)
  ultimately have "handles_ok (with_heap P x s)"
    using h(1) unfolding handles_ok_def with_heap_simps assms(2) option.case by (elim conjE) (intro conjI, simp_all only:)
  moreover have "plans_ok (with_heap P x s)" using h(2) assms(2,4) by (simp add: plans_ok_def)
  moreover have "x \<noteq> 0" using assms(1,3) by (simp add: lib_inv_def)
  ultimately show ?thesis using h(3) by (simp add: lib_inv_def rank_ok_def)
qed

lemma lib_inv_parts:
  assumes "lib_inv s" "unr_channels s = Some uc"
  shows "handles_ok s" "modules_ok (registry s)" "\<forall>c \<in> set (avail_channels uc). c < length (registry s)"
    "length (inter_channels uc) + length (intra_channels uc) < 256"
    "\<And>k. k < length (inter_channels uc) + length (intra_channels uc) \<Longrightarrow> plan_channel uc k \<in> set (avail_channels uc)"
    "\<And>a pl. plans s a = Some pl \<Longrightarrow> a \<noteq> 0 \<and> a < u_brk s \<and> plan_ok uc pl"
proof -
  show h: "handles_ok s" using assms(1) by (simp add: lib_inv_def)
  note ok = handles_okD(1,2) [OF h assms(2)]
  show "modules_ok (registry s)" by (rule ok(2))
  show "\<forall>c \<in> set (avail_channels uc). c < length (registry s)" using avail_in_registry [OF ok(1) assms(2)] by blast
  have "set (avail_channels uc) = set (inter_channels uc) \<union> set (intra_channels uc)"
    using ok(1) unfolding channels_ok_def assms(2) option.case by blast
  then show "plan_channel uc k \<in> set (avail_channels uc)" if "k < length (inter_channels uc) + length (intra_channels uc)" for k
    using that by (auto simp: plan_channel_def)
qed (use assms in \<open>simp_all add: lib_inv_def plans_ok_def\<close>)

lemma build_plan_ok:
  assumes "lib_inv s" "unr_channels s = Some uc" "build_plan p s = Inr (pl, t)"
  shows "env_only s t \<and> plan_ok uc pl"
proof -
  note inv = lib_inv_parts [OF assms(1,2)]
  obtain wrts pls chs where 1: "plan_wrts uc (uru_mpi (uri s)) p = Inr wrts"
      "create_uri_plans uc (once_now p) 0 wrts s = Inr (pls, chs, t)"
      "pl = \<lparr>plan_status = 2, num_uri_plan = plan_count uc, uri_plan_h_arr = pls, uri_channel_h_arr = chs, para = None\<rparr>"
    using assms(3) by (auto simp: build_plan_def assms(2))
  have "length wrts = length (inter_channels uc) + length (intra_channels uc)"
    by (rule plan_wrts_Inr [OF handles_okD(1) [OF inv(1) assms(2)] assms(2) inv(4) 1(1)]) (simp add: wrts_ok_def)
  then have "\<forall>i \<in> {0..<0 + length wrts}. plan_channel uc i \<in> set (avail_channels uc)" using inv(5) by simp
  from create_uri_plans_ok [OF 1(2) inv(2) this inv(3)] show ?thesis by (auto simp: 1(3) plan_ok_def)
qed

text \<open>One entry of the heap of plans is written.\<close>

lemma lib_inv_plan:
  assumes "lib_inv s" "unr_channels s = Some uc" "env_only s t" "u_brk s \<le> x" "a \<noteq> 0" "a < x"
    and "\<And>pl. Q = Some pl \<Longrightarrow> plan_ok uc pl"
  shows "lib_inv (with_heap ((plans s)(a := Q)) x t)"
proof (rule lib_inv_plans)
  show "lib_inv t" by (rule lib_inv_env [OF assms(3,1)])
  show "unr_channels t = Some uc" "u_brk t \<le> x" using env_onlyD [OF assms(3)] assms(2,4) by simp_all
  show "q \<noteq> 0 \<and> q < x \<and> plan_ok uc pl" if q: "((plans s)(a := Q)) q = Some pl" for q pl
  proof (cases "q = a")
    case True
    then show ?thesis using q assms(5-7) by simp
  next
    case False
    then have "plans s q = Some pl" using q by simp
    from lib_inv_parts(6) [OF assms(1,2) this] assms(4) show ?thesis by simp
  qed
qed

lemma create_inv:
  assumes "lib_inv s" "unr_rdma_plan_create pk p s = Inr (a, s')"
  shows "lib_inv s'"
proof -
  obtain uc where uc: "unr_channels s = Some uc" using assms(2) by (auto simp: unr_rdma_plan_create_def split: option.splits)
  let ?b = "u_brk s" and ?s = "with_heap (plans s) (u_brk s + 1) s"
  have b: "?b \<noteq> 0" using assms(1) by (simp add: lib_inv_def)
  have s: "s\<lparr>u_brk := Suc (u_brk s)\<rparr> = with_heap (plans s) (Suc (u_brk s)) s" by (simp add: with_heap_def)
  have fit: "arrays_fit p" using assms(2) by (auto simp: unr_rdma_plan_create_def uc split: if_splits)
  obtain synced where sy: "mem_synced uc (take (num_sends p) (rmt_blk_arr p)) = Inr synced"
    using assms(2) by (auto simp: unr_rdma_plan_create_def uc fit Let_def)
  show ?thesis
  proof (cases synced)
    case False
    let ?pl = "\<lparr>plan_status = 1, num_uri_plan = 0, uri_plan_h_arr = [], uri_channel_h_arr = [], para = Some p\<rparr>"
    have o: "\<not> once_now p" and s': "s' = with_heap ((plans s)(?b := Some ?pl)) (?b + 1) s"
      using assms(2) fit False by (auto simp: unr_rdma_plan_create_def uc sy Let_def with_heap_def split: if_splits)
    have "plan_ok uc ?pl" using o fit by (simp add: plan_ok_def)
    then show ?thesis unfolding s' using b by (intro lib_inv_plan [OF assms(1) uc]) auto
  next
    case True
    then obtain pl t where "build_plan p ?s = Inr (pl, t)" and fin: "finish_plan pk p ?b (pl, t) = Inr s'"
      using assms(2) fit by (auto simp: unr_rdma_plan_create_def uc sy Let_def s)
    then obtain t0 where t0: "build_plan p s = Inr (pl, t0)" "t = with_heap (plans s) (?b + 1) t0"
      by (auto simp: build_plan_heap)
    note ok = build_plan_ok [OF assms(1) uc t0(1)]
    have s': "s' = with_heap ((plans s)(?b := (if once_now p then None else Some pl))) (?b + 1) t0"
      using fin by (auto simp: finish_plan_def t0(2) with_heap_def split: if_splits)
    show ?thesis unfolding s' using ok b by (intro lib_inv_plan [OF assms(1) uc]) (auto split: if_splits)
  qed
qed

lemma deferred_inv:
  assumes "lib_inv s" "create_deferred pk a s = Inr s'"
  shows "lib_inv s'"
proof -
  obtain pl p where pl: "plans s a = Some pl" "para pl = Some p" using assms(2) by (auto simp: create_deferred_def split: option.splits)
  obtain pl2 t where t: "build_plan p s = Inr (pl2, t)" "finish_plan pk p a (pl2, t) = Inr s'"
    using assms(2) by (auto simp: create_deferred_def pl)
  obtain uc where uc: "unr_channels s = Some uc" using t(1) by (auto simp: build_plan_def split: option.splits)
  note ok = build_plan_ok [OF assms(1) uc t(1)] and a = lib_inv_parts(6) [OF assms(1) uc pl(1)]
  have s': "s' = with_heap ((plans s)(a := (if once_now p then None else Some pl2))) (u_brk s) t"
    using t(2) build_plan_keeps [OF t(1)] by (auto simp: finish_plan_def with_heap_def split: if_splits)
  show ?thesis unfolding s' using ok a by (intro lib_inv_plan [OF assms(1) uc]) (auto split: if_splits)
qed

text \<open>Starting and destroying the parts of a plan.\<close>

lemma start_uri_plans_env:
  assumes "fold_res start_uri_plan pcs s = Inr t" "modules_ok (registry s)"
    and "\<forall>(pl, ch) \<in> set pcs. pl \<noteq> 0 \<longrightarrow> (\<exists>c < length (registry s). ch = Some c)"
  shows "env_only s t"
  using assms(1)
proof (rule fold_res_invariant)
  fix pc v w
  assume pc: "pc \<in> set pcs" "env_only s v" "start_uri_plan pc v = Inr w"
  obtain pl ch where eq: "pc = (pl, ch)" by (cases pc)
  show "env_only s w"
  proof (cases "pl = 0")
    case True
    then show ?thesis using pc by (simp add: start_uri_plan_def eq)
  next
    case False
    then obtain c where c: "c < length (registry s)" "ch = Some c" using assms(3) pc(1) by (auto simp: eq)
    then obtain st u where u: "uri_rdma_plan_start (registry v ! c) pl (uri v) = Inr (st, u)" "w = v\<lparr>uri := u\<rparr>"
      using pc(3) False by (auto simp: start_uri_plan_def eq)
    have "same_env (uri v) u" using start_call_env [OF u(1)] env_onlyD [OF pc(2)] assms(2) c(1) by simp
    then show ?thesis using pc(2) env_only_uri env_only_trans unfolding u(2) by blast
  qed
qed simp

lemma destroy_uri_plans_env:
  assumes "fold_res destroy_uri_plan pcs s = Inr t" "modules_ok (registry s)"
    and "\<forall>(pl, ch) \<in> set pcs. pl \<noteq> 0 \<longrightarrow> (\<exists>c < length (registry s). ch = Some c)"
  shows "env_only s t"
  using assms(1)
proof (rule fold_res_invariant)
  fix pc v w
  assume pc: "pc \<in> set pcs" "env_only s v" "destroy_uri_plan pc v = Inr w"
  obtain pl ch where eq: "pc = (pl, ch)" by (cases pc)
  show "env_only s w"
  proof (cases "pl = 0")
    case True
    then show ?thesis using pc by (simp add: destroy_uri_plan_def eq)
  next
    case False
    then obtain c where c: "c < length (registry s)" "ch = Some c" using assms(3) pc(1) by (auto simp: eq)
    then obtain st u where u: "uri_rdma_plan_destroy (registry v ! c) pl (uri v) = Inr (st, u)" "w = v\<lparr>uri := u\<rparr>"
      using pc(3) False by (auto simp: destroy_uri_plan_def eq)
    have "same_env (uri v) u" using destroy_call_env [OF u(1)] env_onlyD [OF pc(2)] assms(2) c(1) by simp
    then show ?thesis using pc(2) env_only_uri env_only_trans unfolding u(2) by blast
  qed
qed simp

lemma plan_ok_calls:
  assumes "plan_ok uc pl" "\<forall>c \<in> set (avail_channels uc). c < n"
  shows "\<forall>(h, ch) \<in> set (zip (uri_plan_h_arr pl) (uri_channel_h_arr pl)). h \<noteq> 0 \<longrightarrow> (\<exists>c < n. ch = Some c)"
  using assms by (fastforce simp: plan_ok_def in_set_zip)

lemma start_inv:
  assumes "lib_inv s" "unr_plan_start pk a s = Inr (st, s')"
  shows "lib_inv s'"
proof -
  obtain pl where pl: "plans s a = Some pl" using assms(2) by (auto simp: unr_plan_start_def split: option.splits)
  obtain s1 pl1 where 1: "(if plan_status pl \<noteq> 2 then uru_assert (plan_status pl = 1) (create_deferred pk a s) else Inr s) = Inr s1"
      "plans s1 a = Some pl1" "fold_res start_uri_plan (zip (uri_plan_h_arr pl1) (uri_channel_h_arr pl1)) s1 = Inr s'"
    using assms(2) by (auto simp: unr_plan_start_def pl split: option.splits)
  have inv: "lib_inv s1" using 1(1) assms(1) deferred_inv by (auto split: if_splits)
  obtain uc where uc: "unr_channels s1 = Some uc" using inv by (auto simp: lib_inv_def plans_ok_def split: option.splits)
  note l = lib_inv_parts [OF inv uc]
  have "plan_ok uc pl1" using l(6) [OF 1(2)] by blast
  from start_uri_plans_env [OF 1(3) l(2) plan_ok_calls [OF this l(3)]] inv show ?thesis by (rule lib_inv_env)
qed

lemma destroy_inv:
  assumes "lib_inv s" "unr_plan_destroy a s = Inr (st, s')"
  shows "lib_inv s'"
proof -
  obtain uc where uc: "unr_channels s = Some uc" using assms(1) by (auto simp: lib_inv_def plans_ok_def split: option.splits)
  note l = lib_inv_parts [OF assms(1) uc]
  obtain pl s1 where 1: "plans s a = Some pl"
      "fold_res destroy_uri_plan (zip (uri_plan_h_arr pl) (uri_channel_h_arr pl)) s = Inr s1" "s' = s1\<lparr>plans := (plans s1)(a := None)\<rparr>"
    using assms(2) by (auto simp: unr_plan_destroy_def split: option.splits if_splits)
  have ok: "a \<noteq> 0 \<and> a < u_brk s \<and> plan_ok uc pl" by (rule l(6) [OF 1(1)])
  have e: "env_only s s1" using destroy_uri_plans_env [OF 1(2) l(2) plan_ok_calls [OF _ l(3)]] ok by blast
  have s': "s' = with_heap ((plans s)(a := None)) (u_brk s) s1" using env_onlyD [OF e] by (simp add: 1(3) with_heap_def)
  show ?thesis unfolding s' using ok by (intro lib_inv_plan [OF assms(1) uc e]) auto
qed

lemma daemon_inv:
  assumes "lib_inv s" "unr_daemon_thread rounds s = Inr s'"
  shows "lib_inv s'"
proof -
  obtain uc where uc: "unr_channels s = Some uc" using assms(2) by (auto simp: unr_daemon_thread_def split: option.splits)
  note l = lib_inv_parts [OF assms(1) uc]
  have "fold_res (\<lambda>_. daemon_round (avail_channels uc)) [0..<rounds] s = Inr s'" using assms(2) by (simp add: unr_daemon_thread_def uc)
  then have "env_only s s'"
  proof (rule fold_res_invariant)
    fix v w assume v: "env_only s v" "daemon_round (avail_channels uc) v = Inr w"
    have "env_only v w" using env_onlyD [OF v(1)] l(2,3) by (intro daemon_round_env [OF v(2)]) simp_all
    with v(1) show "env_only s w" by (rule env_only_trans)
  qed simp
  then show ?thesis using assms(1) by (rule lib_inv_env)
qed

lemma reg_inv:
  assumes "lib_inv s" "unr_mem_reg a n s = Inr (st, h, s')"
  shows "lib_inv s'"
proof -
  obtain uc where uc: "unr_channels s = Some uc" using assms(1) by (auto simp: lib_inv_def plans_ok_def split: option.splits)
  note l = lib_inv_parts [OF assms(1) uc]
  obtain u where u: "s' = s\<lparr>unr_channels := Some (uc\<lparr>loc_mem_arr := loc_mem_arr uc @ [h]\<rparr>), uri := u,
      u_brk := h + unat (unr_mem_t_size uc)\<rparr>" "uru_mpi u = uru_mpi (uri s)" "h = u_brk s"
    using mem_reg_steps [OF assms(2) handles_okD(1,2) [OF l(1) uc] uc] by blast
  have "plan_ok (uc\<lparr>loc_mem_arr := la\<rparr>) pl = plan_ok uc pl" for la pl by (simp add: plan_ok_def)
  moreover have "q \<noteq> 0 \<and> q < h + unat (unr_mem_t_size uc) \<and> plan_ok uc pl" if "plans s q = Some pl" for q pl
    using l(6) [OF that] u(3) by simp
  ultimately have "plans_ok s'" using l(4) by (simp add: plans_ok_def u(1))
  then show ?thesis using mem_reg_keeps [OF assms(2) l(1)] assms(1) u(3) by (simp add: lib_inv_def rank_ok_def u(1,2))
qed

lemma exchange_inv:
  assumes "lib_inv s" "unr_mem_reg_sync get_parts put_parts allgatherv s = Inr (st, s')"
    and "gathers (nat (mpi_size (uru_mpi (uri s)))) (nat (mpi_rank (uru_mpi (uri s)))) allgatherv"
    and "\<And>h p u. same_env u (put_parts h p u)"
  shows "lib_inv s'"
proof -
  obtain uc where uc: "unr_channels s = Some uc" using assms(1) by (auto simp: lib_inv_def plans_ok_def split: option.splits)
  note l = lib_inv_parts [OF assms(1) uc]
  have r: "mpi_rank (uru_mpi (uri s)) = int (nat (mpi_rank (uru_mpi (uri s))))"
      "nat (mpi_rank (uru_mpi (uri s))) < nat (mpi_size (uru_mpi (uri s)))"
    using assms(1) by (simp_all add: lib_inv_def rank_ok_def)
  obtain rmt u m where u: "s' = s\<lparr>uri := u, unr_channels := Some (uc\<lparr>rmt_mem_arr := rmt\<rparr>), recv_buf := concat rmt,
      u_brk := u_brk s + m\<rparr>" "uru_mpi u = uru_mpi (uri s)"
    using mem_reg_sync_steps [OF assms(2) l(1) uc refl r assms(3,4)] by blast
  have "plan_ok (uc\<lparr>rmt_mem_arr := ra\<rparr>) pl = plan_ok uc pl" for ra pl by (simp add: plan_ok_def)
  moreover have "q \<noteq> 0 \<and> q < u_brk s + m \<and> plan_ok uc pl" if "plans s q = Some pl" for q pl
    using l(6) [OF that] by simp
  ultimately have "plans_ok s'" using l(4) by (simp add: plans_ok_def u(1))
  then show ?thesis using mem_reg_sync_keeps [OF assms(2) l(1) refl r assms(3,4)] assms(1) by (simp add: lib_inv_def rank_ok_def u)
qed

lemma init_inv:
  assumes "unr_init e s = Inr (st, s')" "\<not> unr_initialized s" "registry_ok (registry s)" "modules_ok (registry s)"
    and "mems (uri s) = (\<lambda>_. None)" "recv_buf s = []" "plans s = (\<lambda>_. None)" "u_brk s \<noteq> 0"
    and "0 \<le> comm_rank e" "comm_rank e < comm_size e"
  shows "lib_inv s'"
proof -
  note h = unr_init_handles_ok [OF assms(1-6)]
  obtain uc where "unr_channels s' = Some uc" using h handles_ok_channels by blast
  then show ?thesis using h assms(7-10) by (simp add: lib_inv_def plans_ok_def rank_ok_def)
qed

lemma lib_run_inv: "lib_run s \<Longrightarrow> lib_inv s"
proof (induction rule: lib_run.induct)
  case init
  then show ?case by (rule init_inv)
next
  case reg
  show ?case by (rule reg_inv [OF reg.IH reg.hyps(2)])
next
  case (exchange s get_parts put_parts st s' allgatherv)
  show ?case
    by (rule exchange_inv [OF exchange.IH exchange.hyps(2) exchange.hyps(3)]) (rule exchange.hyps(4))
next
  case daemon
  show ?case by (rule daemon_inv [OF daemon.IH daemon.hyps(2)])
next
  case create
  show ?case by (rule create_inv [OF create.IH create.hyps(2)])
next
  case start
  show ?case by (rule start_inv [OF start.IH start.hyps(2)])
next
  case destroy
  show ?case by (rule destroy_inv [OF destroy.IH destroy.hyps(2)])
qed

text \<open>
  C14. However a process uses the library, in every state of a run: every channel in use finds, from its
  part of any local handle, a memory of this process, and from its part of the copy of a handle of
  rank r, a memory of rank r; and every plan in the heap either waits for the handles to be exchanged
  or has a channel in use for each part that it will start and destroy.
\<close>

theorem handles_and_plans_stay_valid:
  assumes "lib_run s"
  shows "\<exists>uc. unr_channels s = Some uc \<and>
    (\<forall>c \<in> set (avail_channels uc).
      (\<forall>h \<in> set (loc_mem_arr uc). \<exists>a n. uri_mem_get_info (mems (uri s)) (hdr (registry s ! c))
        (h + unat (offset_of (registry s) c)) = Inr (a, n, mpi_rank (uru_mpi (uri s)))) \<and>
      (\<forall>r < length (rmt_mem_arr uc). \<forall>h \<in> set (rmt_mem_arr uc ! r). \<exists>a n. uri_mem_get_info (mems (uri s))
        (hdr (registry s ! c)) (h + unat (offset_of (registry s) c)) = Inr (a, n, int r))) \<and>
    (\<forall>a pl. plans s a = Some pl \<longrightarrow> plan_ok uc pl)"
proof -
  have inv: "lib_inv s" by (rule lib_run_inv [OF assms])
  then obtain uc where uc: "unr_channels s = Some uc" by (auto simp: lib_inv_def plans_ok_def split: option.splits)
  note l = lib_inv_parts [OF inv uc]
  note ok = handles_okD [OF l(1) uc]
  have info: "\<exists>a n. uri_mem_get_info (mems (uri s)) (hdr (registry s ! c)) (h + unat (offset_of (registry s) c)) = Inr (a, n, r)"
    if "head_is (mems (uri s)) h r i" for c h r i
    using that mem_get_info_handle [where heads = "mems (uri s)" and p = h] unfolding head_is_def offset_of_def by blast
  have "\<forall>h \<in> set (loc_mem_arr uc). \<exists>i. head_is (mems (uri s)) h (mpi_rank (uru_mpi (uri s))) i"
    using ok(4) by (metis in_set_conv_nth)
  moreover have "\<forall>r < length (rmt_mem_arr uc). \<forall>h \<in> set (rmt_mem_arr uc ! r). \<exists>j. head_is (mems (uri s)) h (int r) j"
    using ok(6) by (metis in_set_conv_nth)
  ultimately show ?thesis using uc info l(6) by blast
qed

theorem handles_and_plans_stay_valid_witness:
  "\<exists>(s :: uri_mpi_state unr_base_state) uc. lib_run s \<and> unr_channels s = Some uc \<and>
     (\<forall>a pl. plans s a = Some pl \<longrightarrow> plan_ok uc pl)"
proof -
  obtain s where s: "unr_init example_env example_base = Inr (URU_STATUS_OK, s)" using example_init by blast
  have "modules_ok (registry example_base)"
    using mpi_mod.channel_module_axioms by (simp add: modules_ok_def example_base_def example_mpi_channel_def)
  then have "lib_run s"
    using example_registry_ok
    by (intro lib_run.init [OF s]) (simp_all add: example_base_def example_env_def queue_example_state_def)
  with handles_and_plans_stay_valid [OF this] show ?thesis by blast
qed

end
