(* ===== verification/Unr_Valid.thy ===== *)
theory Unr_Valid
  imports Unr_Run
begin

text \<open>
  Plans that a caller may ask for, over channels of any module: what the caller has to see to, that the
  layer above (\<open>src/unr/base/unr_blk.c\<close>) then finds nothing wrong, and, as the locale \<open>plan_maker\<close>, what
  it relies on in a module that creates its part of a plan.
\<close>

section \<open>A valid transfer\<close>

text \<open>
  What the caller has to see to for transfer \<open>i\<close>: the blocks name handles that this process knows, their
  parts lie in the memories, and signals are given on the side that owns them.
\<close>

definition loc_head :: "(('z) uri_state_scheme) unr_base_state \<Rightarrow> unr_channels_t \<Rightarrow> unr_blk_t \<Rightarrow> unr_mem_t option" where
  "loc_head s uc b = mems (uri s) (loc_mem_arr uc ! nat (blk_mem_idx b))"

definition rmt_head :: "(('z) uri_state_scheme) unr_base_state \<Rightarrow> unr_channels_t \<Rightarrow> unr_blk_t \<Rightarrow> unr_mem_t option" where
  "rmt_head s uc b = mems (uri s) (rmt_mem_arr uc ! nat (blk_dst_rank b) ! nat (blk_mem_idx b))"

definition inside :: "unr_blk_t \<Rightarrow> u64 \<Rightarrow> u64 \<Rightarrow> unr_mem_t option \<Rightarrow> bool" where
  "inside b off sz h \<longleftrightarrow> (case h of None \<Rightarrow> False | Some m \<Rightarrow> unat (blk_offset b) + unat off + unat sz \<le> unat (m_size m))"

definition sig_owned :: "unr_sig_t list option \<Rightarrow> nat \<Rightarrow> int \<Rightarrow> bool" where
  "sig_owned given i r \<longleftrightarrow> (case given of None \<Rightarrow> True | Some xs \<Rightarrow> \<not> is_signal (xs ! i) \<or> sig_dst_rank (xs ! i) = r)"

definition transfer_ok ::
  "(('z) uri_state_scheme) unr_base_state \<Rightarrow> unr_channels_t \<Rightarrow> unr_plan_create_para_t \<Rightarrow> u64 list \<Rightarrow> nat \<Rightarrow> bool" where
  "transfer_ok s uc p sizes i \<longleftrightarrow> (let lb = loc_blk_arr p ! i; rb = rmt_blk_arr p ! i; u = uru_mpi (uri s) in
     blk_dst_rank lb = mpi_rank u \<and> 0 \<le> blk_mem_idx lb \<and> blk_mem_idx lb < int (length (loc_mem_arr uc)) \<and>
     0 \<le> blk_dst_rank rb \<and> blk_dst_rank rb < mpi_size u \<and> 0 \<le> blk_mem_idx rb \<and>
     blk_mem_idx rb < int (length (rmt_mem_arr uc ! nat (blk_dst_rank rb))) \<and>
     inside lb (offset_at (loc_offset_arr p) i) (sizes ! i) (loc_head s uc lb) \<and>
     inside rb (offset_at (rmt_offset_arr p) i) (sizes ! i) (rmt_head s uc rb) \<and>
     sig_owned (loc_sig_arr p) i (mpi_rank u) \<and> sig_owned (rmt_sig_arr p) i (blk_dst_rank rb) \<and>
     type_arr (num_sends p) (dma_type_arr p) ! i \<noteq> URU_TRANSFER_TYPE_UNKNOWN)"

section \<open>The tests of the layer above\<close>

lemma mem_synced_all:
  assumes "\<forall>b \<in> set bs. 0 \<le> blk_dst_rank b \<and> nat (blk_dst_rank b) < length (rmt_mem_arr uc) \<and>
    blk_mem_idx b < int (length (rmt_mem_arr uc ! nat (blk_dst_rank b)))"
  shows "mem_synced uc bs = Inr True"
  using assms by (induction bs) auto

lemma sig_owned_flag: "sig_owned given i r \<Longrightarrow> send_flag r (map_option (\<lambda>xs. xs ! i) given) b \<noteq> Inl e"
  by (auto simp: sig_owned_def send_flag_def split: option.splits)

lemma transfer_handles:
  assumes "transfer_ok s uc p sizes i" "length (rmt_mem_arr uc) = nat (mpi_size (uru_mpi (uri s)))"
    and "length (same_node (uru_mpi (uri s))) = nat (mpi_size (uru_mpi (uri s)))"
  shows "\<exists>loc_h rmt_h same. send_handles uc (uru_mpi (uri s)) (loc_blk_arr p ! i) (rmt_blk_arr p ! i) = Inr (loc_h, rmt_h, same)"
  using assms by (auto simp: transfer_ok_def send_handles_def Let_def)

lemma plan_wrts_total:
  assumes "channels_ok s" "unr_channels s = Some uc" "length (inter_channels uc) + length (intra_channels uc) < 256"
    and "0 < num_sends p" "plan_sizes p = Inr sizes" "\<forall>i < num_sends p. transfer_ok s uc p sizes i"
    and "length (rmt_mem_arr uc) = nat (mpi_size (uru_mpi (uri s)))"
      "length (same_node (uru_mpi (uri s))) = nat (mpi_size (uru_mpi (uri s)))"
  shows "\<exists>wrts. plan_wrts uc (uru_mpi (uri s)) p = Inr wrts"
proof -
  note cls = channels_ok_class [OF assms(1,2)]
  let ?f = "fold_res (plan_step uc (uru_mpi (uri s)) p sizes) [0..<num_sends p] (replicate (plan_count uc) [], 0, 0)"
  have "\<exists>r. ?f = Inr r"
  proof (cases ?f)
    case (Inl e)
    then obtain i nx where i: "i < num_sends p" "turn_ok uc nx" "plan_send uc (uru_mpi (uri s)) p (sizes ! i) i nx = Inl e"
      using plan_steps_ok [OF cls cls assms(3) order_refl, of p "uru_mpi (uri s)" sizes] by auto
    have ok: "transfer_ok s uc p sizes i" using assms(6) i(1) by blast
    obtain loc_h rmt_h same where h: "send_handles uc (uru_mpi (uri s)) (loc_blk_arr p ! i) (rmt_blk_arr p ! i) = Inr (loc_h, rmt_h, same)"
      using transfer_handles [OF ok assms(7,8)] by blast
    have own: "sig_owned (loc_sig_arr p) i (mpi_rank (uru_mpi (uri s)))" "sig_owned (rmt_sig_arr p) i (blk_dst_rank (rmt_blk_arr p ! i))"
      using ok by (simp_all add: transfer_ok_def Let_def)
    from plan_send_steps [OF cls cls i(2) h refl refl, of "sizes ! i"] have False unfolding i(3)
    proof (elim exE conjE, goal_cases)
      case (1 szs nx')
      from 1(6) [symmetric] show False
        unfolding res_bind_eq_Inl using sig_owned_flag [OF own(1)] sig_owned_flag [OF own(2)] by (elim disjE exE conjE) simp_all
    qed
    then show ?thesis ..
  qed blast
  then show ?thesis using assms(4,5) by (auto simp: plan_wrts_def)
qed

lemma part_fits:
  fixes a b off d z m :: u64
  assumes "unat a + unat b + unat z \<le> unat m" "unat off + unat d \<le> unat z"
  shows "a + b + off + d \<le> m"
proof -
  have m: "unat m < 2 ^ 64" using unsigned_less [of m, where 'a = nat] by simp
  have "unat (a + b) = unat a + unat b" using assms m by (intro unat_add_bounded) simp
  moreover have "unat (a + b + off) = unat (a + b) + unat off" using assms m calculation by (intro unat_add_bounded) simp
  moreover have "unat (a + b + off + d) = unat (a + b + off) + unat d" using assms m calculation by (intro unat_add_bounded) simp
  ultimately show ?thesis using assms by (simp add: word_le_nat_alt)
qed

lemma concat_length_bound: "(\<forall>xs \<in> set xss. length xs \<le> n) \<Longrightarrow> length (concat xss) \<le> n * length xss"
  by (induction xss) auto

lemma transfers_synced:
  assumes "\<forall>i < num_sends p. transfer_ok s uc p sizes i" "arrays_fit p"
    and "length (rmt_mem_arr uc) = nat (mpi_size (uru_mpi (uri s)))"
  shows "mem_synced uc (take (num_sends p) (rmt_blk_arr p)) = Inr True"
proof (rule mem_synced_all, rule ballI)
  fix b assume "b \<in> set (take (num_sends p) (rmt_blk_arr p))"
  then obtain i where "i < num_sends p" "b = rmt_blk_arr p ! i" using assms(2) by (auto simp: in_set_conv_nth arrays_fit_def)
  then show "0 \<le> blk_dst_rank b \<and> nat (blk_dst_rank b) < length (rmt_mem_arr uc) \<and>
      blk_mem_idx b < int (length (rmt_mem_arr uc ! nat (blk_dst_rank b)))"
    using assms(1,3) by (auto simp: transfer_ok_def Let_def)
qed

section \<open>Creating the parts of a plan\<close>

text \<open>
  What creating a plan relies on in a channel module: a request whose writes pass the tests of the
  module is created while there is room for it, and what one part of a plan made stays when the next is
  created.
\<close>

locale plan_maker =
  fixes once :: bool
    and works :: "('z uri_state_scheme) uri_channel \<Rightarrow> bool"
    and passes :: "'z uri_state_scheme \<Rightarrow> uri_channel_hdr \<Rightarrow> uru_transfer_t \<times> uri_wrt \<Rightarrow> bool"
    and has_room :: "nat \<Rightarrow> 'z uri_state_scheme \<Rightarrow> bool"
    and later :: "'z uri_state_scheme \<Rightarrow> 'z uri_state_scheme \<Rightarrow> bool"
    and made :: "'z uri_state_scheme \<Rightarrow> uri_channel_hdr \<Rightarrow> (uru_transfer_t \<times> uri_wrt) list \<Rightarrow> addr \<Rightarrow> bool"
  assumes later_refl: "later u u"
    and later_trans: "later u v \<Longrightarrow> later v w \<Longrightarrow> later u w"
    and passes_later: "later u v \<Longrightarrow> passes u h x \<Longrightarrow> passes v h x"
    and made_later: "later u v \<Longrightarrow> made u h ws pl \<Longrightarrow> made v h ws pl"
    and create_part: "works ch \<Longrightarrow> ws \<noteq> [] \<Longrightarrow> \<forall>x \<in> set ws. passes u (hdr ch) x \<Longrightarrow> has_room (length ws + n) u \<Longrightarrow>
      \<exists>pl v. uri_rdma_plan_create ch once (Some (map fst ws)) (map snd ws) u = Inr (pl, v) \<and> later u v \<and> has_room n v \<and>
        made v (hdr ch) ws pl"

text \<open>What the parts of a plan were made of: the writes \<open>wss\<close> of its channels from number \<open>k\<close> on.\<close>

definition part_made ::
  "(uri_channel_hdr \<Rightarrow> (uru_transfer_t \<times> uri_wrt) list \<Rightarrow> addr \<Rightarrow> bool) \<Rightarrow> 's uri_channel list \<Rightarrow>
   nat \<times> (uru_transfer_t \<times> uri_wrt) list \<Rightarrow> addr \<times> nat option \<Rightarrow> bool" where
  "part_made mk reg x pc \<longleftrightarrow> (case (x, pc) of ((c, ws), (pl, ch)) \<Rightarrow>
     if ws = [] then pl = 0 else ch = Some c \<and> mk (hdr (reg ! c)) ws pl)"

definition parts_of :: "unr_channels_t \<Rightarrow> nat \<Rightarrow> (uru_transfer_t \<times> uri_wrt) list list \<Rightarrow> (nat \<times> (uru_transfer_t \<times> uri_wrt) list) list" where
  "parts_of uc k wss = zip (map (plan_channel uc) [k..<k + length wss]) wss"

lemma parts_of_simps [simp]:
  "parts_of uc k [] = []"
  "parts_of uc k (ws # wss) = (plan_channel uc k, ws) # parts_of uc (Suc k) wss"
  by (simp_all add: parts_of_def upt_conv_Cons del: upt_Suc)

lemma part_made_mono: "part_made mk reg x pc \<Longrightarrow> (\<And>h ws pl. mk h ws pl \<Longrightarrow> mk' h ws pl) \<Longrightarrow> part_made mk' reg x pc"
  by (auto simp: part_made_def split: prod.splits if_splits)

lemma plan_wrts_count:
  assumes "channels_ok s" "unr_channels s = Some uc" "length (inter_channels uc) + length (intra_channels uc) < 256"
    and "plan_wrts uc mpi p = Inr wrts"
  shows "length wrts = length (inter_channels uc) + length (intra_channels uc)" "length (concat wrts) \<le> num_sends p * length wrts"
proof -
  obtain szs where wo: "wrts_ok uc mpi p szs (num_sends p) wrts" by (rule plan_wrts_Inr [OF assms])
  then show "length wrts = length (inter_channels uc) + length (intra_channels uc)" by (simp add: wrts_ok_def)
  have "\<forall>ws \<in> set wrts. length ws \<le> num_sends p" using wo by (auto simp: wrts_ok_def in_set_conv_nth)
  then show "length (concat wrts) \<le> num_sends p * length wrts" by (rule concat_length_bound)
qed

text \<open>The plan at \<open>a\<close> is complete and its parts were made of \<open>wss\<close>.\<close>

definition plan_made ::
  "('s \<Rightarrow> uri_channel_hdr \<Rightarrow> (uru_transfer_t \<times> uri_wrt) list \<Rightarrow> addr \<Rightarrow> bool) \<Rightarrow> unr_channels_t \<Rightarrow>
   (uru_transfer_t \<times> uri_wrt) list list \<Rightarrow> addr \<Rightarrow> 's unr_base_state \<Rightarrow> bool" where
  "plan_made mk uc wss a s \<longleftrightarrow> a \<noteq> 0 \<and> (\<exists>pl. plans s a = Some pl \<and> plan_status pl = 2 \<and>
     list_all2 (part_made (mk (uri s)) (registry s)) (parts_of uc 0 wss) (zip (uri_plan_h_arr pl) (uri_channel_h_arr pl)))"

context plan_maker
begin

lemma create_uri_plan_total:
  assumes "works (registry s ! plan_channel uc k)" "\<forall>x \<in> set ws. passes (uri s) (hdr (registry s ! plan_channel uc k)) x"
    and "has_room (length ws + n) (uri s)"
  shows "\<exists>pl ch u. create_uri_plan uc once k ws s = Inr (pl, ch, s\<lparr>uri := u\<rparr>) \<and> later (uri s) u \<and> has_room n u \<and>
    part_made (made u) (registry s) (plan_channel uc k, ws) (pl, ch)"
proof (cases "ws = []")
  case True
  then show ?thesis using assms(3) later_refl
    by (intro exI [of _ 0] exI [of _ None] exI [of _ "uri s"]) (simp add: create_uri_plan_def part_made_def)
next
  case False
  obtain pl u where "uri_rdma_plan_create (registry s ! plan_channel uc k) once (Some (map fst ws)) (map snd ws) (uri s) = Inr (pl, u)"
      "later (uri s) u" "has_room n u" "made u (hdr (registry s ! plan_channel uc k)) ws pl"
    using create_part [OF assms(1) False assms(2,3)] by blast
  then show ?thesis using False by (simp add: create_uri_plan_def part_made_def) blast
qed

lemma create_uri_plans_total:
  assumes "\<forall>i < length wss. works (registry s ! plan_channel uc (k + i))"
    and "\<forall>i < length wss. \<forall>x \<in> set (wss ! i). passes (uri s) (hdr (registry s ! plan_channel uc (k + i))) x"
    and "has_room (length (concat wss) + n) (uri s)"
  shows "\<exists>pls chs u. create_uri_plans uc once k wss s = Inr (pls, chs, s\<lparr>uri := u\<rparr>) \<and> later (uri s) u \<and> has_room n u \<and>
    list_all2 (part_made (made u) (registry s)) (parts_of uc k wss) (zip pls chs)"
  using assms
proof (induction wss arbitrary: k s)
  case Nil
  then show ?case using later_refl by (intro exI [of _ "[]"] exI [of _ "uri s"]) simp
next
  case (Cons ws wss)
  have 0: "works (registry s ! plan_channel uc k)" "\<forall>x \<in> set ws. passes (uri s) (hdr (registry s ! plan_channel uc k)) x"
      "has_room (length ws + (length (concat wss) + n)) (uri s)"
    using Cons.prems(1) [rule_format, of 0] Cons.prems(2) [rule_format, of 0] Cons.prems(3) by (simp_all add: add.assoc)
  obtain pl ch v where v: "create_uri_plan uc once k ws s = Inr (pl, ch, s\<lparr>uri := v\<rparr>)" "later (uri s) v"
      "has_room (length (concat wss) + n) v" "part_made (made v) (registry s) (plan_channel uc k, ws) (pl, ch)"
    using create_uri_plan_total [OF 0] by blast
  let ?s = "s\<lparr>uri := v\<rparr>"
  have "\<forall>i < length wss. works (registry ?s ! plan_channel uc (Suc k + i))"
    using Cons.prems(1) by (fastforce dest: spec [of _ "Suc i" for i])
  moreover have "\<forall>i < length wss. \<forall>x \<in> set (wss ! i). passes (uri ?s) (hdr (registry ?s ! plan_channel uc (Suc k + i))) x"
    using Cons.prems(2) passes_later [OF v(2)] by (fastforce dest: spec [of _ "Suc i" for i])
  ultimately obtain pls chs u where u: "create_uri_plans uc once (Suc k) wss ?s = Inr (pls, chs, ?s\<lparr>uri := u\<rparr>)"
      "later v u" "has_room n u" "list_all2 (part_made (made u) (registry s)) (parts_of uc (Suc k) wss) (zip pls chs)"
    using Cons.IH [of ?s "Suc k"] v(3) by auto
  have "part_made (made u) (registry s) (plan_channel uc k, ws) (pl, ch)"
    using v(4) by (rule part_made_mono) (rule made_later [OF u(2)])
  then show ?case using v(1) u later_trans [OF v(2) u(2)] by simp blast
qed

lemma build_plan_total:
  assumes "unr_channels s = Some uc" "plan_wrts uc (uru_mpi (uri s)) p = Inr wrts" "once_now p = once"
    and "\<forall>k < length wrts. works (registry s ! plan_channel uc k)"
    and "\<forall>k < length wrts. \<forall>x \<in> set (wrts ! k). passes (uri s) (hdr (registry s ! plan_channel uc k)) x"
    and "has_room (length (concat wrts) + n) (uri s)"
  shows "\<exists>pl u. build_plan p s = Inr (pl, s\<lparr>uri := u\<rparr>) \<and> plan_status pl = 2 \<and> later (uri s) u \<and> has_room n u \<and>
    list_all2 (part_made (made u) (registry s)) (parts_of uc 0 wrts) (zip (uri_plan_h_arr pl) (uri_channel_h_arr pl))"
proof -
  obtain pls chs u where u: "create_uri_plans uc once 0 wrts s = Inr (pls, chs, s\<lparr>uri := u\<rparr>)" "later (uri s) u"
      "has_room n u" "list_all2 (part_made (made u) (registry s)) (parts_of uc 0 wrts) (zip pls chs)"
    using create_uri_plans_total [of wrts s uc 0 n] assms(4-6) by auto
  then have "build_plan p s = Inr (\<lparr>plan_status = 2, num_uri_plan = plan_count uc, uri_plan_h_arr = pls, uri_channel_h_arr = chs,
      para = None\<rparr>, s\<lparr>uri := u\<rparr>)"
    using assms(1-3) by (simp add: build_plan_def)
  then show ?thesis using u(2-4) by fastforce
qed

lemma plan_create_total:
  assumes "unr_channels s = Some uc" "plan_wrts uc (uru_mpi (uri s)) p = Inr wrts" "once_now p = once"
    and "\<forall>k < length wrts. works (registry s ! plan_channel uc k)"
    and "\<forall>k < length wrts. \<forall>x \<in> set (wrts ! k). passes (uri s) (hdr (registry s ! plan_channel uc k)) x"
    and "has_room (length (concat wrts) + n) (uri s)" "u_brk s \<noteq> 0" "arrays_fit p"
    and "mem_synced uc (take (num_sends p) (rmt_blk_arr p)) = Inr True"
  shows "\<exists>a t. unr_rdma_plan_create True p s = Inr (a, t) \<and> later (uri s) (uri t) \<and> has_room n (uri t) \<and>
    registry t = registry s \<and> unr_channels t = unr_channels s \<and> (\<not> once \<longrightarrow> plan_made made uc wrts a t)"
proof -
  let ?s = "with_heap (plans s) (Suc (u_brk s)) s"
  obtain pl u where b: "build_plan p s = Inr (pl, s\<lparr>uri := u\<rparr>)" "plan_status pl = 2" "later (uri s) u" "has_room n u"
      "list_all2 (part_made (made u) (registry s)) (parts_of uc 0 wrts) (zip (uri_plan_h_arr pl) (uri_channel_h_arr pl))"
    using build_plan_total [OF assms(1-6)] by blast
  have s: "s\<lparr>u_brk := Suc (u_brk s)\<rparr> = ?s" by (simp add: with_heap_def)
  have b': "build_plan p ?s = Inr (pl, with_heap (plans s) (Suc (u_brk s)) (s\<lparr>uri := u\<rparr>))"
    by (simp add: build_plan_heap b(1))
  show ?thesis
  proof (cases once)
    case True
    then show ?thesis using b(3,4)
      by (simp add: unr_rdma_plan_create_def assms(1,3,8,9) Let_def s b' finish_plan_def)
  next
    case False
    have "unr_rdma_plan_create True p s = Inr (u_brk s, (with_heap (plans s) (Suc (u_brk s)) (s\<lparr>uri := u\<rparr>))
        \<lparr>plans := (plans s)(u_brk s \<mapsto> pl)\<rparr>)"
      using False by (simp add: unr_rdma_plan_create_def assms(1,3,8,9) Let_def s b' finish_plan_def)
    then show ?thesis using b(2-5) assms(1,7) by (simp add: plan_made_def)
  qed
qed

end

end
