(* ===== verification/Uri_Mpi_Room.thy ===== *)
theory Uri_Mpi_Room
  imports Uri_Mpi_Pair
begin

text \<open>
  When creating a plan over an MPI channel succeeds, \<open>uri_mpi_rdma_plan_create\<close> of
  \<open>src/uri/mpi/uri_mpi_rdma.c\<close>: every write passes its tests, and the pools of tags and of batch
  identifiers have room. Nothing else can end the process: the grouping finds a receiver for every
  write, the queue of requests grows as needed, and every operation it reads or frees exists.
\<close>

section \<open>Room in the pools of a peer\<close>

definition pools_room :: "uru_mpi_t \<Rightarrow> uri_mpi_int_pool list \<Rightarrow> nat \<Rightarrow> bool" where
  "pools_room u pools n \<longleftrightarrow> length pools = nat (mpi_size u) \<and>
     (\<forall>pool \<in> set pools. \<exists>out. int_pool_inv u pool out \<and> card out + n \<le> id_room u)"

text \<open>The module has room for \<open>n\<close> more tags and \<open>m\<close> more batches for every peer.\<close>

definition mpi_room :: "nat \<Rightarrow> nat \<Rightarrow> ('z) uri_mpi_state_scheme \<Rightarrow> bool" where
  "mpi_room n m s \<longleftrightarrow> pools_room (uru_mpi s) (mpi_tag s) n \<and> pools_room (uru_mpi s) (batch_id s) m"

lemma pools_room_less: "pools_room u pools n \<Longrightarrow> m \<le> n \<Longrightarrow> pools_room u pools m"
  unfolding pools_room_def by (meson add_le_mono order_refl order_trans)

lemma mpi_room_less: "mpi_room n m s \<Longrightarrow> n' \<le> n \<Longrightarrow> m' \<le> m \<Longrightarrow> mpi_room n' m' s"
  unfolding mpi_room_def using pools_room_less by blast

lemma pools_room_take:
  assumes "pools_room u pools (Suc n)" "r < length pools"
  obtains x pool where "uri_mpi_int_pool_get u (pools ! r) = Inr (x, pool)" "pools_room u (pools[r := pool]) n"
proof -
  obtain out where out: "int_pool_inv u (pools ! r) out" "card out + Suc n \<le> id_room u"
    using assms nth_mem [OF assms(2)] unfolding pools_room_def by blast
  then obtain x pool where x: "uri_mpi_int_pool_get u (pools ! r) = Inr (x, pool)"
    using ip.get_total [OF out(1)] by auto
  note n = ip.get_new [OF out(1) x]
  have "card (insert x out) + n \<le> id_room u" using out(2) n ip.finite_out [OF out(1)] by simp
  moreover have "\<forall>q \<in> set pools. \<exists>out. int_pool_inv u q out \<and> card out + n \<le> id_room u"
    using pools_room_less [OF assms(1), of n] by (simp add: pools_room_def)
  ultimately have "pools_room u (pools[r := pool]) n"
    using n assms(1) set_update_subset_insert [of pools r pool] unfolding pools_room_def by fastforce
  then show thesis using that [OF x] by blast
qed

text \<open>After \<open>uri_mpi_channel_open\<close> all identifiers are free.\<close>

lemma pools_room_init: "u_ok u \<Longrightarrow> n \<le> id_room u \<Longrightarrow> pools_room u (replicate (nat (mpi_size u)) int_pool_init) n"
  using int_pool_run_inv [OF run_init, of u] by (fastforce simp: pools_room_def)

section \<open>The heap of operations grows\<close>

definition grows :: "('z) uri_mpi_state_scheme \<Rightarrow> 'z uri_mpi_state_scheme \<Rightarrow> bool" where
  "grows s t \<longleftrightarrow> brk s \<le> brk t \<and> (\<forall>a < brk s. op_heap t a = op_heap s a \<and> mpi_plans t a = mpi_plans s a) \<and> mems t = mems s \<and> uru_mpi t = uru_mpi s"

lemma grows_refl [simp]: "grows s s"
  by (simp add: grows_def)

lemma grows_trans: "grows s t \<Longrightarrow> grows t v \<Longrightarrow> grows s v"
  by (auto simp: grows_def)

lemma growsD: "grows s t \<Longrightarrow> mems t = mems s \<and> uru_mpi t = uru_mpi s \<and> brk s \<le> brk t"
  by (simp add: grows_def)

definition ptr_ok :: "('z) uri_mpi_state_scheme \<Rightarrow> op_ptr \<Rightarrow> bool" where
  "ptr_ok s p \<longleftrightarrow> fst p < brk s \<and> (\<exists>ops. op_heap s (fst p) = Some ops \<and> snd p < length ops)"

lemma ptr_ok_grows: "grows s t \<Longrightarrow> ptr_ok s p \<Longrightarrow> ptr_ok t p"
  by (fastforce simp: grows_def ptr_ok_def)

lemma grows_alloc: "op_alloc ops s = (b, t) \<Longrightarrow> grows s t \<and> b = brk s \<and> op_heap t b = Some ops \<and> brk t = Suc b"
  by (auto simp: op_alloc_def grows_def)

lemma grows_ctrl: "send_ctrl d m s = (p, t) \<Longrightarrow> grows s t \<and> ptr_ok t p"
  by (auto simp: send_ctrl_eq grows_def ptr_ok_def)

section \<open>A write that passes\<close>

definition wrt_passes :: "mem_store \<Rightarrow> uru_mpi_t \<Rightarrow> uri_channel_hdr \<Rightarrow> uru_transfer_t \<times> uri_wrt \<Rightarrow> bool" where
  "wrt_passes heads u ch tw \<longleftrightarrow> (case tw of (t, w) \<Rightarrow> \<exists>la ls ra rs rr.
     uri_mem_get_info heads ch (loc_mem w) = Inr (la, ls, mpi_rank u) \<and> loc_offset w + dma_size w \<le> ls \<and>
     uri_mem_get_info heads ch (rmt_mem w) = Inr (ra, rs, rr) \<and> rmt_offset w + dma_size w \<le> rs \<and>
     0 \<le> rr \<and> rr < mpi_size u \<and> t \<noteq> URU_TRANSFER_TYPE_UNKNOWN)"

lemma free_flags: "(FREE_OP :: u32) AND FREE_TAG = 0"
  by (simp add: op_flag_defs)

lemma create_wrt_total:
  assumes "wrt_passes (mems s) (uru_mpi s) ch tw" "mpi_room (Suc n) m s"
  shows "\<exists>so ro ps t. create_wrt ch once tw s = Inr (so, ro, ps, t) \<and> grows s t \<and> mpi_room n m t \<and>
    (\<forall>p \<in> set ps. ptr_ok t p) \<and> 0 \<le> op_rank ro \<and> op_rank ro < mpi_size (uru_mpi s)"
proof -
  obtain ty w where tw: "tw = (ty, w)" by (cases tw)
  obtain la ls ra rs rr where w: "uri_mem_get_info (mems s) ch (loc_mem w) = Inr (la, ls, mpi_rank (uru_mpi s))"
      "loc_offset w + dma_size w \<le> ls" "uri_mem_get_info (mems s) ch (rmt_mem w) = Inr (ra, rs, rr)"
      "rmt_offset w + dma_size w \<le> rs" "0 \<le> rr" "rr < mpi_size (uru_mpi s)" "ty \<noteq> URU_TRANSFER_TYPE_UNKNOWN"
    using assms(1) by (auto simp: wrt_passes_def tw)
  have r: "nat rr < length (mpi_tag s)" using assms(2) w(5,6) by (auto simp: mpi_room_def pools_room_def)
  obtain x pool where x: "uri_mpi_int_pool_get (uru_mpi s) (mpi_tag s ! nat rr) = Inr (x, pool)"
      "pools_room (uru_mpi s) ((mpi_tag s)[nat rr := pool]) n"
    using assms(2) r by (auto simp: mpi_room_def elim: pools_room_take)
  have tag: "get_tag rr s = Inr (x, s\<lparr>mpi_tag := (mpi_tag s)[nat rr := pool]\<rparr>)" using x(1) w(5) r by (simp add: get_tag_def)
  have ot: "\<exists>a b. op_types ty = Inr (a, b)" using w(7) by (cases ty) (simp_all add: op_types_def)
  then show ?thesis using w x(2) assms(2) tag
    by (cases once) (auto simp: tw create_wrt_def Let_def mpi_issue_def op_alloc_def grows_def mpi_room_def ptr_ok_def
        keep_flags free_flags zero_op_def)
qed

lemma create_wrts_total:
  assumes "\<forall>w \<in> set ws. wrt_passes (mems s) (uru_mpi s) ch w" "mpi_room (length ws + n) m s"
  shows "\<exists>sos ros ps t. create_wrts ch once ws s = Inr (sos, ros, ps, t) \<and> grows s t \<and> mpi_room n m t \<and>
    (\<forall>p \<in> set ps. ptr_ok t p) \<and> length ros = length ws \<and>
    (\<forall>ro \<in> set ros. 0 \<le> op_rank ro \<and> op_rank ro < mpi_size (uru_mpi s))"
  using assms
proof (induction ws arbitrary: s)
  case (Cons w ws)
  have "wrt_passes (mems s) (uru_mpi s) ch w" "mpi_room (Suc (length ws + n)) m s" using Cons.prems by simp_all
  from create_wrt_total [OF this, of once] obtain so ro ps1 v where v: "create_wrt ch once w s = Inr (so, ro, ps1, v)"
      "grows s v" "mpi_room (length ws + n) m v" "\<forall>p \<in> set ps1. ptr_ok v p"
      "0 \<le> op_rank ro" "op_rank ro < mpi_size (uru_mpi s)"
    by blast
  have "\<forall>w \<in> set ws. wrt_passes (mems v) (uru_mpi v) ch w" using Cons.prems(1) growsD [OF v(2)] by simp
  from Cons.IH [OF this v(3)] obtain sos ros ps2 t where t: "create_wrts ch once ws v = Inr (sos, ros, ps2, t)"
      "grows v t" "mpi_room n m t" "\<forall>p \<in> set ps2. ptr_ok t p" "length ros = length ws"
      "\<forall>ro \<in> set ros. 0 \<le> op_rank ro \<and> op_rank ro < mpi_size (uru_mpi v)"
    by blast
  show ?case using v t grows_trans [OF v(2) t(2)] growsD [OF v(2)] ptr_ok_grows [OF t(2)] by auto
qed simp

section \<open>Announcing the groups\<close>

lemma announce_total:
  assumes "mpi_room n (Suc m) s" "0 \<le> op_rank (hd run)" "op_rank (hd run) < mpi_size (uru_mpi s)"
  shows "\<exists>b p t. announce once run s = Inr (b, p, t) \<and> grows s t \<and> mpi_room n m t \<and> ptr_ok t p \<and>
    b_ops b = brk s \<and> op_heap t (b_ops b) = Some run \<and> brk s < brk t"
proof -
  let ?r = "op_rank (hd run)" and ?s = "s\<lparr>op_heap := (op_heap s)(brk s \<mapsto> run), brk := Suc (brk s)\<rparr>"
  have r: "nat ?r < length (batch_id s)" using assms by (auto simp: mpi_room_def pools_room_def)
  obtain x pool where x: "uri_mpi_int_pool_get (uru_mpi s) (batch_id s ! nat ?r) = Inr (x, pool)"
      "pools_room (uru_mpi s) ((batch_id s)[nat ?r := pool]) m"
    using assms(1) r by (auto simp: mpi_room_def elim: pools_room_take)
  have "get_batch_id ?r ?s = Inr (x, ?s\<lparr>batch_id := (batch_id s)[nat ?r := pool]\<rparr>)"
    using x(1) assms(2) r by (simp add: get_batch_id_def)
  moreover have "mpi_room n m s" by (rule mpi_room_less [OF assms(1)]) simp_all
  ultimately show ?thesis using x(2) assms(1)
    by (cases once) (auto simp: announce_def Let_def op_alloc_def send_ctrl_eq grows_def ptr_ok_def mpi_room_def)
qed

lemma announce_all_total:
  assumes "mpi_room n (length runs + m) s" "\<forall>run \<in> set runs. 0 \<le> op_rank (hd run) \<and> op_rank (hd run) < mpi_size (uru_mpi s)"
  shows "\<exists>bs ps t. announce_all once runs s = Inr (bs, ps, t) \<and> grows s t \<and> mpi_room n m t \<and>
    (\<forall>p \<in> set ps. ptr_ok t p) \<and> distinct (map b_ops bs) \<and>
    (\<forall>b \<in> set bs. brk s \<le> b_ops b \<and> b_ops b < brk t \<and> (\<exists>run \<in> set runs. op_heap t (b_ops b) = Some run))"
  using assms
proof (induction runs arbitrary: s)
  case (Cons run runs)
  have "mpi_room n (Suc (length runs + m)) s" using Cons.prems(1) by simp
  from announce_total [OF this, of run once] Cons.prems(2) obtain b p v where v: "announce once run s = Inr (b, p, v)" "grows s v"
      "mpi_room n (length runs + m) v" "ptr_ok v p" "b_ops b = brk s" "op_heap v (b_ops b) = Some run" "brk s < brk v"
    by auto
  from Cons.IH [OF v(3)] Cons.prems(2) growsD [OF v(2)] obtain bs ps t where
      t: "announce_all once runs v = Inr (bs, ps, t)" "grows v t" "mpi_room n m t" "\<forall>p \<in> set ps. ptr_ok t p"
        "distinct (map b_ops bs)" "\<forall>b \<in> set bs. brk v \<le> b_ops b \<and> b_ops b < brk t \<and> (\<exists>run \<in> set runs. op_heap t (b_ops b) = Some run)"
    by auto
  have "op_heap t (b_ops b) = Some run" "b_ops b < brk t" using t(2) v(5-7) by (auto simp: grows_def)
  moreover have "b_ops b \<notin> b_ops ` set bs" using t(6) v(5,7) by fastforce
  moreover have "\<forall>b \<in> set bs. brk s \<le> b_ops b" using t(6) v(7) by fastforce
  ultimately show ?case
    using v t grows_trans [OF v(2) t(2)] ptr_ok_grows [OF t(2) v(4)] by (intro exI [of _ "b # bs"] exI [of _ "p # ps"] exI [of _ t]) auto
qed simp

section \<open>Queueing and freeing\<close>

lemma req_put_total:
  assumes "ptr_ok s p" "arr_tail s < length (req_q s)"
  shows "\<exists>t. req_put p s = Inr t \<and> length (req_q t) = length (req_q s) \<and> arr_tail t = Suc (arr_tail s) \<and>
    (\<exists>q n. t = s\<lparr>req_q := q, arr_tail := n\<rparr>)"
proof -
  obtain ops where ops: "op_heap s (fst p) = Some ops" "snd p < length ops" using assms(1) by (auto simp: ptr_ok_def)
  then have "req_put p s = Inr (s\<lparr>req_q := (req_q s)[arr_tail s := (op_req (ops ! snd p), p)], arr_tail := Suc (arr_tail s)\<rparr>)"
    using assms(2) by (simp add: req_put_def op_load_def op_block_def)
  then show ?thesis by (intro exI conjI) (assumption | rule refl | simp)+
qed

lemma req_puts_total:
  assumes "\<forall>p \<in> set ps. ptr_ok s p" "arr_tail s + length ps \<le> length (req_q s)"
  shows "\<exists>t. fold_res req_put ps s = Inr t"
  using assms
proof (induction ps arbitrary: s)
  case (Cons p ps)
  obtain v q n where v: "req_put p s = Inr v" "length (req_q v) = length (req_q s)" "arr_tail v = Suc (arr_tail s)"
      "v = s\<lparr>req_q := q, arr_tail := n\<rparr>"
    using req_put_total [of s p] Cons.prems by auto
  have "\<forall>p \<in> set ps. ptr_ok v p" using Cons.prems(1) by (simp add: v(4) ptr_ok_def)
  then show ?case using Cons.IH [of v] Cons.prems(2) v(1-3) by auto
qed simp

lemma que_app_total:
  assumes "\<forall>p \<in> set ps. ptr_ok s p"
  obtains q n where "uri_mpi_req_que_app ps s = Inr (s\<lparr>req_q := q, arr_tail := n\<rparr>)"
proof -
  have "\<exists>t. uri_mpi_req_que_app ps s = Inr t"
    unfolding uri_mpi_req_que_app_def Let_def by (rule req_puts_total) (use assms in \<open>auto simp: ptr_ok_def\<close>)
  then obtain t where t: "uri_mpi_req_que_app ps s = Inr t" by blast
  show thesis by (rule que_app_frame [OF t]) (use that t in simp)
qed

lemma op_frees_total:
  assumes "distinct (map f xs)" "\<forall>x \<in> set xs. op_heap s (f x) \<noteq> None"
  shows "\<exists>h. fold_res (\<lambda>x. op_free (f x)) xs s = Inr (s\<lparr>op_heap := h\<rparr>) \<and> (\<forall>a. a \<notin> f ` set xs \<longrightarrow> h a = op_heap s a)"
  using assms
proof (induction xs arbitrary: s)
  case Nil
  then show ?case by (intro exI [of _ "op_heap s"]) simp
next
  case (Cons x xs)
  let ?s = "s\<lparr>op_heap := (op_heap s)(f x := None)\<rparr>"
  have 1: "op_free (f x) s = Inr ?s" using Cons.prems(2) by (auto simp: op_free_def op_block_def)
  have "f x \<notin> f ` set xs" using Cons.prems(1) by simp
  then have "\<forall>y \<in> set xs. f y \<noteq> f x" by (metis imageI)
  then have "\<forall>y \<in> set xs. op_heap ?s (f y) \<noteq> None" using Cons.prems(2) by simp
  then obtain h where "fold_res (\<lambda>x. op_free (f x)) xs ?s = Inr (?s\<lparr>op_heap := h\<rparr>)"
      "\<forall>a. a \<notin> f ` set xs \<longrightarrow> h a = op_heap ?s a"
    using Cons.IH [of ?s] Cons.prems(1) by auto
  then show ?case using 1 by auto
qed

section \<open>Starting a plan\<close>

text \<open>A plan whose operations are all in memory.\<close>

definition startable :: "('z) uri_mpi_state_scheme \<Rightarrow> addr \<Rightarrow> bool" where
  "startable s p \<longleftrightarrow> p < brk s \<and> (\<exists>pl. mpi_plans s p = Some pl \<and>
     b_ops (pl_send_batch pl) < brk s \<and> op_heap s (b_ops (pl_send_batch pl)) \<noteq> None \<and>
     (\<forall>b \<in> set (pl_recv_batch pl). b_ops b < brk s \<and> (\<exists>op ops. op_heap s (b_ops b) = Some (op # ops))))"

lemma startable_grows: "grows s t \<Longrightarrow> startable s p \<Longrightarrow> startable t p"
  unfolding startable_def grows_def by (elim conjE exE) (intro conjI exI, auto)

lemma start_all_total:
  assumes "\<forall>b \<in> set bs. b_ops b < brk s \<and> (\<exists>op ops. op_heap s (b_ops b) = Some (op # ops))"
  shows "\<exists>ps t. start_all bs s = Inr (ps, t) \<and> grows s t \<and> (\<forall>p \<in> set ps. ptr_ok t p) \<and>
    mpi_tag t = mpi_tag s \<and> batch_id t = batch_id s"
  using assms
proof (induction bs arbitrary: s)
  case (Cons b bs)
  obtain op ops where op: "op_heap s (b_ops b) = Some (op # ops)" using Cons.prems by auto
  let ?msg = "\<lparr>cm_type = start_op_batch, cm_batch_id = b_batch_id b, cm_ops = None\<rparr>"
  obtain p v where v: "send_ctrl (op_rank op) ?msg s = (p, v)" by (cases "send_ctrl (op_rank op) ?msg s")
  note g = grows_ctrl [OF v]
  have "\<forall>b \<in> set bs. b_ops b < brk v \<and> (\<exists>op ops. op_heap v (b_ops b) = Some (op # ops))"
    using Cons.prems g by (fastforce simp: grows_def)
  then obtain ps t where t: "start_all bs v = Inr (ps, t)" "grows v t" "\<forall>p \<in> set ps. ptr_ok t p"
      "mpi_tag t = mpi_tag v" "batch_id t = batch_id v"
    using Cons.IH by blast
  have "mpi_tag v = mpi_tag s" "batch_id v = batch_id s" using v by (auto simp: send_ctrl_eq)
  then show ?case using t g v op grows_trans [of s v t] ptr_ok_grows [OF t(2)]
    by (simp add: batch_rank_def op_load_def op_block_def)
qed simp

lemma mpi_plan_start_total:
  assumes "startable s p"
  shows "\<exists>t. uri_mpi_rdma_plan_start ch p s = Inr (URU_STATUS_OK, t) \<and> grows s t \<and>
    mpi_tag t = mpi_tag s \<and> batch_id t = batch_id s"
proof -
  obtain pl sos where pl: "mpi_plans s p = Some pl" "b_ops (pl_send_batch pl) < brk s"
      "op_heap s (b_ops (pl_send_batch pl)) = Some sos"
      "\<forall>b \<in> set (pl_recv_batch pl). b_ops b < brk s \<and> (\<exists>op ops. op_heap s (b_ops b) = Some (op # ops))"
    using assms by (auto simp: startable_def)
  obtain ps v where v: "start_all (pl_recv_batch pl) s = Inr (ps, v)" "grows s v" "\<forall>p \<in> set ps. ptr_ok v p"
      "mpi_tag v = mpi_tag s" "batch_id v = batch_id s"
    using start_all_total [OF pl(4)] by blast
  let ?w = "issue_all (\<lambda>op. MPI_Start (op_req op)) sos v" and ?b = "b_ops (pl_send_batch pl)"
  have b: "op_heap v ?b = Some sos" "?b < brk v" using v(2) pl(2,3) by (auto simp: grows_def)
  obtain l where w: "?w = v\<lparr>mpi_log := l\<rparr>" by (simp add: issue_all_def)
  have "\<forall>p \<in> set (ps @ block_ptrs ?b sos). ptr_ok ?w p"
    using v(3) b by (auto simp: w ptr_ok_def block_ptrs_def)
  then obtain q n where q: "uri_mpi_req_que_app (ps @ block_ptrs ?b sos) ?w = Inr (?w\<lparr>req_q := q, arr_tail := n\<rparr>)"
    by (rule que_app_total)
  have "uri_mpi_rdma_plan_start ch p s = Inr (URU_STATUS_OK, ?w\<lparr>req_q := q, arr_tail := n\<rparr>)"
    using pl(1) v(1) b(1) q by (simp add: uri_mpi_rdma_plan_start_def load_plan_def op_block_def)
  moreover have "grows s (?w\<lparr>req_q := q, arr_tail := n\<rparr>)" using v(2) by (simp add: w grows_def)
  ultimately show ?thesis using v(4,5) by (simp add: w)
qed

section \<open>Creating a plan\<close>

lemma run_ranks:
  assumes "recv_runs k ops = Inr runs" "rank_sorted ops" "run \<in> set runs"
  shows "hd run \<in> set ops"
  using recv_runs_distinct [OF assms(2,1)] assms(3) by (meson hd_in_set subsetD)

lemma mpi_plan_create_total:
  assumes "qsort_spec qsort" "ws \<noteq> []" "\<forall>w \<in> set ws. wrt_passes (mems s) (uru_mpi s) ch w"
    and "mpi_room (length ws + n) (length ws + m) s"
  shows "\<exists>p t. uri_mpi_rdma_plan_create qsort ch once ws s = Inr (p, t) \<and> p \<noteq> 0 \<and> grows s t \<and> mpi_room n m t \<and>
    (\<not> once \<longrightarrow> startable t p)"
proof -
  obtain sos ros ps v where v: "create_wrts ch once ws s = Inr (sos, ros, ps, v)" "grows s v" "mpi_room n (length ws + m) v"
      "\<forall>p \<in> set ps. ptr_ok v p" "length ros = length ws" "\<forall>ro \<in> set ros. 0 \<le> op_rank ro \<and> op_rank ro < mpi_size (uru_mpi s)"
    using create_wrts_total [OF assms(3,4)] by blast
  have ms: "mset (qsort ros) = mset ros" using assms(1) by (simp add: qsort_spec_def)
  then have eq: "set (qsort ros) = set ros" "length (qsort ros) = length ros" by (metis set_mset_mset, metis size_mset)
  have ne: "qsort ros \<noteq> []" using eq(2) v(5) assms(2) by auto
  obtain runs where runs: "recv_runs (num_receiver (qsort ros)) (qsort ros) = Inr runs"
      "concat runs = qsort ros" "list_all is_run runs"
    using recv_runs_ok [OF ne] by blast
  have "length rs \<le> length (concat rs)" if "list_all is_run rs" for rs
    using that
  proof (induction rs)
    case (Cons r rs)
    then show ?case by (cases r) (auto simp: is_run_def)
  qed simp
  from this [OF runs(3)] have "length runs \<le> length (concat runs)" .
  then have lr: "length runs \<le> length ws" using runs(2) eq(2) v(5) by simp
  have nonempty: "run \<noteq> []" if "run \<in> set runs" for run using runs(3) that by (auto simp: list_all_iff is_run_def)
  have "\<forall>run \<in> set runs. 0 \<le> op_rank (hd run) \<and> op_rank (hd run) < mpi_size (uru_mpi v)"
    using run_ranks [OF runs(1) qsort_rank_sorted [OF assms(1)]] v(6) eq(1) growsD [OF v(2)] by simp
  moreover have "mpi_room n (length runs + m) v" by (rule mpi_room_less [OF v(3)]) (use lr in simp_all)
  ultimately obtain bs ps' w where w: "announce_all once runs v = Inr (bs, ps', w)" "grows v w" "mpi_room n m w"
      "\<forall>p \<in> set ps'. ptr_ok w p" "distinct (map b_ops bs)"
      "\<forall>b \<in> set bs. brk v \<le> b_ops b \<and> b_ops b < brk w \<and> (\<exists>run \<in> set runs. op_heap w (b_ops b) = Some run)"
    using announce_all_total by blast
  have "\<forall>p \<in> set (ps @ ps'). ptr_ok w p" using v(4) w(4) ptr_ok_grows [OF w(2)] by auto
  then obtain q k where q: "uri_mpi_req_que_app (ps @ ps') w = Inr (w\<lparr>req_q := q, arr_tail := k\<rparr>)" by (rule que_app_total)
  let ?x = "w\<lparr>req_q := q, arr_tail := k, op_heap := (op_heap w)(brk w \<mapsto> sos), brk := Suc (Suc (brk w))\<rparr>"
  have gx: "grows s ?x" "mpi_room n m ?x"
    using grows_trans [OF v(2) w(2)] w(3) by (auto simp: grows_def mpi_room_def)
  show ?thesis
  proof (cases once)
    case False
    have "brk s \<le> Suc (brk w)" "\<forall>a < brk s. mpi_plans w a = mpi_plans s a"
      using grows_trans [OF v(2) w(2)] by (simp_all add: grows_def)
    then have g: "grows s (?x\<lparr>mpi_plans := (mpi_plans w)(Suc (brk w) \<mapsto> pl)\<rparr>)" for pl using gx(1) by (auto simp: grows_def)
    have rm: "mpi_room n m (?x\<lparr>mpi_plans := P\<rparr>)" for P using gx(2) by (simp add: mpi_room_def)
    have "uri_mpi_rdma_plan_create qsort ch once ws s = Inr (Suc (brk w), ?x\<lparr>mpi_plans := (mpi_plans w)(Suc (brk w) \<mapsto>
        \<lparr>pl_send_batch = \<lparr>b_batch_id = - 1, b_ops = brk w\<rparr>, pl_recv_batch = bs\<rparr>)\<rparr>)"
      using v(1) runs(1) w(1) q False by (simp add: uri_mpi_rdma_plan_create_def Let_def op_alloc_def)
    moreover have "startable (?x\<lparr>mpi_plans := (mpi_plans w)(Suc (brk w) \<mapsto>
        \<lparr>pl_send_batch = \<lparr>b_batch_id = - 1, b_ops = brk w\<rparr>, pl_recv_batch = bs\<rparr>)\<rparr>) (Suc (brk w))"
      using w(6) nonempty by (fastforce simp: startable_def neq_Nil_conv)
    ultimately show ?thesis using g rm by blast
  next
    case True
    let ?y = "?x\<lparr>op_heap := (op_heap ?x)(brk w := None)\<rparr>"
    have 1: "op_free (brk w) ?x = Inr ?y" by (simp add: op_free_def op_block_def)
    have "\<forall>b \<in> set bs. op_heap ?y (b_ops b) \<noteq> None" using w(6) by auto
    then obtain h where h: "fold_res (\<lambda>b. op_free (b_ops b)) bs ?y = Inr (?y\<lparr>op_heap := h\<rparr>)"
        "\<forall>a. a \<notin> b_ops ` set bs \<longrightarrow> h a = op_heap ?y a"
      using op_frees_total [OF w(5)] by blast
    have "h a = op_heap s a" if "a < brk s" for a
    proof -
      have "brk s \<le> brk v" "brk v \<le> brk w" using growsD [OF v(2)] growsD [OF w(2)] by blast+
      moreover have "a \<notin> b_ops ` set bs" using w(6) that calculation(1) by fastforce
      moreover have "op_heap ?x a = op_heap s a" using gx(1) that by (simp add: grows_def)
      ultimately show ?thesis using h(2) that by auto
    qed
    then have "grows s (?y\<lparr>op_heap := h\<rparr>)" using gx(1) by (simp add: grows_def)
    moreover have "mpi_room n m (?y\<lparr>op_heap := h\<rparr>)" using gx(2) by (simp add: mpi_room_def)
    moreover have "uri_mpi_rdma_plan_create qsort ch once ws s = Inr (Suc (brk w), ?y\<lparr>op_heap := h\<rparr>)"
      using v(1) runs(1) w(1) q True 1 h(1) by (simp add: uri_mpi_rdma_plan_create_def Let_def op_alloc_def)
    ultimately show ?thesis using True by blast
  qed
qed

end
