(* ===== verification/Unr_Mpi_Plan.thy ===== *)
theory Unr_Mpi_Plan
  imports Unr_Valid Uri_Mpi_Room
begin

text \<open>
  The library over MPI channels, from the call that creates a plan (\<open>src/unr/base/unr_blk.c\<close>) down to
  the operations of the channel (\<open>src/uri/mpi/uri_mpi_rdma.c\<close>): what the layer above hands to a
  channel passes all tests of the channel, so a plan whose blocks lie in their memories is created
  and can be started.
\<close>

section \<open>MPI channels\<close>

text \<open>The channels in use are MPI channels, and the table of nodes has an entry for every process.\<close>

definition mpi_channel :: "(uri_mpi_op_t list \<Rightarrow> uri_mpi_op_t list) \<Rightarrow> uri_mpi_state uri_channel \<Rightarrow> bool" where
  "mpi_channel qsort ch \<longleftrightarrow> opened (hdr ch) \<and> (\<exists>fp. func_ptrs ch = Some fp \<and>
     rdma_plan_create fp = Some (uri_mpi_rdma_plan_create qsort) \<and> rdma_plan_start fp = Some uri_mpi_rdma_plan_start)"

definition over_mpi :: "(uri_mpi_op_t list \<Rightarrow> uri_mpi_op_t list) \<Rightarrow> uri_mpi_state unr_base_state \<Rightarrow> unr_channels_t \<Rightarrow> bool" where
  "over_mpi qsort s uc \<longleftrightarrow> qsort_spec qsort \<and> length (same_node (uru_mpi (uri s))) = nat (mpi_size (uru_mpi (uri s))) \<and>
     (\<forall>k < length (inter_channels uc) + length (intra_channels uc). mpi_channel qsort (registry s ! plan_channel uc k))"

section \<open>The tests of the channel\<close>

lemma plan_wrts_pass:
  assumes "handles_ok s" "unr_channels s = Some uc" "length (inter_channels uc) + length (intra_channels uc) < 256"
    and "plan_sizes p = Inr sizes" "\<forall>i < num_sends p. transfer_ok s uc p sizes i"
    and "plan_wrts uc (uru_mpi (uri s)) p = Inr wrts" "k < length wrts" "(t, w) \<in> set (wrts ! k)"
  shows "wrt_passes (mems (uri s)) (uru_mpi (uri s)) (hdr (registry s ! plan_channel uc k)) (t, w)"
proof (rule plan_write_part [OF assms(1-3,6-8)])
  fix szs i loc rmt off
  assume i: "i < num_sends p" and "plan_sizes p = Inr szs" and part: "unat off + unat (dma_size w) \<le> unat (szs ! i)"
    and l: "mems (uri s) (loc_mem_arr uc ! nat (blk_mem_idx (loc_blk_arr p ! i))) = Some loc"
      "uri_mem_get_info (mems (uri s)) (hdr (registry s ! plan_channel uc k)) (loc_mem w) =
        Inr (m_addr loc, m_size loc, mpi_rank (uru_mpi (uri s)))" "loc_offset w = loc_start p i + off"
    and r: "mems (uri s) (rmt_mem_arr uc ! nat (blk_dst_rank (rmt_blk_arr p ! i)) ! nat (blk_mem_idx (rmt_blk_arr p ! i))) = Some rmt"
      "uri_mem_get_info (mems (uri s)) (hdr (registry s ! plan_channel uc k)) (rmt_mem w) =
        Inr (m_addr rmt, m_size rmt, blk_dst_rank (rmt_blk_arr p ! i))" "rmt_offset w = rmt_start p i + off"
    and t: "t = type_arr (num_sends p) (dma_type_arr p) ! i"
  have ok: "transfer_ok s uc p sizes i" "szs = sizes" using assms(4,5) i \<open>plan_sizes p = Inr szs\<close> by simp_all
  have fit: "unat (blk_offset (loc_blk_arr p ! i)) + unat (offset_at (loc_offset_arr p) i) + unat (sizes ! i) \<le> unat (m_size loc)"
      "unat (blk_offset (rmt_blk_arr p ! i)) + unat (offset_at (rmt_offset_arr p) i) + unat (sizes ! i) \<le> unat (m_size rmt)"
    using ok(1) l(1) r(1) by (simp_all add: transfer_ok_def Let_def inside_def loc_head_def rmt_head_def)
  have "loc_offset w + dma_size w \<le> m_size loc" "rmt_offset w + dma_size w \<le> m_size rmt"
    using part_fits [OF fit(1), of off "dma_size w"] part_fits [OF fit(2), of off "dma_size w"] part ok(2)
    by (simp_all add: l(3) r(3) loc_start_def rmt_start_def)
  then show ?thesis using l(2) r(2) t ok(1) by (simp add: wrt_passes_def transfer_ok_def Let_def)
qed

section \<open>The parts of a plan\<close>

text \<open>The MPI module creates its part of a plan as the layer above relies on, run at once or not.\<close>

interpretation mpi_parts: plan_maker once "\<lambda>ch. mpi_channel qsort ch \<and> qsort_spec qsort"
  "\<lambda>u. wrt_passes (mems u) (uru_mpi u)" "\<lambda>n. mpi_room n n" grows "\<lambda>u h ws pl. \<not> once \<longrightarrow> startable u pl"
proof unfold_locales
  fix ch :: "uri_mpi_state uri_channel" and ws n and u :: uri_mpi_state
  assume a: "mpi_channel qsort ch \<and> qsort_spec qsort" "ws \<noteq> []" "\<forall>x \<in> set ws. wrt_passes (mems u) (uru_mpi u) (hdr ch) x"
    "mpi_room (length ws + n) (length ws + n) u"
  obtain pl v where "uri_mpi_rdma_plan_create qsort (hdr ch) once ws u = Inr (pl, v)" "grows u v" "mpi_room n n v"
      "\<not> once \<longrightarrow> startable v pl"
    using mpi_plan_create_total [OF conjunct2 [OF a(1)] a(2-4)] by blast
  moreover have "zip (map fst ws) (map snd ws) = ws" by (simp add: zip_map_fst_snd)
  ultimately show "\<exists>pl v. uri_rdma_plan_create ch once (Some (map fst ws)) (map snd ws) u = Inr (pl, v) \<and> grows u v \<and>
      mpi_room n n v \<and> (\<not> once \<longrightarrow> startable v pl)"
    using a(1) by (auto simp: mpi_channel_def uri_rdma_plan_create_def)
qed (auto dest: growsD startable_grows intro: grows_trans)

definition parts_startable :: "uri_mpi_state uri_channel list \<Rightarrow> uri_mpi_state \<Rightarrow> (addr \<times> nat option) list \<Rightarrow> bool" where
  "parts_startable reg u pcs \<longleftrightarrow> (\<forall>(pl, ch) \<in> set pcs. pl \<noteq> 0 \<longrightarrow>
     startable u pl \<and> (\<exists>c qsort. ch = Some c \<and> mpi_channel qsort (reg ! c)))"

lemma parts_startable_grows: "grows u v \<Longrightarrow> parts_startable reg u pcs \<Longrightarrow> parts_startable reg v pcs"
  using startable_grows by (fastforce simp: parts_startable_def)

lemma made_parts_startable:
  assumes "list_all2 (part_made (\<lambda>h ws. startable u) reg) xs pcs" "\<forall>x \<in> set xs. mpi_channel qsort (reg ! fst x)"
  shows "parts_startable reg u pcs"
  using assms
proof (induction rule: list_all2_induct)
  case Nil
  then show ?case by (simp add: parts_startable_def)
next
  case (Cons x xs pc pcs)
  then show ?case by (fastforce simp: parts_startable_def part_made_def split: prod.splits if_splits)
qed

lemma start_uri_plans_total:
  assumes "parts_startable (registry s) (uri s) pcs"
  shows "\<exists>u. fold_res start_uri_plan pcs s = Inr (s\<lparr>uri := u\<rparr>) \<and> grows (uri s) u"
  using assms
proof (induction pcs arbitrary: s)
  case Nil
  then show ?case by (intro exI [of _ "uri s"]) simp
next
  case (Cons pc pcs)
  obtain pl ch where pc: "pc = (pl, ch)" by (cases pc)
  have tl: "parts_startable (registry s) (uri s) pcs" using Cons.prems by (simp add: parts_startable_def)
  show ?case
  proof (cases "pl = 0")
    case True
    then show ?thesis using Cons.IH [OF tl] by (simp add: start_uri_plan_def pc)
  next
    case False
    then obtain c qsort where c: "startable (uri s) pl" "ch = Some c" "mpi_channel qsort (registry s ! c)"
      using Cons.prems by (auto simp: parts_startable_def pc)
    obtain v where v: "uri_mpi_rdma_plan_start (hdr (registry s ! c)) pl (uri s) = Inr (URU_STATUS_OK, v)" "grows (uri s) v"
      using mpi_plan_start_total [OF c(1)] by blast
    have "start_uri_plan pc s = Inr (s\<lparr>uri := v\<rparr>)"
      using False c(2,3) v(1) by (auto simp: start_uri_plan_def pc uri_rdma_plan_start_def mpi_channel_def)
    moreover obtain u where "fold_res start_uri_plan pcs (s\<lparr>uri := v\<rparr>) = Inr (s\<lparr>uri := u\<rparr>)" "grows v u"
      using Cons.IH [of "s\<lparr>uri := v\<rparr>"] parts_startable_grows [OF v(2) tl] by auto
    ultimately show ?thesis using grows_trans [OF v(2)] by auto
  qed
qed

section \<open>The whole plan\<close>

text \<open>A complete plan in the heap whose parts can be started; starting it leaves it so.\<close>

definition ready_plan :: "addr \<Rightarrow> uri_mpi_state unr_base_state \<Rightarrow> bool" where
  "ready_plan a s \<longleftrightarrow> a \<noteq> 0 \<and> unr_channels s \<noteq> None \<and> (\<exists>pl. plans s a = Some pl \<and> plan_status pl = 2 \<and>
     parts_startable (registry s) (uri s) (zip (uri_plan_h_arr pl) (uri_channel_h_arr pl)))"

definition start_again :: "bool \<Rightarrow> addr \<Rightarrow> nat \<Rightarrow> uri_mpi_state unr_base_state \<Rightarrow> uri_mpi_state unr_base_state res" where
  "start_again pk a n = fold_res (\<lambda>_ s. res_bind (unr_plan_start pk a s)
     (\<lambda>(st, s). uru_assert (st = URU_STATUS_OK) (Inr s))) [0..<n]"

lemma ready_plan_start:
  assumes "ready_plan a s"
  shows "\<exists>t. unr_plan_start pk a s = Inr (URU_STATUS_OK, t) \<and> ready_plan a t"
proof -
  obtain pl where pl: "a \<noteq> 0" "unr_channels s \<noteq> None" "plans s a = Some pl" "plan_status pl = 2"
      "parts_startable (registry s) (uri s) (zip (uri_plan_h_arr pl) (uri_channel_h_arr pl))"
    using assms by (auto simp: ready_plan_def)
  obtain u where u: "fold_res start_uri_plan (zip (uri_plan_h_arr pl) (uri_channel_h_arr pl)) s = Inr (s\<lparr>uri := u\<rparr>)" "grows (uri s) u"
    using start_uri_plans_total [OF pl(5)] by blast
  have "unr_plan_start pk a s = Inr (URU_STATUS_OK, s\<lparr>uri := u\<rparr>)" using pl(1-4) u(1) by (simp add: unr_plan_start_def)
  moreover have "ready_plan a (s\<lparr>uri := u\<rparr>)"
    using pl parts_startable_grows [OF u(2) pl(5)] by (simp add: ready_plan_def)
  ultimately show ?thesis by blast
qed

lemma ready_plan_starts: "ready_plan a s \<Longrightarrow> \<exists>t. start_again pk a n s = Inr t \<and> ready_plan a t"
  unfolding start_again_def by (rule fold_res_total) (use ready_plan_start in fastforce)+

lemma plan_create_ready:
  assumes "handles_ok s" "unr_channels s = Some uc" "length (inter_channels uc) + length (intra_channels uc) < 256" "u_brk s \<noteq> 0"
    and "over_mpi qsort s uc" "0 < num_sends p" "arrays_fit p" "plan_sizes p = Inr sizes" "\<forall>i < num_sends p. transfer_ok s uc p sizes i"
    and "mpi_room (num_sends p * (length (inter_channels uc) + length (intra_channels uc)))
      (num_sends p * (length (inter_channels uc) + length (intra_channels uc))) (uri s)"
  shows "\<exists>a t. unr_rdma_plan_create True p s = Inr (a, t) \<and> (\<not> once_now p \<longrightarrow> ready_plan a t)"
proof -
  note ok = handles_okD [OF assms(1,2)]
  have om: "qsort_spec qsort" "length (same_node (uru_mpi (uri s))) = nat (mpi_size (uru_mpi (uri s)))"
      "\<forall>k < length (inter_channels uc) + length (intra_channels uc). mpi_channel qsort (registry s ! plan_channel uc k)"
    using assms(5) by (simp_all add: over_mpi_def)
  obtain wrts where w: "plan_wrts uc (uru_mpi (uri s)) p = Inr wrts"
    using plan_wrts_total [OF ok(1) assms(2,3,6,8,9) ok(5) om(2)] by blast
  have len: "length wrts = length (inter_channels uc) + length (intra_channels uc)"
    and small: "length (concat wrts) \<le> num_sends p * length wrts"
    by (rule plan_wrts_count [OF ok(1) assms(2,3) w])+
  have room: "mpi_room (length (concat wrts) + 0) (length (concat wrts) + 0) (uri s)"
    by (rule mpi_room_less [OF assms(10)]) (use small len in simp_all)
  have works: "\<forall>k < length wrts. mpi_channel qsort (registry s ! plan_channel uc k) \<and> qsort_spec qsort"
    using om(1,3) len by simp
  have pass: "\<forall>k < length wrts. \<forall>x \<in> set (wrts ! k).
      wrt_passes (mems (uri s)) (uru_mpi (uri s)) (hdr (registry s ! plan_channel uc k)) x"
    using plan_wrts_pass [OF assms(1-3,8,9) w] by auto
  obtain a t where t: "unr_rdma_plan_create True p s = Inr (a, t)" "registry t = registry s"
      "\<not> once_now p \<longrightarrow> plan_made (\<lambda>u h ws pl. \<not> once_now p \<longrightarrow> startable u pl) uc wrts a t" "unr_channels t = unr_channels s"
    using mpi_parts.plan_create_total [OF assms(2) w refl works pass room assms(4,7) transfers_synced [OF assms(9,7) ok(5)]]
    by blast
  have "ready_plan a t" if now: "\<not> once_now p"
  proof -
    have "plan_made (\<lambda>u h ws. startable u) uc wrts a t" using t(3) now by simp
    then obtain pl where pl: "a \<noteq> 0" "plans t a = Some pl" "plan_status pl = 2"
        "list_all2 (part_made (\<lambda>h ws. startable (uri t)) (registry t)) (parts_of uc 0 wrts) (zip (uri_plan_h_arr pl) (uri_channel_h_arr pl))"
      by (auto simp: plan_made_def)
    have "\<forall>x \<in> set (parts_of uc 0 wrts). mpi_channel qsort (registry t ! fst x)"
      using om(3) len t(2) by (auto simp: parts_of_def dest!: set_zip_leftD)
    from made_parts_startable [OF pl(4) this] show ?thesis using pl(1-3) t(4) assms(2) by (simp add: ready_plan_def)
  qed
  then show ?thesis using t(1) by blast
qed


lemma blk_example_room: "mpi_room 2 2 (uri blk_example)"
proof -
  have "2 \<le> id_room example_mpi" by (simp add: id_room_def id_limit_def example_mpi_def signed_divide_int_def)
  from pools_room_init [OF example_mpi_ok this] show ?thesis
    by (simp add: mpi_room_def blk_example_def mem_example_def queue_example_state_def example_mpi_def numeral_2_eq_2)
qed

lemma blk_example_over: "over_mpi (sort_key op_rank) blk_example blk_channels"
  using insort_spec
  by (simp add: over_mpi_def blk_example_mpi example_mpi_def plan_channel_def mpi_channel_def blk_example_def mem_example_def
      queue_example_state_def example_mpi_channel_def uri_mpi_channel_func_ptrs_def)

lemma blk_example_transfer: "transfer_ok blk_example blk_channels blk_para [9000] 0"
  by (simp add: transfer_ok_def Let_def blk_example_mpi example_mpi_def blk_para_def inside_def loc_head_def rmt_head_def
      blk_example_def mem_example_def queue_example_state_def blk_head_def sig_owned_def offset_at_def type_arr_def)


end
