(* ===== verification/Unr_Copy.thy ===== *)
theory Unr_Copy
  imports Unr_Mpi_Plan
begin

text \<open>
  What a plan is for: the memories of the processes before and after. The abstract specification of a
  transfer is one copy of a block; a plan over MPI channels (\<open>unr_rdma_plan_create\<close> in
  \<open>src/unr/base/unr_blk.c\<close>, \<open>uri_mpi_rdma_plan_create\<close> in \<open>src/uri/mpi/uri_mpi_rdma.c\<close>) makes many pairs
  of MPI operations of it, which may complete in any order.
\<close>

section \<open>Copies\<close>

type_synonym memories = "int \<Rightarrow> addr \<Rightarrow> u8"

text \<open>\<open>c_len\<close> bytes go from one process to another.\<close>

record copy =
  c_from :: int
  c_src :: addr
  c_to :: int
  c_dst :: addr
  c_len :: nat

definition run_copy :: "copy \<Rightarrow> memories \<Rightarrow> memories" where
  "run_copy c M = M(c_to c := (\<lambda>a. if c_dst c \<le> a \<and> a < c_dst c + c_len c then M (c_from c) (c_src c + (a - c_dst c)) else M (c_to c) a))"

definition writes_to :: "copy \<Rightarrow> int \<Rightarrow> addr \<Rightarrow> bool" where
  "writes_to c r a \<longleftrightarrow> r = c_to c \<and> c_dst c \<le> a \<and> a < c_dst c + c_len c"

text \<open>Two regions of memory that share no byte.\<close>

definition apart :: "int \<Rightarrow> addr \<Rightarrow> nat \<Rightarrow> int \<Rightarrow> addr \<Rightarrow> nat \<Rightarrow> bool" where
  "apart r a n r' a' n' \<longleftrightarrow> r \<noteq> r' \<or> n = 0 \<or> n' = 0 \<or> a + n \<le> a' \<or> a' + n' \<le> a"

definition target_apart :: "copy \<Rightarrow> copy \<Rightarrow> bool" where
  "target_apart c d \<longleftrightarrow> apart (c_to c) (c_dst c) (c_len c) (c_to d) (c_dst d) (c_len d)"

definition source_apart :: "copy \<Rightarrow> copy \<Rightarrow> bool" where
  "source_apart c d \<longleftrightarrow> apart (c_from c) (c_src c) (c_len c) (c_to d) (c_dst d) (c_len d)"

definition independent :: "copy \<Rightarrow> copy \<Rightarrow> bool" where
  "independent c d \<longleftrightarrow> target_apart c d \<and> source_apart c d \<and> source_apart d c"

lemma independent_sym: "independent c d \<Longrightarrow> independent d c"
  by (auto simp: independent_def target_apart_def apart_def)

lemma run_copy_other: "\<not> writes_to c r a \<Longrightarrow> run_copy c M r a = M r a"
  by (auto simp: run_copy_def writes_to_def)

lemma run_copy_at: "k < c_len c \<Longrightarrow> run_copy c M (c_to c) (c_dst c + k) = M (c_from c) (c_src c + k)"
  by (simp add: run_copy_def)

lemma run_copies_other: "\<forall>c \<in> set cs. \<not> writes_to c r a \<Longrightarrow> fold run_copy cs M r a = M r a"
  by (induction cs arbitrary: M) (simp_all add: run_copy_other)

lemma run_copies_at:
  assumes "sorted_wrt independent cs" "c \<in> set cs" "k < c_len c"
  shows "fold run_copy cs M (c_to c) (c_dst c + k) = M (c_from c) (c_src c + k)"
  using assms(1,2)
proof (induction cs arbitrary: M)
  case (Cons d cs)
  show ?case
  proof (cases "c \<in> set cs")
    case True
    then have "independent d c" using Cons.prems(1) by simp
    then have "\<not> writes_to d (c_from c) (c_src c + k)"
      using assms(3) by (auto simp: independent_def source_apart_def apart_def writes_to_def)
    then show ?thesis using Cons.IH [of "run_copy d M"] Cons.prems(1) True by (simp add: run_copy_other)
  next
    case False
    then have c: "c = d" using Cons.prems(2) by simp
    then have "\<forall>e \<in> set cs. \<not> writes_to e (c_to c) (c_dst c + k)"
      using Cons.prems(1) assms(3) by (fastforce simp: independent_def target_apart_def apart_def writes_to_def)
    then show ?thesis using run_copies_other [of cs "c_to c" "c_dst c + k" "run_copy c M"] run_copy_at [OF assms(3)] c by simp
  qed
qed simp

text \<open>The order of independent copies does not matter.\<close>

lemma sorted_wrt_perm:
  assumes "\<And>x y. R x y \<Longrightarrow> R y x" "mset xs = mset ys" "sorted_wrt R xs"
  shows "sorted_wrt R ys"
  using assms(2,3)
proof (induction ys arbitrary: xs)
  case (Cons y ys)
  have "y \<in> set xs" using Cons.prems(1) by (metis list.set_intros(1) set_mset_mset)
  then obtain as bs where xs: "xs = as @ y # bs" by (meson split_list)
  have "sorted_wrt R (as @ bs)" using Cons.prems(2) by (simp add: xs sorted_wrt_append)
  moreover have "mset (as @ bs) = mset ys" using Cons.prems(1) by (simp add: xs)
  ultimately have "sorted_wrt R ys" by (intro Cons.IH)
  moreover have "\<forall>x \<in> set (as @ bs). R y x" using Cons.prems(2) assms(1) by (auto simp: xs sorted_wrt_append)
  moreover have "set ys = set (as @ bs)" using \<open>mset (as @ bs) = mset ys\<close> by (metis set_mset_mset)
  ultimately show ?case by simp
qed simp

section \<open>Parts of a copy\<close>

definition part :: "copy \<Rightarrow> nat \<Rightarrow> nat \<Rightarrow> copy" where
  "part c off n = c\<lparr>c_src := c_src c + off, c_dst := c_dst c + off, c_len := n\<rparr>"

lemma part_simps [simp]:
  "c_from (part c off n) = c_from c" "c_to (part c off n) = c_to c" "c_src (part c off n) = c_src c + off"
  "c_dst (part c off n) = c_dst c + off" "c_len (part c off n) = n"
  by (simp_all add: part_def)

lemma parts_independent:
  assumes "independent c d" "off + n \<le> c_len c" "off' + n' \<le> c_len d"
  shows "independent (part c off n) (part d off' n')"
  using assms by (auto simp: independent_def target_apart_def source_apart_def apart_def)

lemma parts_of_one_independent:
  assumes "source_apart c c" "off + n \<le> c_len c" "off' + n' \<le> c_len c" "off + n \<le> off' \<or> off' + n' \<le> off \<or> n = 0 \<or> n' = 0"
  shows "independent (part c off n) (part c off' n')"
  using assms by (auto simp: independent_def target_apart_def source_apart_def apart_def)

section \<open>The specification of a write\<close>

text \<open>What a channel has to do for one write: a copy between the two addresses that it names.\<close>

definition write_copy :: "mem_store \<Rightarrow> uri_channel_hdr \<Rightarrow> int \<Rightarrow> uru_transfer_t \<times> uri_wrt \<Rightarrow> copy" where
  "write_copy heads ch me tw =
     (let l = side_addr heads ch (loc_mem (snd tw)) (loc_offset (snd tw));
          r = side_addr heads ch (rmt_mem (snd tw)) (rmt_offset (snd tw)); n = unat (dma_size (snd tw)) in
      if fst tw = URU_TRANSFER_TYPE_DMA_PUT
      then \<lparr>c_from = me, c_src = l, c_to = wrt_rank heads ch tw, c_dst = r, c_len = n\<rparr>
      else \<lparr>c_from = wrt_rank heads ch tw, c_src = r, c_to = me, c_dst = l, c_len = n\<rparr>)"

definition wrt_copy :: "(('z) uri_state_scheme) unr_base_state \<Rightarrow> unr_channels_t \<Rightarrow> nat \<times> uru_transfer_t \<times> uri_wrt \<Rightarrow> copy" where
  "wrt_copy s uc x = (case x of (k, tw) \<Rightarrow>
     write_copy (mems (uri s)) (hdr (registry s ! plan_channel uc k)) (mpi_rank (uru_mpi (uri s))) tw)"

section \<open>The specification of a transfer\<close>

text \<open>Transfer \<open>i\<close> as one copy between its two blocks.\<close>

definition block_copy :: "(('z) uri_state_scheme) unr_base_state \<Rightarrow> unr_channels_t \<Rightarrow> unr_plan_create_para_t \<Rightarrow> u64 list \<Rightarrow> nat \<Rightarrow> copy" where
  "block_copy s uc p sizes i =
     (let lb = loc_blk_arr p ! i; rb = rmt_blk_arr p ! i; me = mpi_rank (uru_mpi (uri s));
          l = unat (m_addr (the (loc_head s uc lb))) + unat (blk_offset lb) + unat (offset_at (loc_offset_arr p) i);
          r = unat (m_addr (the (rmt_head s uc rb))) + unat (blk_offset rb) + unat (offset_at (rmt_offset_arr p) i) in
      if type_arr (num_sends p) (dma_type_arr p) ! i = URU_TRANSFER_TYPE_DMA_PUT
      then \<lparr>c_from = me, c_src = l, c_to = blk_dst_rank rb, c_dst = r, c_len = unat (sizes ! i)\<rparr>
      else \<lparr>c_from = blk_dst_rank rb, c_src = r, c_to = me, c_dst = l, c_len = unat (sizes ! i)\<rparr>)"

text \<open>
  Memories do not wrap around the address space, and the blocks of different transfers, and the two blocks of a transfer, do not overlap where bytes
  are written.
\<close>

definition no_wrap :: "unr_mem_t option \<Rightarrow> bool" where
  "no_wrap h \<longleftrightarrow> (case h of None \<Rightarrow> False | Some m \<Rightarrow> unat (m_addr m) + unat (m_size m) < 2 ^ 64)"

definition blocks_apart :: "(('z) uri_state_scheme) unr_base_state \<Rightarrow> unr_channels_t \<Rightarrow> unr_plan_create_para_t \<Rightarrow> u64 list \<Rightarrow> bool" where
  "blocks_apart s uc p sizes \<longleftrightarrow> (\<forall>i < num_sends p.
     no_wrap (loc_head s uc (loc_blk_arr p ! i)) \<and> no_wrap (rmt_head s uc (rmt_blk_arr p ! i)) \<and>
     source_apart (block_copy s uc p sizes i) (block_copy s uc p sizes i) \<and>
     (\<forall>j < num_sends p. j \<noteq> i \<longrightarrow> independent (block_copy s uc p sizes i) (block_copy s uc p sizes j)))"

section \<open>Each write copies a part of its block\<close>

lemma addr_split:
  fixes h a b off z m :: u64
  assumes "unat h + unat m < 2 ^ 64" "unat a + unat b + unat z \<le> unat m" "unat off \<le> unat z"
  shows "unat (h + (a + b + off)) = unat h + unat a + unat b + unat off"
proof -
  have "unat (a + b) = unat a + unat b" using assms by (intro unat_add_bounded) simp
  moreover have "unat (a + b + off) = unat (a + b) + unat off" using assms calculation by (intro unat_add_bounded) simp
  moreover have "unat (h + (a + b + off)) = unat h + unat (a + b + off)" using assms calculation by (intro unat_add_bounded) simp
  ultimately show ?thesis by simp
qed

text \<open>The parts of a transfer: inside it, independent, and together all of it.\<close>

definition splits :: "copy \<Rightarrow> copy list \<Rightarrow> bool" where
  "splits c cs \<longleftrightarrow> sorted_wrt independent cs \<and> (\<forall>d \<in> set cs. \<exists>off n. d = part c off n \<and> off + n \<le> c_len c) \<and>
     (\<forall>k < c_len c. \<exists>off n. part c off n \<in> set cs \<and> off \<le> k \<and> k < off + n)"

lemma splits_nil: "c_len c = 0 \<Longrightarrow> splits c []"
  by (simp add: splits_def)

lemma splits_parts:
  assumes "source_apart c c" "c_len c = unat sz" "length szs = n"
    and tile: "\<forall>k < unat sz. \<exists>!j. j < length szs \<and> unat (div_plan_wrt_offset szs ! j) \<le> k \<and>
      k < unat (div_plan_wrt_offset szs ! j) + unat (szs ! j)"
    and fits: "\<forall>j < length szs. unat (div_plan_wrt_offset szs ! j) + unat (szs ! j) \<le> unat sz"
  shows "splits c (map (\<lambda>j. part c (unat (div_plan_wrt_offset szs ! j)) (unat (szs ! j))) (filter (\<lambda>j. szs ! j \<noteq> 0) [0..<n]))"
proof -
  let ?o = "\<lambda>j. unat (div_plan_wrt_offset szs ! j)" and ?n = "\<lambda>j. unat (szs ! j)"
  have "?o i + ?n i \<le> ?o j \<or> ?o j + ?n j \<le> ?o i \<or> ?n i = 0 \<or> ?n j = 0" if ij: "i < n" "j < n" "i \<noteq> j" for i j
  proof (rule ccontr)
    assume a: "\<not> ?thesis"
    let ?k = "max (?o i) (?o j)"
    have "?o i \<le> ?k \<and> ?k < ?o i + ?n i" "?o j \<le> ?k \<and> ?k < ?o j + ?n j" using a by auto
    moreover have "?k < unat sz" using calculation fits ij(1) assms(3) by (meson le_trans not_le)
    ultimately show False using tile ij assms(3) by blast
  qed
  then have ind: "independent (part c (?o i) (?n i)) (part c (?o j) (?n j))" if "i < n" "j < n" "i < j" for i j
    using that fits assms(2,3) by (intro parts_of_one_independent [OF assms(1)]) auto
  have "sorted_wrt (\<lambda>i j. independent (part c (?o i) (?n i)) (part c (?o j) (?n j))) (filter (\<lambda>j. szs ! j \<noteq> 0) [0..<n])"
  proof (rule sorted_wrt_mono_rel [where P = "(<)"])
    show "sorted_wrt (<) (filter (\<lambda>j. szs ! j \<noteq> 0) [0..<n])" by (simp add: sorted_wrt_filter)
  qed (use ind in auto)
  then have sorted: "sorted_wrt independent (map (\<lambda>j. part c (?o j) (?n j)) (filter (\<lambda>j. szs ! j \<noteq> 0) [0..<n]))"
    by (simp only: sorted_wrt_map)
  have cover: "\<exists>off n'. part c off n' \<in> (\<lambda>j. part c (?o j) (?n j)) ` {j. j < n \<and> szs ! j \<noteq> 0} \<and> off \<le> k \<and> k < off + n'"
    if k: "k < unat sz" for k
  proof -
    obtain j where "j < length szs" "?o j \<le> k" "k < ?o j + ?n j" using tile k by blast
    moreover from this have "szs ! j \<noteq> 0" by auto
    ultimately show ?thesis using assms(3) by (intro exI [of _ "?o j"] exI [of _ "?n j"]) auto
  qed
  have set: "set (map (\<lambda>j. part c (?o j) (?n j)) (filter (\<lambda>j. szs ! j \<noteq> 0) [0..<n])) =
      (\<lambda>j. part c (?o j) (?n j)) ` {j. j < n \<and> szs ! j \<noteq> 0}" by auto
  have inside: "\<forall>d \<in> (\<lambda>j. part c (?o j) (?n j)) ` {j. j < n \<and> szs ! j \<noteq> 0}. \<exists>off n. d = part c off n \<and> off + n \<le> c_len c"
  proof (rule ballI, erule imageE)
    fix d j assume d: "d = part c (?o j) (?n j)" "j \<in> {j. j < n \<and> szs ! j \<noteq> 0}"
    then have "?o j + ?n j \<le> c_len c" using fits assms(2,3) by simp
    with d(1) show "\<exists>off n. d = part c off n \<and> off + n \<le> c_len c" by blast
  qed
  show ?thesis unfolding splits_def
  proof (intro conjI)
    show "sorted_wrt independent (map (\<lambda>j. part c (?o j) (?n j)) (filter (\<lambda>j. szs ! j \<noteq> 0) [0..<n]))" by (rule sorted)
    show "\<forall>d \<in> set (map (\<lambda>j. part c (?o j) (?n j)) (filter (\<lambda>j. szs ! j \<noteq> 0) [0..<n])).
        \<exists>off n. d = part c off n \<and> off + n \<le> c_len c"
      unfolding set by (rule inside)
    show "\<forall>k < c_len c. \<exists>off n'. part c off n' \<in> set (map (\<lambda>j. part c (?o j) (?n j)) (filter (\<lambda>j. szs ! j \<noteq> 0) [0..<n])) \<and>
        off \<le> k \<and> k < off + n'"
      unfolding set assms(2) by (intro allI impI) (rule cover)
  qed
qed

lemma send_splits:
  assumes "handles_ok s" "unr_channels s = Some uc" "transfer_ok s uc p sizes i" "i < num_sends p" "blocks_apart s uc p sizes"
    and "turn_ok uc nx" "plan_send uc (uru_mpi (uri s)) p (sizes ! i) i nx = Inr (ws, nx')"
  shows "splits (block_copy s uc p sizes i) (map (wrt_copy s uc) ws)"
proof -
  let ?lb = "loc_blk_arr p ! i" and ?rb = "rmt_blk_arr p ! i" and ?c = "block_copy s uc p sizes i"
    and ?t = "type_arr (num_sends p) (dma_type_arr p) ! i" and ?heads = "mems (uri s)"
  note ok = handles_okD [OF assms(1,2)]
  note cls = channels_ok_class [OF ok(1) assms(2)]
  obtain loc_h rmt_h same lf rf szs where h: "send_handles uc (uru_mpi (uri s)) ?lb ?rb = Inr (loc_h, rmt_h, same)"
    and len: "length szs = length (node_channels uc same)"
    and tile: "\<forall>k < unat (sizes ! i). \<exists>!j. j < length szs \<and> unat (div_plan_wrt_offset szs ! j) \<le> k \<and>
        k < unat (div_plan_wrt_offset szs ! j) + unat (szs ! j)"
    and fits: "\<forall>j < length szs. unat (div_plan_wrt_offset szs ! j) + unat (szs ! j) \<le> unat (sizes ! i)"
    and ws: "ws = map (\<lambda>j. (plan_no uc same j, ?t, stripe_wrt p i (loc_h, rmt_h) (node_offsets uc same) (lf, rf) szs j))
            (filter (\<lambda>j. szs ! j \<noteq> 0) [0..<length szs])"
    by (rule plan_send_Inr [OF cls cls assms(6,7)])
  obtain loc rmt where l: "?heads (loc_mem_arr uc ! nat (blk_mem_idx ?lb)) = Some loc"
    and r: "?heads (rmt_mem_arr uc ! nat (blk_dst_rank ?rb) ! nat (blk_mem_idx ?rb)) = Some rmt"
    and li: "\<forall>j < length (node_channels uc same). uri_mem_get_info ?heads
      (hdr (registry s ! plan_channel uc (plan_no uc same j))) (loc_h + unat (node_offsets uc same ! j)) =
      Inr (m_addr loc, m_size loc, mpi_rank (uru_mpi (uri s)))"
    and ri: "\<forall>j < length (node_channels uc same). uri_mem_get_info ?heads
      (hdr (registry s ! plan_channel uc (plan_no uc same j))) (rmt_h + unat (node_offsets uc same ! j)) =
      Inr (m_addr rmt, m_size rmt, blk_dst_rank ?rb)"
    by (rule send_handles_resolve [OF assms(1,2) h]) (rule that)
  have heads: "loc_head s uc ?lb = Some loc" "rmt_head s uc ?rb = Some rmt" using l r by (simp_all add: loc_head_def rmt_head_def)
  have apart: "source_apart ?c ?c"
      "unat (m_addr loc) + unat (m_size loc) < 2 ^ 64" "unat (m_addr rmt) + unat (m_size rmt) < 2 ^ 64"
    using assms(4,5) heads by (auto simp: blocks_apart_def no_wrap_def)
  have fit: "unat (blk_offset ?lb) + unat (offset_at (loc_offset_arr p) i) + unat (sizes ! i) \<le> unat (m_size loc)"
      "unat (blk_offset ?rb) + unat (offset_at (rmt_offset_arr p) i) + unat (sizes ! i) \<le> unat (m_size rmt)"
    using assms(3) heads by (simp_all add: transfer_ok_def Let_def inside_def)
  have "wrt_copy s uc (plan_no uc same j, ?t, stripe_wrt p i (loc_h, rmt_h) (node_offsets uc same) (lf, rf) szs j) =
      part ?c (unat (div_plan_wrt_offset szs ! j)) (unat (szs ! j))" if j: "j < length szs" for j
  proof -
    have small: "unat (div_plan_wrt_offset szs ! j) \<le> unat (sizes ! i)" using fits j by (meson add_leD1)
    show ?thesis
      using li ri j len addr_split [OF apart(2) fit(1) small] addr_split [OF apart(3) fit(2) small]
      by (simp add: wrt_copy_def write_copy_def Let_def side_addr_def wrt_rank_def part_def
          block_copy_def heads loc_start_def rmt_start_def)
  qed
  then have "map (wrt_copy s uc) ws = map (\<lambda>j. part ?c (unat (div_plan_wrt_offset szs ! j)) (unat (szs ! j)))
      (filter (\<lambda>j. szs ! j \<noteq> 0) [0..<length szs])"
    unfolding ws map_map by (intro map_cong) auto
  moreover have "c_len ?c = unat (sizes ! i)" by (simp add: block_copy_def Let_def)
  ultimately show ?thesis using splits_parts [OF apart(1) _ refl tile fits] by simp
qed

section \<open>All writes of a plan\<close>

definition all_wrts :: "(uru_transfer_t \<times> uri_wrt) list list \<Rightarrow> (nat \<times> uru_transfer_t \<times> uri_wrt) list" where
  "all_wrts wrts = concat (map (\<lambda>k. map (Pair k) (wrts ! k)) [0..<length wrts])"

lemma mset_all_wrts: "mset (all_wrts wrts) = (\<Sum>k < length wrts. image_mset (Pair k) (mset (wrts ! k)))"
  unfolding all_wrts_def by (simp add: mset_concat comp_def sum_list_sum_nth atLeast0LessThan)

lemma put_wrt_mset:
  assumes "put_wrt n x wrts = Inr wrts'"
  shows "mset (all_wrts wrts') = add_mset x (mset (all_wrts wrts))"
proof -
  obtain k w where x: "x = (k, w)" by (cases x)
  have k: "k < length wrts" "wrts' = wrts[k := wrts ! k @ [w]]" using assms by (auto simp: put_wrt_def x split: if_splits)
  let ?f = "\<lambda>ws i. image_mset (Pair i) (mset (ws ! i))"
  have "(\<Sum>i < length wrts. ?f wrts' i) = ?f wrts' k + (\<Sum>i \<in> {..<length wrts} - {k}. ?f wrts' i)"
    using k(1) by (intro sum.remove) auto
  also have "(\<Sum>i \<in> {..<length wrts} - {k}. ?f wrts' i) = (\<Sum>i \<in> {..<length wrts} - {k}. ?f wrts i)"
    using k(2) by (intro sum.cong) auto
  also have "?f wrts' k + \<dots> = add_mset x (?f wrts k + (\<Sum>i \<in> {..<length wrts} - {k}. ?f wrts i))"
    using k by (simp add: x)
  also have "?f wrts k + (\<Sum>i \<in> {..<length wrts} - {k}. ?f wrts i) = (\<Sum>i < length wrts. ?f wrts i)"
    using k(1) by (intro sum.remove [symmetric]) auto
  finally show ?thesis using k(2) by (simp add: mset_all_wrts)
qed

lemma put_wrts_mset:
  "fold_res (put_wrt n) ws wrts = Inr wrts' \<Longrightarrow> mset (all_wrts wrts') = mset ws + mset (all_wrts wrts)"
  by (induction ws arbitrary: wrts) (auto dest!: put_wrt_mset)

lemma plan_steps_sends:
  assumes "class_ok uc False" "class_ok uc True" "length (inter_channels uc) + length (intra_channels uc) < 256"
    and "fold_res (plan_step uc mpi p sizes) [0..<m] (replicate (plan_count uc) [], 0, 0) = Inr (wrts, nx)" "m \<le> num_sends p"
  shows "\<exists>wss. length wss = m \<and> mset (all_wrts wrts) = mset (concat wss) \<and>
    (\<forall>i < m. (sizes ! i = 0 \<and> wss ! i = []) \<or>
      (\<exists>nx nx'. turn_ok uc nx \<and> plan_send uc mpi p (sizes ! i) i nx = Inr (wss ! i, nx')))"
  using assms(4,5)
proof (induction m arbitrary: wrts nx)
  case 0
  then show ?case by (auto simp: all_wrts_def)
next
  case (Suc m)
  obtain wrts1 nx1 where 1: "fold_res (plan_step uc mpi p sizes) [0..<m] (replicate (plan_count uc) [], 0, 0) = Inr (wrts1, nx1)"
      "plan_step uc mpi p sizes m (wrts1, nx1) = Inr (wrts, nx)"
    using Suc.prems(1) by (auto simp: fold_res_append)
  obtain wss where wss: "length wss = m" "mset (all_wrts wrts1) = mset (concat wss)"
      "\<forall>i < m. (sizes ! i = 0 \<and> wss ! i = []) \<or>
        (\<exists>nx nx'. turn_ok uc nx \<and> plan_send uc mpi p (sizes ! i) i nx = Inr (wss ! i, nx'))"
    using Suc.IH [OF 1(1)] Suc.prems(2) by auto
  have turn: "turn_ok uc nx1" using plan_steps_ok [OF assms(1-3), of m p mpi sizes] 1(1) Suc.prems(2) by simp
  obtain ws where ws: "mset (all_wrts wrts) = mset ws + mset (all_wrts wrts1)"
      "(sizes ! m = 0 \<and> ws = []) \<or> (\<exists>nx'. plan_send uc mpi p (sizes ! m) m nx1 = Inr (ws, nx'))"
    using 1(2) put_wrts_mset by (fastforce simp: plan_step_def split: if_splits)
  have last: "(sizes ! m = 0 \<and> ws = []) \<or> (\<exists>nx nx'. turn_ok uc nx \<and> plan_send uc mpi p (sizes ! m) m nx = Inr (ws, nx'))"
    using ws(2) turn by blast
  have "(sizes ! i = 0 \<and> (wss @ [ws]) ! i = []) \<or>
      (\<exists>nx nx'. turn_ok uc nx \<and> plan_send uc mpi p (sizes ! i) i nx = Inr ((wss @ [ws]) ! i, nx'))" if "i < Suc m" for i
    using that wss(1,3) last by (cases "i = m") (simp_all add: nth_append)
  then show ?case using wss(1,2) ws(1) by (intro exI [of _ "wss @ [ws]"]) (simp add: union_commute)
qed

lemma plan_wrts_sends:
  assumes "channels_ok s" "unr_channels s = Some uc" "length (inter_channels uc) + length (intra_channels uc) < 256"
    and "plan_wrts uc mpi p = Inr wrts" "plan_sizes p = Inr sizes"
  obtains wss where "length wss = num_sends p" "mset (all_wrts wrts) = mset (concat wss)"
    "\<forall>i < num_sends p. (sizes ! i = 0 \<and> wss ! i = []) \<or>
      (\<exists>nx nx'. turn_ok uc nx \<and> plan_send uc mpi p (sizes ! i) i nx = Inr (wss ! i, nx'))"
proof -
  note cls = channels_ok_class [OF assms(1,2)]
  obtain nx where "fold_res (plan_step uc mpi p sizes) [0..<num_sends p] (replicate (plan_count uc) [], 0, 0) = Inr (wrts, nx)"
    using assms(4,5) by (auto simp: plan_wrts_def)
  then show thesis using plan_steps_sends [OF cls cls assms(3)] that by blast
qed

section \<open>The plan moves its blocks\<close>

lemma sorted_wrt_concat:
  assumes "\<forall>xs \<in> set xss. sorted_wrt R xs" "sorted_wrt (\<lambda>xs ys. \<forall>x \<in> set xs. \<forall>y \<in> set ys. R x y) xss"
  shows "sorted_wrt R (concat xss)"
  using assms by (induction xss) (auto simp: sorted_wrt_append)

text \<open>Copies that are split into parts, the parts in any order.\<close>

lemma run_split_copies:
  assumes "\<forall>i < length css. splits (f i) (css ! i)" "\<forall>i < length css. \<forall>j < length css. i \<noteq> j \<longrightarrow> independent (f i) (f j)"
    and "mset cs = mset (concat css)"
  shows "(\<forall>i < length css. \<forall>k < c_len (f i). fold run_copy cs M (c_to (f i)) (c_dst (f i) + k) = M (c_from (f i)) (c_src (f i) + k)) \<and>
    (\<forall>r a. (\<forall>i < length css. \<not> writes_to (f i) r a) \<longrightarrow> fold run_copy cs M r a = M r a)"
proof (intro conjI allI impI)
  have parts: "\<exists>i < length css. \<exists>off n. d = part (f i) off n \<and> off + n \<le> c_len (f i)" if "d \<in> set cs" for d
  proof -
    have "d \<in> set (concat css)" using that assms(3) by (metis set_mset_mset)
    then obtain i where "i < length css" "d \<in> set (css ! i)" by (metis in_set_conv_nth set_concat UN_E)
    then show ?thesis using assms(1) unfolding splits_def by blast
  qed
  have "sorted_wrt independent (concat css)"
  proof (rule sorted_wrt_concat)
    show "\<forall>xs \<in> set css. sorted_wrt independent xs" using assms(1) by (auto simp: splits_def in_set_conv_nth)
    have cross: "independent x y" if ij: "i < length css" "j < length css" "i \<noteq> j" and xy: "x \<in> set (css ! i)" "y \<in> set (css ! j)" for i j x y
    proof -
      have "splits (f i) (css ! i)" "splits (f j) (css ! j)" using assms(1) ij by blast+
      then obtain o1 n1 o2 n2 where "x = part (f i) o1 n1" "o1 + n1 \<le> c_len (f i)" "y = part (f j) o2 n2" "o2 + n2 \<le> c_len (f j)"
        using xy unfolding splits_def by blast
      then show ?thesis using parts_independent [of "f i" "f j"] assms(2) ij by simp
    qed
    show "sorted_wrt (\<lambda>xs ys. \<forall>x \<in> set xs. \<forall>y \<in> set ys. independent x y) css"
      unfolding sorted_wrt_iff_nth_less
    proof (intro allI impI ballI)
      fix i j x y assume "i < j" "j < length css" "x \<in> set (css ! i)" "y \<in> set (css ! j)"
      then show "independent x y" by (intro cross [of i j]) simp_all
    qed
  qed
  then have ind: "sorted_wrt independent cs" 
    using sorted_wrt_perm [of independent "concat css" cs] independent_sym assms(3) by metis
  fix i k assume "i < length css" "k < c_len (f i)"
  then obtain off n where p: "part (f i) off n \<in> set (css ! i)" "off \<le> k" "k < off + n" using assms(1) unfolding splits_def by blast
  have "part (f i) off n \<in> set cs" using p(1) \<open>i < length css\<close> assms(3) by (metis nth_mem set_concat set_mset_mset UN_I)
  from run_copies_at [OF ind this, of "k - off" M] p(2,3)
  show "fold run_copy cs M (c_to (f i)) (c_dst (f i) + k) = M (c_from (f i)) (c_src (f i) + k)" by simp
next
  fix r a assume a: "\<forall>i < length css. \<not> writes_to (f i) r a"
  have "\<not> writes_to d r a" if "d \<in> set cs" for d
  proof -
    have "d \<in> set (concat css)" using that assms(3) by (metis set_mset_mset)
    then obtain i where i: "i < length css" "d \<in> set (css ! i)" by (metis in_set_conv_nth set_concat UN_E)
    then obtain off n where "d = part (f i) off n" "off + n \<le> c_len (f i)" using assms(1) unfolding splits_def by blast
    then show ?thesis using a i(1) by (auto simp: writes_to_def)
  qed
  then show "fold run_copy cs M r a = M r a" by (intro run_copies_other) blast
qed

definition moves_blocks ::
  "(('z) uri_state_scheme) unr_base_state \<Rightarrow> unr_channels_t \<Rightarrow> unr_plan_create_para_t \<Rightarrow> u64 list \<Rightarrow> (memories \<Rightarrow> memories) \<Rightarrow> bool" where
  "moves_blocks s uc p sizes run \<longleftrightarrow> (\<forall>M.
     (\<forall>i < num_sends p. let c = block_copy s uc p sizes i in
        \<forall>k < c_len c. run M (c_to c) (c_dst c + k) = M (c_from c) (c_src c + k)) \<and>
     (\<forall>r a. (\<forall>i < num_sends p. \<not> writes_to (block_copy s uc p sizes i) r a) \<longrightarrow> run M r a = M r a))"

lemma all_wrts_mem: "(k, x) \<in> set (all_wrts wrts) \<longleftrightarrow> k < length wrts \<and> x \<in> set (wrts ! k)"
  by (auto simp: all_wrts_def)

lemma all_wrts_ball: "(\<forall>(k, x) \<in> set (all_wrts wrts). P k x) \<longleftrightarrow> (\<forall>k < length wrts. \<forall>x \<in> set (wrts ! k). P k x)"
  by (auto simp: all_wrts_def)

text \<open>Whatever does the copy of each write, in any order, moves the blocks.\<close>

lemma plan_copies:
  assumes "handles_ok s" "unr_channels s = Some uc" "length (inter_channels uc) + length (intra_channels uc) < 256"
    and "plan_wrts uc (uru_mpi (uri s)) p = Inr wrts" "plan_sizes p = Inr sizes" "\<forall>i < num_sends p. transfer_ok s uc p sizes i"
    and "blocks_apart s uc p sizes" "mset cs = image_mset (wrt_copy s uc) (mset (all_wrts wrts))"
  shows "moves_blocks s uc p sizes (fold run_copy cs)"
proof -
  note ok = handles_okD [OF assms(1,2)]
  let ?c = "wrt_copy s uc" and ?f = "block_copy s uc p sizes"
  obtain wss where wss: "length wss = num_sends p" "mset (all_wrts wrts) = mset (concat wss)"
      "\<forall>i < num_sends p. (sizes ! i = 0 \<and> wss ! i = []) \<or>
        (\<exists>nx nx'. turn_ok uc nx \<and> plan_send uc (uru_mpi (uri s)) p (sizes ! i) i nx = Inr (wss ! i, nx'))"
    by (rule plan_wrts_sends [OF ok(1) assms(2,3,4,5)])
  have "splits (?f i) (map ?c (wss ! i))" if i: "i < num_sends p" for i
  proof (cases "sizes ! i = 0 \<and> wss ! i = []")
    case True
    then show ?thesis using splits_nil [of "?f i"] by (simp add: block_copy_def Let_def)
  next
    case False
    then obtain nx nx' where "turn_ok uc nx" "plan_send uc (uru_mpi (uri s)) p (sizes ! i) i nx = Inr (wss ! i, nx')"
      using wss(3) i by blast
    then show ?thesis using send_splits [OF assms(1,2) _ i assms(7)] assms(6) i by blast
  qed
  then have sp: "\<forall>i < length (map (map ?c) wss). splits (?f i) (map (map ?c) wss ! i)" using wss(1) by simp
  have ind: "\<forall>i < length (map (map ?c) wss). \<forall>j < length (map (map ?c) wss). i \<noteq> j \<longrightarrow> independent (?f i) (?f j)"
    using assms(7) wss(1) by (auto simp: blocks_apart_def)
  have perm: "mset cs = mset (concat (map (map ?c) wss))" using assms(8) wss(2) by (metis map_concat mset_map)
  show ?thesis
    unfolding moves_blocks_def Let_def by (intro allI) (use run_split_copies [OF sp ind perm] wss(1) in simp)
qed

lemma plan_write_small:
  assumes "handles_ok s" "unr_channels s = Some uc" "length (inter_channels uc) + length (intra_channels uc) < 256"
    and "plan_wrts uc (uru_mpi (uri s)) p = Inr wrts" "plan_sizes p = Inr sizes" "\<forall>i < num_sends p. unat (sizes ! i) < n"
    and "(k, t, w) \<in> set (all_wrts wrts)"
  shows "unat (dma_size w) < n"
proof -
  have k: "k < length wrts" "(t, w) \<in> set (wrts ! k)" using assms(7) by (simp_all add: all_wrts_mem)
  obtain szs i and off :: u64 where sz: "plan_sizes p = Inr szs" "i < num_sends p" "unat off + unat (dma_size w) \<le> unat (szs ! i)"
    by (rule plan_write_part [OF assms(1-4) k], rule that, assumption+)
  have "unat (dma_size w) \<le> unat (szs ! i)" using sz(3) by (rule add_leD2)
  also have "\<dots> < n" using assms(5,6) sz(1,2) by simp
  finally show ?thesis .
qed

section \<open>Over MPI channels\<close>

text \<open>What a pair of MPI operations copies.\<close>

definition pair_copy :: "int \<Rightarrow> data_op \<Rightarrow> data_op \<Rightarrow> copy" where
  "pair_copy me loc rmt =
     (if d_sends loc
      then \<lparr>c_from = me, c_src = d_addr loc, c_to = d_peer loc, c_dst = d_addr rmt, c_len = nat (d_count loc)\<rparr>
      else \<lparr>c_from = d_peer loc, c_src = d_addr rmt, c_to = me, c_dst = d_addr loc, c_len = nat (d_count loc)\<rparr>)"

text \<open>The copy of one write of a plan; the tag of its two halves plays no part.\<close>

definition mpi_copy :: "uri_mpi_state unr_base_state \<Rightarrow> unr_channels_t \<Rightarrow> nat \<times> uru_transfer_t \<times> uri_wrt \<Rightarrow> copy" where
  "mpi_copy s uc x = (case x of (k, tw) \<Rightarrow>
     let ch = hdr (registry s ! plan_channel uc k); me = mpi_rank (uru_mpi (uri s)) in
     pair_copy me (local_half (mems (uri s)) ch tw 0) (remote_half (mems (uri s)) ch me tw 0))"

lemma pair_copy_tag:
  "pair_copy me (local_half heads ch tw tag) (remote_half heads ch me tw tag) =
     pair_copy me (local_half heads ch tw 0) (remote_half heads ch me tw 0)"
  by (simp add: pair_copy_def local_half_def remote_half_def)

lemma mpi_count_small: "unat d < 2 ^ 31 \<Longrightarrow> nat (mpi_count d) = unat d"
proof -
  assume "unat d < 2 ^ 31"
  then have "int (unat d) < int (2 ^ 31)" by (simp only: of_nat_less_iff)
  then have "uint d < 2 ^ 31" by (simp only: uint_nat [symmetric] of_nat_power of_nat_numeral)
  moreover have "- (2 ^ 31) \<le> uint d" by (rule order_trans [OF _ uint_ge_0]) simp
  ultimately have "mpi_count d = uint d" unfolding mpi_count_def by (intro i32_id)
  then show ?thesis by (simp only: unat_eq_nat_uint)
qed

lemma mpi_copy_write: "unat (dma_size w) < 2 ^ 31 \<Longrightarrow> mpi_copy s uc (k, t, w) = wrt_copy s uc (k, t, w)"
  by (simp add: mpi_copy_def wrt_copy_def write_copy_def Let_def pair_copy_def local_half_def remote_half_def wrt_rank_def
      mpi_count_small)

text \<open>
  C2. A plan does what it is for. Its transfers, each shorter than the largest count of MPI, are cut into
  writes, each write becomes one operation of MPI in this process and one in the other, and in whatever
  order the pairs complete, afterwards every block that is written holds the bytes that the other block
  of its transfer held before, in all processes, and no other byte has changed.
\<close>

theorem plan_moves_blocks:
  assumes "handles_ok s" "unr_channels s = Some uc" "length (inter_channels uc) + length (intra_channels uc) < 256"
    and "over_mpi qsort s uc" "0 < num_sends p" "plan_sizes p = Inr sizes" "\<forall>i < num_sends p. transfer_ok s uc p sizes i"
    and "blocks_apart s uc p sizes" "\<forall>i < num_sends p. unat (sizes ! i) < 2 ^ 31"
  shows "\<exists>wrts. plan_wrts uc (uru_mpi (uri s)) p = Inr wrts \<and>
    (\<forall>order. mset order = mset (all_wrts wrts) \<longrightarrow> moves_blocks s uc p sizes (fold (\<lambda>x. run_copy (mpi_copy s uc x)) order))"
proof -
  note ok = handles_okD [OF assms(1,2)]
  obtain wrts where w: "plan_wrts uc (uru_mpi (uri s)) p = Inr wrts"
    using plan_wrts_total [OF ok(1) assms(2,3,5,6,7) ok(5)] assms(4) by (auto simp: over_mpi_def)
  have copies: "mset (map (mpi_copy s uc) order) = image_mset (wrt_copy s uc) (mset (all_wrts wrts))"
    if o: "mset order = mset (all_wrts wrts)" for order
  proof -
    have "map (mpi_copy s uc) order = map (wrt_copy s uc) order"
      using plan_write_small [OF assms(1-3) w assms(6,9)] mset_eq_setD [OF o]
      by (intro map_cong refl) (auto intro!: mpi_copy_write)
    then show ?thesis by (simp only: mset_map o)
  qed
  have "fold (\<lambda>x. run_copy (mpi_copy s uc x)) order = fold run_copy (map (mpi_copy s uc) order)" for order
    by (simp add: fold_map comp_def)
  then show ?thesis using w plan_copies [OF assms(1-3) w assms(6-8) copies] by metis
qed

lemma blk_example_apart: "blocks_apart blk_example blk_channels blk_para [9000]"
  by (simp add: blocks_apart_def blk_para_def no_wrap_def loc_head_def rmt_head_def source_apart_def apart_def block_copy_def
      Let_def type_arr_def blk_example_def mem_example_def queue_example_state_def example_mpi_def blk_head_def)

theorem plan_moves_blocks_witness:
  "\<exists>wrts. plan_wrts blk_channels example_mpi blk_para = Inr wrts \<and>
     (\<forall>M. let M' = fold (\<lambda>x. run_copy (mpi_copy blk_example blk_channels x)) (rev (all_wrts wrts)) M in
       (\<forall>k < 9000. M' 0 (8320 + k) = M 1 (4160 + k)) \<and> M' 0 17320 = M 0 17320 \<and> M' 1 = M 1)"
proof -
  have n: "length (inter_channels blk_channels) + length (intra_channels blk_channels) < 256" "0 < num_sends blk_para"
    "plan_sizes blk_para = Inr [9000]" "num_sends blk_para = 1"
    by (simp_all add: blk_para_def plan_sizes_def)
  have t: "\<forall>i < num_sends blk_para. transfer_ok blk_example blk_channels blk_para [9000] i"
    using blk_example_transfer by (simp add: n(4))
  have c: "block_copy blk_example blk_channels blk_para [9000] 0 = \<lparr>c_from = 1, c_src = 4160, c_to = 0, c_dst = 8320, c_len = 9000\<rparr>"
    by (simp add: block_copy_def Let_def blk_para_def type_arr_def loc_head_def rmt_head_def offset_at_def blk_example_def
        mem_example_def queue_example_state_def example_mpi_def blk_head_def)
  have small: "\<forall>i < num_sends blk_para. unat ([9000 :: u64] ! i) < 2 ^ 31" by (simp add: n(4))
  obtain wrts where w: "plan_wrts blk_channels example_mpi blk_para = Inr wrts"
    "\<forall>order M. mset order = mset (all_wrts wrts) \<longrightarrow>
      (let M' = fold (\<lambda>x. run_copy (mpi_copy blk_example blk_channels x)) order M in
       (\<forall>k < 9000. M' 0 (8320 + k) = M 1 (4160 + k)) \<and>
       (\<forall>r a. \<not> writes_to \<lparr>c_from = 1, c_src = 4160, c_to = 0, c_dst = 8320, c_len = 9000\<rparr> r a \<longrightarrow> M' r a = M r a))"
    using plan_moves_blocks [OF blk_example_ok blk_example_channels n(1) blk_example_over n(2,3) t blk_example_apart small] c
    unfolding n(4) moves_blocks_def Let_def blk_example_mpi by auto
  have "mset (rev (all_wrts wrts)) = mset (all_wrts wrts)" by simp
  then show ?thesis using w by (intro exI [of _ wrts]) (auto simp: Let_def writes_to_def fun_eq_iff)
qed

end
