(* ===== verification/Unr_Verbs_Plan.thy ===== *)
theory Unr_Verbs_Plan
  imports Unr_Copy
begin

text \<open>
  The library over a Verbs channel, from the call that creates a plan (\<open>src/unr/base/unr_blk.c\<close>) down to
  the requests that the network card gets (\<open>src/uri/verbs/uri_verbs_rdma.c\<close>) and the bytes they move.
  Since the module takes a signal only for a transfer in one piece and names only one device, each class
  of channels has one channel here.
\<close>

section \<open>What a request copies\<close>

definition request_copy :: "int \<Rightarrow> int \<times> ibv_send_wr \<Rightarrow> copy" where
  "request_copy me x = (case x of (d, wr) \<Rightarrow> (case sge wr of
       None \<Rightarrow> \<lparr>c_from = me, c_src = 0, c_to = d, c_dst = 0, c_len = 0\<rparr>
     | Some g \<Rightarrow>
         if opcode wr = IBV_WR_RDMA_READ
         then \<lparr>c_from = d, c_src = unat (remote_addr wr), c_to = me, c_dst = unat (sg_addr g), c_len = unat (sg_length g)\<rparr>
         else \<lparr>c_from = me, c_src = unat (sg_addr g), c_to = d, c_dst = unat (remote_addr wr), c_len = unat (sg_length g)\<rparr>))"

lemma verbs_event_opcode:
  "verbs_loc_event src w s wr = Inr wr' \<Longrightarrow> opcode wr' = opcode wr"
  "verbs_rmt_event dst w s wr = Inr wr' \<Longrightarrow> opcode wr' = IBV_WR_RDMA_READ \<longleftrightarrow> opcode wr = IBV_WR_RDMA_READ"
  by (auto simp: verbs_loc_event_def verbs_rmt_event_def split: if_splits)

lemma length_small: "unat (d :: u64) < 2 ^ 32 \<Longrightarrow> unat (ucast d :: u32) = unat d"
  by (simp add: unsigned_ucast_eq take_bit_nat_eq_self)

lemma request_copy_write:
  assumes "verbs_create_wr ch (t, w) u = Inr x" "unat (dma_size w) < 2 ^ 32"
  shows "request_copy me x = write_copy (mems u) ch me (t, w)"
proof -
  obtain d wr where x: "x = (d, wr)" by (cases x)
  obtain la ls src ra rs op lm rm wr1 where c:
      "uri_mem_get_info (mems u) ch (loc_mem w) = Inr (la, ls, src)"
      "uri_mem_get_info (mems u) ch (rmt_mem w) = Inr (ra, rs, d)" "wr_opcode t = Inr op"
      "verbs_loc_event src w u (verbs_base_wr op la ra lm rm w) = Inr wr1" "verbs_rmt_event d w u wr1 = Inr wr"
    by (rule verbs_create_wr_Inr [OF assms(1) [unfolded x]])
  have "sge wr = Some \<lparr>sg_addr = la + loc_offset w, sg_length = ucast (dma_size w), sg_lkey = vm_lkey lm\<rparr>"
      "remote_addr wr = ra + rmt_offset w" "opcode wr = IBV_WR_RDMA_READ \<longleftrightarrow> op = IBV_WR_RDMA_READ"
    using verbs_loc_event_frame [OF c(4)] verbs_rmt_event_frame [OF c(5)] verbs_event_opcode(2) [OF c(5)]
    by (simp_all add: verbs_base_wr_def)
  then show ?thesis
    using c(1-3) length_small [OF assms(2)]
    by (cases t) (simp_all add: x request_copy_def write_copy_def side_addr_def wrt_rank_def wr_opcode_def)
qed

section \<open>A write that passes\<close>

definition in_pool :: "('z) uri_state_scheme \<Rightarrow> int \<Rightarrow> addr \<Rightarrow> bool" where
  "in_pool u r f \<longleftrightarrow> (case flag_pool u of None \<Rightarrow> False | Some fp \<Rightarrow> nat r < length (fp_rmt_base fp) \<and>
     fp_rmt_base fp ! nat r \<le> f \<and> f < flag_at (fp_rmt_base fp ! nat r) (unat (fp_size fp)))"

definition verbs_passes :: "('z) uri_verbs_state_scheme \<Rightarrow> uri_channel_hdr \<Rightarrow> uru_transfer_t \<times> uri_wrt \<Rightarrow> bool" where
  "verbs_passes u ch tw \<longleftrightarrow> (case tw of (t, w) \<Rightarrow> t \<noteq> URU_TRANSFER_TYPE_UNKNOWN \<and>
     verbs_mems u (loc_mem w) \<noteq> None \<and> verbs_mems u (rmt_mem w) \<noteq> None \<and>
     (case (uri_mem_get_info (mems u) ch (loc_mem w), uri_mem_get_info (mems u) ch (rmt_mem w)) of
        (Inr (_, _, lr), Inr (_, _, rr)) \<Rightarrow>
          0 \<le> lr \<and> lr < mpi_size (uru_mpi u) \<and> 0 \<le> rr \<and> rr < mpi_size (uru_mpi u) \<and>
          (loc_flag_p w = 0 \<or> loc_flag_add w = - 1 \<and> in_pool u lr (loc_flag_p w)) \<and>
          (rmt_flag_p w = 0 \<or> rmt_flag_add w = - 1 \<and> in_pool u rr (rmt_flag_p w))
      | _ \<Rightarrow> False))"

lemma event_fill_total:
  "0 \<le> r \<Longrightarrow> r < mpi_size (uru_mpi u) \<Longrightarrow> in_pool u r f \<Longrightarrow> \<exists>e. uri_verbs_event_fill r f (- 1) u = Inr e"
  by (auto simp: uri_verbs_event_fill_def in_pool_def Let_def split: option.splits)

lemma verbs_create_wr_total:
  assumes "verbs_passes u ch tw"
  shows "\<exists>x. verbs_create_wr ch tw u = Inr x"
proof -
  obtain t w where tw: "tw = (t, w)" by (cases tw)
  obtain la ls lr where l: "uri_mem_get_info (mems u) ch (loc_mem w) = Inr (la, ls, lr)"
    using assms by (cases "uri_mem_get_info (mems u) ch (loc_mem w)") (auto simp: verbs_passes_def tw)
  obtain ra rs rr where "uri_mem_get_info (mems u) ch (rmt_mem w) = Inr (ra, rs, rr)"
    using assms l by (cases "uri_mem_get_info (mems u) ch (rmt_mem w)") (auto simp: verbs_passes_def tw)
  moreover obtain lm rm where "verbs_mems u (loc_mem w) = Some lm" "verbs_mems u (rmt_mem w) = Some rm"
    using assms by (auto simp: verbs_passes_def tw)
  ultimately have i: "uri_mem_get_info (mems u) ch (loc_mem w) = Inr (la, ls, lr)"
      "uri_mem_get_info (mems u) ch (rmt_mem w) = Inr (ra, rs, rr)" "verbs_mems u (loc_mem w) = Some lm"
      "verbs_mems u (rmt_mem w) = Some rm" using l by simp_all
  obtain op where op: "wr_opcode t = Inr op" using assms by (cases t) (auto simp: verbs_passes_def tw wr_opcode_def)
  have r: "0 \<le> lr" "lr < mpi_size (uru_mpi u)" "0 \<le> rr" "rr < mpi_size (uru_mpi u)"
      "loc_flag_p w = 0 \<or> loc_flag_add w = - 1 \<and> in_pool u lr (loc_flag_p w)"
      "rmt_flag_p w = 0 \<or> rmt_flag_add w = - 1 \<and> in_pool u rr (rmt_flag_p w)"
    using assms by (simp_all add: verbs_passes_def tw i)
  have "\<exists>wr'. verbs_loc_event lr w u wr = Inr wr'" for wr
    using event_fill_total [OF r(1,2)] r(5) by (auto simp: verbs_loc_event_def)
  moreover have "\<exists>wr'. verbs_rmt_event rr w u wr = Inr wr'" for wr
    using event_fill_total [OF r(3,4)] r(6) by (auto simp: verbs_rmt_event_def)
  ultimately obtain wr1 wr2 where "verbs_loc_event lr w u (verbs_base_wr op la ra lm rm w) = Inr wr1"
      "verbs_rmt_event rr w u wr1 = Inr wr2" by blast
  then show ?thesis by (simp add: verbs_create_wr_def tw i op)
qed

lemma verbs_create_wrs_total:
  "\<forall>x \<in> set ws. verbs_passes u ch x \<Longrightarrow> \<exists>wrs. verbs_create_wrs ch ws u = Inr wrs"
  by (induction ws) (auto dest: verbs_create_wr_total)

section \<open>The parts of a plan\<close>

text \<open>Creating plans allocates and changes nothing that is there.\<close>

definition verbs_later :: "('z) uri_verbs_state_scheme \<Rightarrow> 'z uri_verbs_state_scheme \<Rightarrow> bool" where
  "verbs_later u v \<longleftrightarrow> (\<exists>pls b. v = u\<lparr>verbs_plans := pls, v_brk := b\<rparr> \<and> v_brk u \<le> b \<and> (\<forall>p < v_brk u. pls p = verbs_plans u p))"

lemma verbs_laterD:
  "verbs_later u v \<Longrightarrow> mems v = mems u \<and> uru_mpi v = uru_mpi u \<and> verbs_mems v = verbs_mems u \<and> flag_pool v = flag_pool u \<and>
     req_submit v = req_submit u \<and> req_finish v = req_finish u \<and> qp_list v = qp_list u \<and> verbs_log v = verbs_log u \<and>
     verbs_answer v = verbs_answer u"
  by (auto simp: verbs_later_def)

lemma verbs_later_refl: "verbs_later u u"
  unfolding verbs_later_def by (intro exI [of _ "verbs_plans u"] exI [of _ "v_brk u"]) simp

lemma verbs_later_trans: "verbs_later u v \<Longrightarrow> verbs_later v w \<Longrightarrow> verbs_later u w"
  unfolding verbs_later_def by (elim exE conjE) (intro exI conjI, simp, auto)

lemma in_pool_later: "verbs_later u v \<Longrightarrow> in_pool v = in_pool u"
  by (simp add: in_pool_def [abs_def] verbs_laterD)

lemma event_fill_later: "verbs_later u v \<Longrightarrow> uri_verbs_event_fill r f a v = uri_verbs_event_fill r f a u"
  by (drule verbs_laterD) (simp add: uri_verbs_event_fill_def)

lemma create_wr_later:
  assumes "verbs_later u v"
  shows "verbs_create_wr ch x v = verbs_create_wr ch x u"
proof -
  have e: "verbs_loc_event r w v = verbs_loc_event r w u" "verbs_rmt_event r w v = verbs_rmt_event r w u" for r w
    using event_fill_later [OF assms] by (auto simp: verbs_loc_event_def verbs_rmt_event_def)
  show ?thesis unfolding verbs_create_wr_def e using verbs_laterD [OF assms] by simp
qed

lemma create_wrs_later: "verbs_later u v \<Longrightarrow> verbs_create_wrs ch ws v = verbs_create_wrs ch ws u"
  by (induction ws) (simp_all add: create_wr_later)

lemma passes_later: "verbs_later u v \<Longrightarrow> verbs_passes u ch x \<Longrightarrow> verbs_passes v ch x"
  by (simp only: verbs_passes_def in_pool_later verbs_laterD cong: sum.case_cong)

definition verbs_made :: "('z) uri_verbs_state_scheme \<Rightarrow> uri_channel_hdr \<Rightarrow> (uru_transfer_t \<times> uri_wrt) list \<Rightarrow> addr \<Rightarrow> bool" where
  "verbs_made u ch ws pl \<longleftrightarrow> pl \<noteq> 0 \<and> pl < v_brk u \<and>
     (\<exists>wrs. verbs_create_wrs ch ws u = Inr wrs \<and> verbs_plans u pl = Some \<lparr>vp_wr = wrs\<rparr>)"

lemma verbs_made_later: "verbs_later u v \<Longrightarrow> verbs_made u ch ws pl \<Longrightarrow> verbs_made v ch ws pl"
  by (simp add: verbs_made_def create_wrs_later) (auto simp: verbs_later_def)

text \<open>A channel of the module; \<open>progress\<close> is what the daemon thread does while a sender waits.\<close>

definition verbs_channel ::
  "(nat \<Rightarrow> (uri_verbs_state \<Rightarrow> uri_verbs_state) list) \<Rightarrow> uri_verbs_state uri_channel \<Rightarrow> bool" where
  "verbs_channel progress ch \<longleftrightarrow> opened (hdr ch) \<and> (\<exists>fp. func_ptrs ch = Some fp \<and>
     rdma_plan_create fp = Some (uri_verbs_rdma_plan_create progress) \<and>
     rdma_plan_start fp = Some (uri_verbs_rdma_plan_start progress))"

interpretation verbs_parts: plan_maker False "verbs_channel progress" verbs_passes "\<lambda>n u. v_brk u \<noteq> 0" verbs_later verbs_made
proof unfold_locales
  fix ch :: "uri_verbs_state uri_channel" and ws and n :: nat and u :: uri_verbs_state
  assume a: "verbs_channel progress ch" "ws \<noteq> []" "\<forall>x \<in> set ws. verbs_passes u (hdr ch) x" "v_brk u \<noteq> 0"
  obtain wrs where w: "verbs_create_wrs (hdr ch) ws u = Inr wrs" using verbs_create_wrs_total [OF a(3)] by blast
  let ?v = "u\<lparr>v_brk := v_brk u + 1, verbs_plans := (verbs_plans u)(v_brk u \<mapsto> \<lparr>vp_wr = wrs\<rparr>)\<rparr>"
  have l: "verbs_later u ?v"
    unfolding verbs_later_def
    by (intro exI [of _ "(verbs_plans u)(v_brk u \<mapsto> \<lparr>vp_wr = wrs\<rparr>)"] exI [of _ "v_brk u + 1"]) simp
  have "uri_verbs_rdma_plan_create progress (hdr ch) False ws u = Inr (v_brk u, ?v)"
    by (simp add: uri_verbs_rdma_plan_create_def w Let_def)
  moreover have "zip (map fst ws) (map snd ws) = ws" by (simp add: zip_map_fst_snd)
  ultimately have "uri_rdma_plan_create ch False (Some (map fst ws)) (map snd ws) u = Inr (v_brk u, ?v)"
    using a(1) by (auto simp: verbs_channel_def uri_rdma_plan_create_def)
  moreover have "verbs_made ?v (hdr ch) ws (v_brk u)" using a(4) w create_wrs_later [OF l] by (simp add: verbs_made_def)
  ultimately show "\<exists>pl v. uri_rdma_plan_create ch False (Some (map fst ws)) (map snd ws) u = Inr (pl, v) \<and> verbs_later u v \<and>
      v_brk v \<noteq> 0 \<and> verbs_made v (hdr ch) ws pl"
    using l by (intro exI [of _ "v_brk u"] exI [of _ ?v]) simp
qed (auto intro: verbs_later_refl verbs_later_trans verbs_made_later passes_later)

section \<open>Posting\<close>

text \<open>A target whose send queue has room for \<open>n\<close> more entries; its counters are far from wrapping.\<close>

definition queue_room :: "nat \<Rightarrow> ('z) uri_verbs_state_scheme \<Rightarrow> int \<Rightarrow> bool" where
  "queue_room n u d \<longleftrightarrow> qp_in_range d u \<and> (let f = unat (req_finish u ! nat d); b = unat (req_submit u ! nat d) in
     f \<le> b \<and> b + n \<le> f + 256 \<and> f < 2 ^ 61)"

lemma queue_room_less: "queue_room n u d \<Longrightarrow> m \<le> n \<Longrightarrow> queue_room m u d"
  by (auto simp: queue_room_def Let_def)

lemma room_not_full:
  assumes "queue_room (Suc n) u d"
  shows "submit_ge_finish d u" "\<not> qp_full d u"
proof -
  let ?f = "req_finish u ! nat d" and ?b = "req_submit u ! nat d"
  have b: "unat ?f \<le> unat ?b" "unat ?b \<le> unat ?f + 255" "unat ?f < 2 ^ 61" using assms by (simp_all add: queue_room_def Let_def)
  have s: "sint ?f = int (unat ?f)" "sint ?b = int (unat ?b)"
    using sint_small [of "unat ?f"] sint_small [of "unat ?b"] b by simp_all
  show "submit_ge_finish d u" using b(1) by (simp only: submit_ge_finish_def s of_nat_le_iff)
  have "?b - ?f = of_nat (unat ?b - unat ?f)" using b(1) by (simp add: of_nat_diff)
  then have "sint (qp_outstanding d u) = int (unat ?b - unat ?f)"
    unfolding qp_outstanding_def using b(2) by (simp add: sint_small)
  then show "\<not> qp_full d u" using b(2) by (simp add: qp_full_def VERBS_OUTSTANDING_SEND_REQUESTS_def)
qed

lemma room_post:
  assumes "queue_room (Suc (Suc n)) u e" "qp_in_range d u"
  shows "queue_room n (verbs_posted d wr u) e"
proof -
  let ?n = "if opcode wr = IBV_WR_RDMA_READ \<and> wrid_rmt_imm wr \<noteq> 0 then 2 else 1 :: nat"
  have sub: "req_submit (verbs_posted d wr u) = (req_submit u)[nat d := req_submit u ! nat d + of_nat ?n]"
    by (auto simp: verbs_posted_def verbs_issue_def Let_def)
  have same: "req_finish (verbs_posted d wr u) = req_finish u" "qp_list (verbs_posted d wr u) = qp_list u"
    by (simp_all add: verbs_posted_def verbs_issue_def Let_def)
  have e: "nat e < length (req_submit u)" "0 \<le> e" "nat e < length (req_finish u)" "nat e < length (qp_list u)"
      "unat (req_finish u ! nat e) \<le> unat (req_submit u ! nat e)"
      "unat (req_submit u ! nat e) + Suc (Suc n) \<le> unat (req_finish u ! nat e) + 256" "unat (req_finish u ! nat e) < 2 ^ 61"
    using assms(1) by (simp_all add: queue_room_def qp_in_range_def Let_def)
  have "unat (req_submit u ! nat e + of_nat ?n) = unat (req_submit u ! nat e) + ?n"
    using e(6,7) by (intro outstanding_word [of _ "2 ^ 61 - 1"]) simp_all
  then show ?thesis using e by (cases "nat d = nat e") (auto simp: queue_room_def qp_in_range_def Let_def sub same)
qed

lemma post_frame [simp]:
  "verbs_plans (verbs_posted d wr u) = verbs_plans u" "v_brk (verbs_posted d wr u) = v_brk u" "mems (verbs_posted d wr u) = mems u"
  "verbs_log (verbs_posted d wr u) = verbs_log u @ [ibv_post_send d wr]" "verbs_answer (verbs_posted d wr u) = verbs_answer u"
  "qp_in_range r (verbs_posted d wr u) = qp_in_range r u"
  by (simp_all add: verbs_posted_def verbs_issue_def qp_in_range_def Let_def)

text \<open>While there is room and the card takes requests, starting posts every request at once.\<close>

definition takes_requests :: "('z) uri_verbs_state_scheme \<Rightarrow> bool" where
  "takes_requests u \<longleftrightarrow> (\<forall>l d wr. verbs_answer u l (ibv_post_send d wr) = 0)"

definition post_log :: "(int \<times> ibv_send_wr) list \<Rightarrow> verbs_call list" where
  "post_log = map (\<lambda>(d, wr). ibv_post_send d wr)"

lemma verbs_start_wrs_room:
  assumes "\<forall>d. queue_room n u d \<or> \<not> targets d" "2 * length wrs + m \<le> n" "\<forall>x \<in> set wrs. targets (fst x)" "takes_requests u"
  shows "\<exists>v. verbs_start_wrs progress i wrs u = Inr v \<and> verbs_log v = verbs_log u @ post_log wrs \<and>
    verbs_plans v = verbs_plans u \<and> takes_requests v \<and> (\<forall>d. queue_room m v d \<or> \<not> targets d)"
  using assms
proof (induction wrs arbitrary: i u n)
  case Nil
  then show ?case using queue_room_less by (fastforce simp: post_log_def)
next
  case (Cons x wrs)
  obtain d wr where x: "x = (d, wr)" by (cases x)
  obtain k where k: "n = Suc (Suc k)" "2 * length wrs + m \<le> k" using Cons.prems(2) by (cases n; cases "n - 1") auto
  have q: "queue_room (Suc (Suc k)) u d" using Cons.prems(1,3) k(1) by (auto simp: x)
  have r: "qp_in_range d u" using q by (simp add: queue_room_def)
  have go: "verbs_start_wrs progress i (x # wrs) u = verbs_start_wrs progress (i + 1) wrs (verbs_posted d wr u)"
    using r room_not_full [OF q] Cons.prems(4)
    by (cases "progress i") (simp_all add: x verbs_post_def verbs_check_def takes_requests_def)
  have "\<forall>e. queue_room k (verbs_posted d wr u) e \<or> \<not> targets e" using Cons.prems(1) room_post [OF _ r] k(1) by blast
  from Cons.IH [OF this k(2)] Cons.prems(3,4) show ?case unfolding go by (auto simp: post_log_def x takes_requests_def)
qed

section \<open>The writes of a plan pass\<close>

text \<open>
  The flags of a transfer lie in the pools of their processes; every handle that this process knows has
  the keys that the module put into it; and both classes have one Verbs channel.
\<close>

definition flags_ok :: "(('z) uri_state_scheme) unr_base_state \<Rightarrow> unr_plan_create_para_t \<Rightarrow> nat \<Rightarrow> bool" where
  "flags_ok s p i \<longleftrightarrow>
     (case loc_send_flag (uru_mpi (uri s)) p i of Inl _ \<Rightarrow> True | Inr f \<Rightarrow> f = 0 \<or> in_pool (uri s) (mpi_rank (uru_mpi (uri s))) f) \<and>
     (case rmt_send_flag p i of Inl _ \<Rightarrow> True | Inr f \<Rightarrow> f = 0 \<or> in_pool (uri s) (blk_dst_rank (rmt_blk_arr p ! i)) f)"

definition keys_ok :: "uri_verbs_state unr_base_state \<Rightarrow> unr_channels_t \<Rightarrow> bool" where
  "keys_ok s uc \<longleftrightarrow> (\<forall>h \<in> set (loc_mem_arr uc) \<union> set (concat (rmt_mem_arr uc)). \<forall>same.
     \<forall>off \<in> set (node_offsets uc same). verbs_mems (uri s) (h + unat off) \<noteq> None)"

definition over_verbs ::
  "(nat \<Rightarrow> (uri_verbs_state \<Rightarrow> uri_verbs_state) list) \<Rightarrow> uri_verbs_state unr_base_state \<Rightarrow> unr_channels_t \<Rightarrow> bool" where
  "over_verbs progress s uc \<longleftrightarrow> length (inter_channels uc) = 1 \<and> length (intra_channels uc) = 1 \<and>
     (\<forall>k < 2. verbs_channel progress (registry s ! plan_channel uc k)) \<and> keys_ok s uc \<and> v_brk (uri s) \<noteq> 0 \<and>
     (let u = uru_mpi (uri s) in 0 \<le> mpi_rank u \<and> mpi_rank u < mpi_size u \<and> length (same_node u) = nat (mpi_size u))"

lemma over_verbs_one: "over_verbs progress s uc \<Longrightarrow> length (node_channels uc same) = 1"
  by (simp add: over_verbs_def node_channels_def)

lemma sig_add_one: "length szs = 1 \<Longrightarrow> szs ! 0 \<noteq> 0 \<Longrightarrow> sig_add_arr szs ! 0 = - 1"
  by (cases szs) (auto simp: sig_add_arr_def non_zeros_def)

lemma plan_send_verbs:
  assumes "handles_ok s" "unr_channels s = Some uc" "over_verbs progress s uc" "i < num_sends p"
    and "transfer_ok s uc p sizes i" "flags_ok s p i" "turn_ok uc nx" "plan_send uc (uru_mpi (uri s)) p (sizes ! i) i nx = Inr (ws, nx')"
  shows "length ws \<le> 1" "\<forall>(k, x) \<in> set ws. verbs_passes (uri s) (hdr (registry s ! plan_channel uc k)) x"
proof -
  let ?lb = "loc_blk_arr p ! i" and ?rb = "rmt_blk_arr p ! i" and ?u = "uru_mpi (uri s)"
    and ?t = "type_arr (num_sends p) (dma_type_arr p) ! i"
  note ok = handles_okD [OF assms(1,2)]
  note cls = channels_ok_class [OF ok(1) assms(2)]
  obtain loc_h rmt_h same lf rf szs where h: "send_handles uc ?u ?lb ?rb = Inr (loc_h, rmt_h, same)"
    and len: "length szs = length (node_channels uc same)"
    and ws: "ws = map (\<lambda>j. (plan_no uc same j, ?t, stripe_wrt p i (loc_h, rmt_h) (node_offsets uc same) (lf, rf) szs j))
            (filter (\<lambda>j. szs ! j \<noteq> 0) [0..<length szs])"
    and fl: "loc_send_flag ?u p i = Inr lf" "rmt_send_flag p i = Inr rf"
    by (rule plan_send_Inr [OF cls cls assms(7,8)])
  have one: "length szs = 1" using len over_verbs_one [OF assms(3)] by simp
  then have all: "ws = (if szs ! 0 \<noteq> 0
      then [(plan_no uc same 0, ?t, stripe_wrt p i (loc_h, rmt_h) (node_offsets uc same) (lf, rf) szs 0)] else [])"
    by (simp add: ws)
  then show "length ws \<le> 1" by simp
  obtain loc rmt :: unr_mem_t where
    li: "\<forall>j < length (node_channels uc same). uri_mem_get_info (mems (uri s))
      (hdr (registry s ! plan_channel uc (plan_no uc same j))) (loc_h + unat (node_offsets uc same ! j)) =
      Inr (m_addr loc, m_size loc, mpi_rank ?u)"
    and ri: "\<forall>j < length (node_channels uc same). uri_mem_get_info (mems (uri s))
      (hdr (registry s ! plan_channel uc (plan_no uc same j))) (rmt_h + unat (node_offsets uc same ! j)) =
      Inr (m_addr rmt, m_size rmt, blk_dst_rank ?rb)"
    by (rule send_handles_resolve [OF assms(1,2) h]) (rule that)
  have t: "0 \<le> blk_dst_rank ?rb" "blk_dst_rank ?rb < mpi_size ?u" "?t \<noteq> URU_TRANSFER_TYPE_UNKNOWN"
    using assms(5) by (simp_all add: transfer_ok_def Let_def)
  have r: "0 \<le> mpi_rank ?u" "mpi_rank ?u < mpi_size ?u" using assms(3) by (simp_all add: over_verbs_def Let_def)
  have b: "nat (blk_mem_idx ?lb) < length (loc_mem_arr uc)" "loc_h = loc_mem_arr uc ! nat (blk_mem_idx ?lb)"
      "nat (blk_dst_rank ?rb) < length (rmt_mem_arr uc)" "nat (blk_mem_idx ?rb) < length (rmt_mem_arr uc ! nat (blk_dst_rank ?rb))"
      "rmt_h = rmt_mem_arr uc ! nat (blk_dst_rank ?rb) ! nat (blk_mem_idx ?rb)"
    using h by (auto simp: send_handles_def Let_def split: if_splits)
  then have "loc_h \<in> set (loc_mem_arr uc)" "rmt_h \<in> set (concat (rmt_mem_arr uc))"
    by (simp, metis UN_I nth_mem set_concat)
  moreover have "node_offsets uc same ! 0 \<in> set (node_offsets uc same)"
    using cls [of same] over_verbs_one [OF assms(3), of same] by (simp add: class_ok_def)
  ultimately have keys: "verbs_mems (uri s) (loc_h + unat (node_offsets uc same ! 0)) \<noteq> None"
      "verbs_mems (uri s) (rmt_h + unat (node_offsets uc same ! 0)) \<noteq> None"
    using assms(3) unfolding over_verbs_def keys_ok_def by blast+
  have flags: "lf = 0 \<or> in_pool (uri s) (mpi_rank ?u) lf" "rf = 0 \<or> in_pool (uri s) (blk_dst_rank ?rb) rf"
    using assms(6) fl by (simp_all add: flags_ok_def)
  have "verbs_passes (uri s) (hdr (registry s ! plan_channel uc (plan_no uc same 0)))
      (?t, stripe_wrt p i (loc_h, rmt_h) (node_offsets uc same) (lf, rf) szs 0)" if "szs ! 0 \<noteq> 0"
  proof -
    have "uri_mem_get_info (mems (uri s)) (hdr (registry s ! plan_channel uc (plan_no uc same 0)))
        (loc_h + unat (node_offsets uc same ! 0)) = Inr (m_addr loc, m_size loc, mpi_rank ?u)"
      "uri_mem_get_info (mems (uri s)) (hdr (registry s ! plan_channel uc (plan_no uc same 0)))
        (rmt_h + unat (node_offsets uc same ! 0)) = Inr (m_addr rmt, m_size rmt, blk_dst_rank ?rb)"
      using li [rule_format, of 0] ri [rule_format, of 0] over_verbs_one [OF assms(3), of same] by simp_all
    then show ?thesis using keys flags r t sig_add_one [OF one that] by (simp add: verbs_passes_def)
  qed
  then show "\<forall>(k, x) \<in> set ws. verbs_passes (uri s) (hdr (registry s ! plan_channel uc k)) x" by (simp add: all)
qed

lemma plan_wrts_verbs:
  assumes "handles_ok s" "unr_channels s = Some uc" "over_verbs progress s uc"
    and "plan_sizes p = Inr sizes" "\<forall>i < num_sends p. transfer_ok s uc p sizes i" "\<forall>i < num_sends p. flags_ok s p i"
    and "plan_wrts uc (uru_mpi (uri s)) p = Inr wrts"
  shows "length (all_wrts wrts) \<le> num_sends p"
    "(k, x) \<in> set (all_wrts wrts) \<Longrightarrow> verbs_passes (uri s) (hdr (registry s ! plan_channel uc k)) x"
proof -
  note ok = handles_okD [OF assms(1,2)]
  have few: "length (inter_channels uc) + length (intra_channels uc) < 256" using assms(3) by (simp add: over_verbs_def)
  obtain wss where wss: "length wss = num_sends p" "mset (all_wrts wrts) = mset (concat wss)"
      "\<forall>i < num_sends p. (sizes ! i = 0 \<and> wss ! i = []) \<or>
        (\<exists>nx nx'. turn_ok uc nx \<and> plan_send uc (uru_mpi (uri s)) p (sizes ! i) i nx = Inr (wss ! i, nx'))"
    by (rule plan_wrts_sends [OF ok(1) assms(2) few assms(7,4)])
  have each: "length (wss ! i) \<le> 1 \<and> (\<forall>(k, x) \<in> set (wss ! i). verbs_passes (uri s) (hdr (registry s ! plan_channel uc k)) x)"
    if i: "i < num_sends p" for i
  proof (cases "wss ! i = []")
    case False
    then obtain nx nx' where "turn_ok uc nx" "plan_send uc (uru_mpi (uri s)) p (sizes ! i) i nx = Inr (wss ! i, nx')"
      using wss(3) i by blast
    then show ?thesis using plan_send_verbs [OF assms(1-3) i] assms(5,6) i by blast
  qed simp
  have "\<forall>ws \<in> set wss. length ws \<le> 1" using each wss(1) by (auto simp: in_set_conv_nth)
  from concat_length_bound [OF this] show "length (all_wrts wrts) \<le> num_sends p"
    using mset_eq_length [OF wss(2)] wss(1) by simp
  assume "(k, x) \<in> set (all_wrts wrts)"
  then have "(k, x) \<in> set (concat wss)" using mset_eq_setD [OF wss(2)] by simp
  then obtain i where "i < num_sends p" "(k, x) \<in> set (wss ! i)" using wss(1) by (metis UN_E in_set_conv_nth set_concat)
  then show "verbs_passes (uri s) (hdr (registry s ! plan_channel uc k)) x" using each by blast
qed

section \<open>The requests of a plan\<close>

definition plan_requests ::
  "('z) uri_verbs_state_scheme \<Rightarrow> 's uri_channel list \<Rightarrow> (nat \<times> (uru_transfer_t \<times> uri_wrt) list) list \<Rightarrow> (int \<times> ibv_send_wr) list" where
  "plan_requests u reg xs =
     concat (map (\<lambda>(c, ws). case verbs_create_wrs (hdr (reg ! c)) ws u of Inl _ \<Rightarrow> [] | Inr wrs \<Rightarrow> wrs) xs)"

lemma plan_requests_simps [simp]:
  "plan_requests u reg [] = []"
  "plan_requests u reg ((c, ws) # xs) =
     (case verbs_create_wrs (hdr (reg ! c)) ws u of Inl _ \<Rightarrow> [] | Inr wrs \<Rightarrow> wrs) @ plan_requests u reg xs"
  by (simp_all add: plan_requests_def)

lemma create_wrs_copies:
  assumes "verbs_create_wrs ch ws u = Inr wrs" "\<forall>(t, w) \<in> set ws. unat (dma_size w) < 2 ^ 32"
  shows "map (request_copy me) wrs = map (write_copy (mems u) ch me) ws"
  using assms
proof (induction ws arbitrary: wrs)
  case (Cons x ws)
  obtain t w where x: "x = (t, w)" by (cases x)
  obtain wr wrs' where c: "verbs_create_wr ch (t, w) u = Inr wr" "verbs_create_wrs ch ws u = Inr wrs'" "wrs = wr # wrs'"
    using Cons.prems(1) by (auto simp: x)
  have "request_copy me wr = write_copy (mems u) ch me (t, w)"
    by (rule request_copy_write [OF c(1)]) (use Cons.prems(2) in \<open>simp add: x\<close>)
  then show ?case using Cons.IH [OF c(2)] Cons.prems(2) c(3) by (simp add: x)
qed simp

lemma create_wrs_targets:
  assumes "verbs_create_wrs ch ws u = Inr wrs" "\<forall>x \<in> set ws. verbs_passes u ch x"
  shows "\<forall>x \<in> set wrs. 0 \<le> fst x \<and> fst x < mpi_size (uru_mpi u)"
  using assms
proof (induction ws arbitrary: wrs)
  case (Cons x ws)
  obtain t w where x: "x = (t, w)" by (cases x)
  obtain d wr wrs' where c: "verbs_create_wr ch (t, w) u = Inr (d, wr)" "verbs_create_wrs ch ws u = Inr wrs'" "wrs = (d, wr) # wrs'"
    using Cons.prems(1) x by auto
  have "0 \<le> d \<and> d < mpi_size (uru_mpi u)"
    by (rule verbs_create_wr_Inr [OF c(1)]) (use Cons.prems(2) in \<open>auto simp: verbs_passes_def x\<close>)
  then show ?case using Cons.IH [OF c(2)] Cons.prems(2) c(3) by simp
qed simp

text \<open>All parts of a plan, one after the other.\<close>

lemma start_verbs_parts:
  assumes "list_all2 (part_made (\<lambda>h ws pl. pl \<noteq> 0 \<and> (\<exists>wrs. verbs_create_wrs h ws u = Inr wrs \<and>
      verbs_plans (uri s) pl = Some \<lparr>vp_wr = wrs\<rparr>)) (registry s)) xs pcs"
    and "\<forall>x \<in> set xs. verbs_channel progress (registry s ! fst x)"
    and "\<forall>d. queue_room n (uri s) d \<or> \<not> targets d" "2 * length (plan_requests u (registry s) xs) \<le> n"
    and "\<forall>x \<in> set (plan_requests u (registry s) xs). targets (fst x)" "takes_requests (uri s)"
  shows "\<exists>v. fold_res start_uri_plan pcs s = Inr (s\<lparr>uri := v\<rparr>) \<and>
    verbs_log v = verbs_log (uri s) @ post_log (plan_requests u (registry s) xs)"
  using assms
proof (induction xs arbitrary: pcs s n)
  case Nil
  then show ?case by (intro exI [of _ "uri s"]) (simp add: post_log_def)
next
  case (Cons x xs)
  let ?P = "\<lambda>s. part_made (\<lambda>h ws pl. pl \<noteq> 0 \<and> (\<exists>wrs. verbs_create_wrs h ws u = Inr wrs \<and>
      verbs_plans (uri s) pl = Some \<lparr>vp_wr = wrs\<rparr>)) (registry s)"
  obtain pc pcs' where pcs: "pcs = pc # pcs'" and hyps: "?P s x pc" "list_all2 (?P s) xs pcs'"
    using Cons.prems(1) by (auto simp: list_all2_Cons1)
  obtain c ws pl ch where x: "x = (c, ws)" and pc: "pc = (pl, ch)" by (cases x; cases pc)
  show ?case
  proof (cases "ws = []")
    case True
    then have "pl = 0" using hyps(1) by (simp add: part_made_def x pc)
    then show ?thesis using Cons.IH [OF hyps(2), of n] Cons.prems(2-6) True by (simp add: pcs x pc start_uri_plan_def)
  next
    case False
    then have "ch = Some c \<and> pl \<noteq> 0 \<and> (\<exists>wrs. verbs_create_wrs (hdr (registry s ! c)) ws u = Inr wrs \<and>
        verbs_plans (uri s) pl = Some \<lparr>vp_wr = wrs\<rparr>)"
      using hyps(1) by (simp add: part_made_def x pc)
    then obtain wrs where m: "ch = Some c" "pl \<noteq> 0" "verbs_create_wrs (hdr (registry s ! c)) ws u = Inr wrs"
        "verbs_plans (uri s) pl = Some \<lparr>vp_wr = wrs\<rparr>"
      by blast
    let ?m = "2 * length (plan_requests u (registry s) xs)"
    have len: "2 * length wrs + ?m \<le> n" "\<forall>y \<in> set wrs. targets (fst y)"
      using Cons.prems(4,5) m(3) by (auto simp: x)
    obtain v where v: "verbs_start_wrs progress 0 wrs (uri s) = Inr v" "verbs_log v = verbs_log (uri s) @ post_log wrs"
        "verbs_plans v = verbs_plans (uri s)" "takes_requests v" "\<forall>d. queue_room ?m v d \<or> \<not> targets d"
      using verbs_start_wrs_room [OF Cons.prems(3) len Cons.prems(6)] by blast
    have "verbs_channel progress (registry s ! c)" using Cons.prems(2) by (simp add: x)
    then have st: "start_uri_plan pc s = Inr (s\<lparr>uri := v\<rparr>)"
      using m(1,2,4) v(1) by (auto simp: pc start_uri_plan_def uri_rdma_plan_start_def verbs_channel_def uri_verbs_rdma_plan_start_def)
    have "\<exists>w. fold_res start_uri_plan pcs' (s\<lparr>uri := v\<rparr>) = Inr ((s\<lparr>uri := v\<rparr>)\<lparr>uri := w\<rparr>) \<and>
        verbs_log w = verbs_log (uri (s\<lparr>uri := v\<rparr>)) @ post_log (plan_requests u (registry (s\<lparr>uri := v\<rparr>)) xs)"
      by (rule Cons.IH [where n = ?m]) (use hyps(2) Cons.prems(2,5) v(3-5) m(3) in \<open>simp_all add: x\<close>)
    then show ?thesis using st v(2) m(3) by (auto simp: pcs x post_log_def)
  qed
qed

lemma parts_of_nth: "parts_of uc 0 wrts = map (\<lambda>k. (plan_channel uc k, wrts ! k)) [0..<length wrts]"
  by (rule nth_equalityI) (simp_all add: parts_of_def)

lemma plan_requests_copies:
  assumes "\<forall>(k, x) \<in> set (all_wrts wrts). verbs_passes u (hdr (reg ! plan_channel uc k)) x"
    and "\<forall>(k, t, w) \<in> set (all_wrts wrts). unat (dma_size w) < 2 ^ 32"
  shows "map (request_copy me) (plan_requests u reg (parts_of uc 0 wrts)) =
      map (\<lambda>(k, x). write_copy (mems u) (hdr (reg ! plan_channel uc k)) me x) (all_wrts wrts)"
    "\<forall>x \<in> set (plan_requests u reg (parts_of uc 0 wrts)). 0 \<le> fst x \<and> fst x < mpi_size (uru_mpi u)"
proof -
  let ?h = "\<lambda>k. hdr (reg ! plan_channel uc k)"
  have ok: "\<forall>x \<in> set (wrts ! k). verbs_passes u (?h k) x" "\<forall>(t, w) \<in> set (wrts ! k). unat (dma_size w) < 2 ^ 32" if "k < length wrts" for k
    using assms(1,2) that unfolding all_wrts_ball by blast+
  have each: "\<exists>wrs. verbs_create_wrs (?h k) (wrts ! k) u = Inr wrs \<and>
      map (request_copy me) wrs = map (write_copy (mems u) (?h k) me) (wrts ! k) \<and>
      (\<forall>x \<in> set wrs. 0 \<le> fst x \<and> fst x < mpi_size (uru_mpi u))" if k: "k < length wrts" for k
  proof -
    obtain wrs where w: "verbs_create_wrs (?h k) (wrts ! k) u = Inr wrs" using verbs_create_wrs_total [OF ok(1) [OF k]] by blast
    show ?thesis using w create_wrs_copies [OF w ok(2) [OF k]] create_wrs_targets [OF w ok(1) [OF k]] by blast
  qed
  have "map (request_copy me) (case verbs_create_wrs (?h k) (wrts ! k) u of Inl _ \<Rightarrow> [] | Inr wrs \<Rightarrow> wrs) =
      map (\<lambda>(k, x). write_copy (mems u) (?h k) me x) (map (Pair k) (wrts ! k))" if "k < length wrts" for k
    using each [OF that] by auto
  then show "map (request_copy me) (plan_requests u reg (parts_of uc 0 wrts)) =
      map (\<lambda>(k, x). write_copy (mems u) (?h k) me x) (all_wrts wrts)"
    unfolding plan_requests_def parts_of_nth all_wrts_def map_concat map_map by (intro arg_cong [of _ _ concat] map_cong) auto
  show "\<forall>x \<in> set (plan_requests u reg (parts_of uc 0 wrts)). 0 \<le> fst x \<and> fst x < mpi_size (uru_mpi u)"
    unfolding plan_requests_def parts_of_nth using each by fastforce
qed

section \<open>The plan moves its blocks\<close>

lemma queue_room_later: "verbs_later u v \<Longrightarrow> queue_room n v d = queue_room n u d"
  by (simp add: queue_room_def qp_in_range_def verbs_laterD)

text \<open>
  C1. Over a Verbs channel, from the user's call to the bytes: with exchanged handles, a plan whose blocks
  lie in their memories, whose flags lie in the pools and whose transfers are shorter than \<open>2 ^ 32\<close> bytes
  is created; when the send queues have room for two entries per transfer and the Verbs library takes
  requests, starting it posts its requests at once, and nothing else; and in whatever order the network card works them off,
  afterwards every block that is written holds the bytes that the other block of its transfer held
  before, in all processes, and no other byte has changed.
\<close>

theorem verbs_plan_moves_blocks:
  assumes "handles_ok s" "unr_channels s = Some uc" "over_verbs progress s uc" "u_brk s \<noteq> 0"
    and "0 < num_sends p" "arrays_fit p" "\<not> once_now p" "plan_sizes p = Inr sizes"
    and "\<forall>i < num_sends p. transfer_ok s uc p sizes i" "\<forall>i < num_sends p. flags_ok s p i"
    and "blocks_apart s uc p sizes" "\<forall>i < num_sends p. unat (sizes ! i) < 2 ^ 32"
    and "\<forall>d. 0 \<le> d \<and> d < mpi_size (uru_mpi (uri s)) \<longrightarrow> queue_room (2 * num_sends p) (uri s) d"
      "takes_requests (uri s)"
  shows "\<exists>a t v posted. unr_rdma_plan_create True p s = Inr (a, t) \<and> unr_plan_start pk a t = Inr (URU_STATUS_OK, v) \<and>
    verbs_log (uri v) = verbs_log (uri s) @ post_log posted \<and>
    (\<forall>order. mset order = mset posted \<longrightarrow>
      moves_blocks s uc p sizes (fold (\<lambda>x. run_copy (request_copy (mpi_rank (uru_mpi (uri s))) x)) order))"
proof -
  let ?u = "uri s" and ?me = "mpi_rank (uru_mpi (uri s))"
  note ok = handles_okD [OF assms(1,2)]
  have one: "length (inter_channels uc) + length (intra_channels uc) = 2" "v_brk ?u \<noteq> 0"
      "length (same_node (uru_mpi ?u)) = nat (mpi_size (uru_mpi ?u))"
      "\<forall>k < 2. verbs_channel progress (registry s ! plan_channel uc k)"
    using assms(3) by (simp_all add: over_verbs_def Let_def)
  then have few: "length (inter_channels uc) + length (intra_channels uc) < 256" by simp
  obtain wrts where w: "plan_wrts uc (uru_mpi ?u) p = Inr wrts"
    using plan_wrts_total [OF ok(1) assms(2) few assms(5,8,9) ok(5) one(3)] by blast
  have two: "length wrts = 2" using plan_wrts_count(1) [OF ok(1) assms(2) few w] one(1) by simp
  have pass: "\<forall>(k, x) \<in> set (all_wrts wrts). verbs_passes ?u (hdr (registry s ! plan_channel uc k)) x"
    using plan_wrts_verbs(2) [OF assms(1-3,8-10) w] by blast
  have small: "\<forall>(k, t, w) \<in> set (all_wrts wrts). unat (dma_size w) < 2 ^ 32"
    using plan_write_small [OF assms(1,2) few w assms(8,12)] by blast
  have works: "\<forall>k < length wrts. verbs_channel progress (registry s ! plan_channel uc k)" using one(4) two by simp
  have pass': "\<forall>k < length wrts. \<forall>x \<in> set (wrts ! k). verbs_passes ?u (hdr (registry s ! plan_channel uc k)) x"
    using pass unfolding all_wrts_ball .
  have now: "once_now p = False" using assms(7) by simp
  obtain a t where t: "unr_rdma_plan_create True p s = Inr (a, t)" "verbs_later ?u (uri t)" "registry t = registry s"
      "unr_channels t = unr_channels s" "plan_made verbs_made uc wrts a t"
    using verbs_parts.plan_create_total [OF assms(2) w now works pass' one(2) assms(4,6) transfers_synced [OF assms(9,6) ok(5)]]
    by blast
  obtain pl where pl: "a \<noteq> 0" "plans t a = Some pl" "plan_status pl = 2"
      "list_all2 (part_made (verbs_made (uri t)) (registry t)) (parts_of uc 0 wrts) (zip (uri_plan_h_arr pl) (uri_channel_h_arr pl))"
    using t(5) by (auto simp: plan_made_def)
  let ?r = "plan_requests ?u (registry t) (parts_of uc 0 wrts)"
  note copies = plan_requests_copies(1) [OF pass small, of ?me, folded t(3)] plan_requests_copies(2) [OF pass small, folded t(3)]
  have len: "2 * length ?r \<le> 2 * num_sends p"
    using arg_cong [OF copies(1), of length] plan_wrts_verbs(1) [OF assms(1-3,8-10) w] by simp
  have made: "list_all2 (part_made (\<lambda>h ws pl. pl \<noteq> 0 \<and> (\<exists>wrs. verbs_create_wrs h ws ?u = Inr wrs \<and>
      verbs_plans (uri t) pl = Some \<lparr>vp_wr = wrs\<rparr>)) (registry t)) (parts_of uc 0 wrts) (zip (uri_plan_h_arr pl) (uri_channel_h_arr pl))"
    using pl(4) by (rule list_all2_mono, elim part_made_mono) (simp add: verbs_made_def create_wrs_later [OF t(2)])
  have chans: "\<forall>x \<in> set (parts_of uc 0 wrts). verbs_channel progress (registry t ! fst x)"
    using works by (auto simp: parts_of_nth t(3))
  have room: "\<forall>d. queue_room (2 * num_sends p) (uri t) d \<or> \<not> (0 \<le> d \<and> d < mpi_size (uru_mpi ?u))"
    using assms(13) queue_room_later [OF t(2)] by blast
  have takes: "takes_requests (uri t)" using assms(14) verbs_laterD [OF t(2)] by (simp add: takes_requests_def)
  obtain v where v: "fold_res start_uri_plan (zip (uri_plan_h_arr pl) (uri_channel_h_arr pl)) t = Inr (t\<lparr>uri := v\<rparr>)"
      "verbs_log v = verbs_log (uri t) @ post_log ?r"
    using start_verbs_parts [OF made chans room len copies(2) takes] by blast
  have "unr_plan_start pk a t = Inr (URU_STATUS_OK, t\<lparr>uri := v\<rparr>)"
    using pl(1-3) v(1) t(4) assms(2) by (simp add: unr_plan_start_def)
  moreover have "verbs_log v = verbs_log ?u @ post_log ?r" using v(2) verbs_laterD [OF t(2)] by simp
  moreover have "moves_blocks s uc p sizes (fold (\<lambda>x. run_copy (request_copy ?me x)) order)" if o: "mset order = mset ?r" for order
  proof -
    have "mset (map (request_copy ?me) order) = image_mset (wrt_copy s uc) (mset (all_wrts wrts))"
      using arg_cong [OF copies(1), of mset] by (simp add: o wrt_copy_def [abs_def] t(3))
    from plan_copies [OF assms(1,2) few w assms(8,9,11) this] show ?thesis by (simp add: fold_map comp_def)
  qed
  ultimately show ?thesis using t(1) by (intro exI [of _ a] exI [of _ t] exI [of _ "t\<lparr>uri := v\<rparr>"] exI [of _ ?r]) simp
qed

section \<open>A process with a Verbs channel\<close>

text \<open>Rank 0 of two, with one handle of each rank exchanged, and a block bound to a flag on each side.\<close>

definition verbs_blk_channels :: unr_channels_t where
  "verbs_blk_channels = \<lparr>avail_channels = [0], inter_channels = [0], intra_channels = [0], intra_channel_reuse = [Some 0],
     inter_channel_blk_size = [4096], inter_channel_blk_size_sum = 4096, intra_channel_blk_size = [4096],
     intra_channel_blk_size_sum = 4096, unr_mem_t_size = 40, inter_uri_mem_h_offset = [24], intra_uri_mem_h_offset = [24],
     loc_mem_arr = [1000], rmt_mem_arr = [[1040], [1080]]\<rparr>"

definition verbs_blk_example :: "uri_verbs_state unr_base_state" where
  "verbs_blk_example = \<lparr>uri = verbs_example\<lparr>
       mems := [1000 \<mapsto> blk_head 65536 0, 1040 \<mapsto> blk_head 65536 0, 1080 \<mapsto> blk_head 131072 1],
       verbs_mems := [1024 \<mapsto> \<lparr>vm_lkey = 1, vm_rkey = 2\<rparr>, 1064 \<mapsto> \<lparr>vm_lkey = 1, vm_rkey = 2\<rparr>, 1104 \<mapsto> \<lparr>vm_lkey = 3, vm_rkey = 4\<rparr>]\<rparr>,
     registry = [\<lparr>hdr = verbs_example_hdr,
       func_ptrs = Some (uri_verbs_channel_func_ptrs verbs_example_answers [] (\<lambda>_ _. None) (\<lambda>_. []))\<rparr>],
     unr_channels = Some verbs_blk_channels, unr_initialized = True, daemon_thread_continue = True, recv_buf = [1040, 1080],
     plans = (\<lambda>_. None), u_brk = 1120\<rparr>"

definition verbs_blk_para :: unr_plan_create_para_t where
  "verbs_blk_para = \<lparr>need_current_load = False, once_now = False, num_sends = 1,
     loc_blk_arr = [\<lparr>blk_dst_rank = 0, blk_mem_idx = 0, blk_offset = 64, blk_size = 9000, blk_send_flag_p = 264, blk_recv_flag_p = 0\<rparr>],
     loc_sig_arr = None, loc_offset_arr = None, size_arr = None,
     rmt_blk_arr = [\<lparr>blk_dst_rank = 1, blk_mem_idx = 0, blk_offset = 128, blk_size = 9000, blk_send_flag_p = 0, blk_recv_flag_p = 528\<rparr>],
     rmt_sig_arr = None, rmt_offset_arr = None, dma_type_arr = URU_TRANSFER_TYPE_DMA_PUT_ALL\<rparr>"

lemma verbs_blk_channels_simps [simp]:
  "inter_channels verbs_blk_channels = [0]" "intra_channels verbs_blk_channels = [0]" "loc_mem_arr verbs_blk_channels = [1000]"
  "rmt_mem_arr verbs_blk_channels = [[1040], [1080]]" "unr_mem_t_size verbs_blk_channels = 40"
  "node_offsets verbs_blk_channels same = [24]"
  by (simp_all add: verbs_blk_channels_def node_offsets_def)

lemma verbs_blk_simps [simp]:
  "unr_channels verbs_blk_example = Some verbs_blk_channels" "u_brk verbs_blk_example = 1120"
  "uru_mpi (uri verbs_blk_example) = \<lparr>mpi_rank = 0, mpi_size = 2, same_node = [True, False]\<rparr>"
  "mems (uri verbs_blk_example) = [1000 \<mapsto> blk_head 65536 0, 1040 \<mapsto> blk_head 65536 0, 1080 \<mapsto> blk_head 131072 1]"
  "flag_pool (uri verbs_blk_example) = Some \<lparr>fp_size = 8, fp_used = 4, fp_arr = 240, fp_rmt_base = [240, 480]\<rparr>"
  "verbs_log (uri verbs_blk_example) = []" "recv_buf verbs_blk_example = [1040, 1080]"
  by (simp_all add: verbs_blk_example_def verbs_example_def)

lemma verbs_blk_ok: "handles_ok verbs_blk_example"
proof -
  have "channels_ok verbs_blk_example"
    by (simp add: channels_ok_def verbs_blk_example_def verbs_blk_channels_def sizeof_unr_mem_def uri_mem_h_size_def
        verbs_example_hdr_def uri_verbs_channel_func_ptrs_def uri_verbs_mem_h_size_def sizeof_uri_verbs_mem_def sizeof_uri_mem_def
        offset_of_def intra_reuse_def combine_channels_def blk_ok_def with_func_def)
  moreover have "modules_ok (registry verbs_blk_example)"
    using verbs_module [of "\<lambda>_. []" verbs_example_answers "[]" "\<lambda>_ _. None"]
    by (simp add: modules_ok_def verbs_blk_example_def daemon_steps_def)
  moreover have "spaced 40 1120 [1000 \<mapsto> blk_head 65536 0, 1040 \<mapsto> blk_head 65536 0, 1080 \<mapsto> blk_head 131072 1]"
    by (auto simp: spaced_def split: if_splits)
  ultimately show ?thesis
    unfolding handles_ok_def by (simp add: head_is_def blk_head_def less_2_cases_iff nth_Cons')
qed

lemma verbs_blk_over: "over_verbs (\<lambda>_. []) verbs_blk_example verbs_blk_channels"
  by (simp add: over_verbs_def Let_def less_2_cases_iff plan_channel_def verbs_channel_def keys_ok_def)
    (simp add: verbs_blk_example_def verbs_example_def verbs_example_hdr_def uri_verbs_channel_func_ptrs_def nth_Cons')

lemma verbs_blk_transfer:
  "transfer_ok verbs_blk_example verbs_blk_channels verbs_blk_para [9000] 0" "flags_ok verbs_blk_example verbs_blk_para 0"
  "blocks_apart verbs_blk_example verbs_blk_channels verbs_blk_para [9000]"
  by (simp_all add: transfer_ok_def Let_def verbs_blk_para_def inside_def loc_head_def rmt_head_def blk_head_def sig_owned_def
      offset_at_def type_arr_def flags_ok_def loc_send_flag_def rmt_send_flag_def send_flag_def in_pool_def flag_at_def
      sizeof_flag_def blocks_apart_def no_wrap_def source_apart_def apart_def block_copy_def)

theorem verbs_plan_moves_blocks_witness:
  "\<exists>a t v posted. unr_rdma_plan_create True verbs_blk_para verbs_blk_example = Inr (a, t) \<and>
     unr_plan_start False a t = Inr (URU_STATUS_OK, v) \<and> verbs_log (uri v) = post_log posted \<and>
     (\<forall>M. let M' = fold (\<lambda>x. run_copy (request_copy 0 x)) (rev posted) M in
       (\<forall>k < 9000. M' 1 (131200 + k) = M 0 (65600 + k)) \<and> M' 1 140200 = M 1 140200 \<and> M' 0 = M 0)"
proof -
  have n: "0 < num_sends verbs_blk_para" "arrays_fit verbs_blk_para" "\<not> once_now verbs_blk_para"
      "plan_sizes verbs_blk_para = Inr [9000]" "num_sends verbs_blk_para = 1"
    by (simp_all add: verbs_blk_para_def arrays_fit_def arr_fits_def type_arr_def plan_sizes_def)
  have b: "u_brk verbs_blk_example \<noteq> 0" by simp
  have t: "\<forall>i < num_sends verbs_blk_para. transfer_ok verbs_blk_example verbs_blk_channels verbs_blk_para [9000] i"
      "\<forall>i < num_sends verbs_blk_para. flags_ok verbs_blk_example verbs_blk_para i"
      "\<forall>i < num_sends verbs_blk_para. unat ([9000 :: u64] ! i) < 2 ^ 32"
    using verbs_blk_transfer by (simp_all add: n(5))
  have q: "\<forall>d. 0 \<le> d \<and> d < mpi_size (uru_mpi (uri verbs_blk_example)) \<longrightarrow>
      queue_room (2 * num_sends verbs_blk_para) (uri verbs_blk_example) d"
  proof (intro allI impI)
    fix d assume "0 \<le> d \<and> d < mpi_size (uru_mpi (uri verbs_blk_example))"
    then have "d = 0 \<or> d = 1" by auto
    then show "queue_room (2 * num_sends verbs_blk_para) (uri verbs_blk_example) d"
      by (auto simp: queue_room_def qp_in_range_def n(5) verbs_blk_example_def verbs_example_def)
  qed
  have r: "takes_requests (uri verbs_blk_example)" by (simp add: takes_requests_def verbs_blk_example_def verbs_example_def)
  have c: "block_copy verbs_blk_example verbs_blk_channels verbs_blk_para [9000] 0 =
      \<lparr>c_from = 0, c_src = 65600, c_to = 1, c_dst = 131200, c_len = 9000\<rparr>"
    by (simp add: block_copy_def Let_def verbs_blk_para_def type_arr_def loc_head_def rmt_head_def offset_at_def blk_head_def)
  obtain a t v posted where p: "unr_rdma_plan_create True verbs_blk_para verbs_blk_example = Inr (a, t)"
      "unr_plan_start False a t = Inr (URU_STATUS_OK, v)" "verbs_log (uri v) = post_log posted"
      "\<forall>order. mset order = mset posted \<longrightarrow>
        moves_blocks verbs_blk_example verbs_blk_channels verbs_blk_para [9000] (fold (\<lambda>x. run_copy (request_copy 0 x)) order)"
    using verbs_plan_moves_blocks [OF verbs_blk_ok verbs_blk_simps(1) verbs_blk_over b n(1-4) t(1,2) verbs_blk_transfer(3) t(3) q r,
        of False] by auto
  have "moves_blocks verbs_blk_example verbs_blk_channels verbs_blk_para [9000] (fold (\<lambda>x. run_copy (request_copy 0 x)) (rev posted))"
    using p(4) by simp
  then show ?thesis using p(1-3) unfolding moves_blocks_def n(5)
    by (intro exI [of _ a] exI [of _ t] exI [of _ v] exI [of _ posted]) (auto simp: Let_def c writes_to_def fun_eq_iff)
qed

end
