(* ===== verification/Unr_Handles.thy ===== *)
theory Unr_Handles
  imports Unr_Run Uru_Layout
begin

text \<open>
  Handles as bytes: the block and signal handles of \<open>src/unr/api/unr.h\<close> are opaque arrays of bytes that
  hold the structures of \<open>src/unr/base/unr_def.h\<close>; users copy them and send them to other processes
  with the MPI datatypes that \<open>unr_init\<close> makes. What the library makes fits the types, and what a
  process receives is the handle that was sent.
\<close>

section \<open>The sizes the model counts with\<close>

lemma layout_constants:
  "sizeof_unr_mem = of_nat (csize unr_mem_s)" "sizeof_flag = csize uru_flag_s" "sizeof_sig = csize unr_sig_s"
  "sizeof_uri_verbs_mem = of_nat (csize uri_verbs_mem_s)"
  "ctrl_msg_size None = of_nat (csize uri_mpi_ctrl_msg_s)"
  "MPI_Request \<in> {Ptr, I32} \<Longrightarrow> ctrl_msg_size (Some n) =
     of_nat (csize uri_mpi_ctrl_msg_s + csize uri_mpi_op_batch_s + n * csize (uri_mpi_op_s MPI_Request))"
  by (auto simp: sizeof_unr_mem_def sizeof_flag_def sizeof_sig_def sizeof_uri_verbs_mem_def ctrl_msg_size_def)

section \<open>Opaque handles\<close>

text \<open>The public type of a handle: a structure with an array of bytes.\<close>

definition opaque :: "nat \<Rightarrow> ctype" where
  "opaque n = TStruct False [TArr n U8]"

lemma opaque_handles: "unr_blk_h = opaque 40" "unr_sig_h = opaque 12"
  by (simp_all add: layout_defs opaque_def)

lemma le_bytes_one: "le_bytes 1 (uint b) = [b]"
  by simp

lemma opaque_bytes:
  assumes "length bs = n"
  shows "has_type (opaque n) (decode (opaque n) bs) \<and> encode (opaque n) (decode (opaque n) bs) = bs"
proof -
  let ?v = "map (\<lambda>i. decode U8 (drop i bs)) [0..<n]"
  have e: "decode U8 (drop i bs) = VInt (uint (bs ! i))" if "i < n" for i
    using that assms by (simp add: Cons_nth_drop_Suc [symmetric] le_int_def)
  have v: "?v = map (\<lambda>b. VInt (uint b)) bs" using e assms by (intro nth_equalityI) simp_all
  have d: "decode (opaque n) bs = VList [VList ?v]" by (simp add: opaque_def padded_def round_up_def)
  have "uint b < 256" "0 \<le> uint b" for b :: u8 using uint_bounded [of b] by simp_all
  then have "has_type (opaque n) (decode (opaque n) bs)" unfolding d v using assms by (auto simp: opaque_def)
  moreover have "concat (map (\<lambda>b. encode U8 (VInt (uint b))) bs) = bs" by (induction bs) simp_all
  then have "encode (opaque n) (decode (opaque n) bs) = bs"
    unfolding d v using assms by (simp add: opaque_def padded_def round_up_def comp_def)
  ultimately show ?thesis ..
qed

section \<open>Blocks and signals\<close>

definition blk_val :: "unr_blk_t \<Rightarrow> cval" where
  "blk_val b = VList [VInt (blk_dst_rank b), VInt (blk_mem_idx b), VInt (uint (blk_offset b)), VInt (uint (blk_size b)),
     VInt (int (blk_send_flag_p b)), VInt (int (blk_recv_flag_p b))]"

fun blk_of :: "cval \<Rightarrow> unr_blk_t option" where
  "blk_of (VList [VInt r, VInt i, VInt off, VInt sz, VInt sf, VInt rf]) = Some
     \<lparr>blk_dst_rank = r, blk_mem_idx = i, blk_offset = of_int off, blk_size = of_int sz, blk_send_flag_p = nat sf, blk_recv_flag_p = nat rf\<rparr>"
| "blk_of _ = None"

definition sig_val :: "unr_sig_t \<Rightarrow> cval" where
  "sig_val x = VList [VInt (sig_dst_rank x), VInt (int (sig_flag_p x))]"

fun sig_of :: "cval \<Rightarrow> unr_sig_t option" where
  "sig_of (VList [VInt r, VInt f]) = Some \<lparr>sig_dst_rank = r, sig_flag_p = nat f\<rparr>"
| "sig_of _ = None"

lemma blk_of_val [simp]: "blk_of (blk_val b) = Some b"
  by (simp add: blk_val_def)

lemma sig_of_val [simp]: "sig_of (sig_val x) = Some x"
  by (simp add: sig_val_def)

text \<open>What a user holds and sends: the bytes of the structure, in the public type.\<close>

definition blk_handle :: "unr_blk_t \<Rightarrow> cval" where
  "blk_handle b = decode unr_blk_h (encode unr_blk_s (blk_val b))"

definition sig_handle :: "unr_sig_t \<Rightarrow> cval" where
  "sig_handle x = decode unr_sig_h (encode unr_sig_s (sig_val x))"

text \<open>What the library reads from a handle.\<close>

definition blk_of_handle :: "cval \<Rightarrow> unr_blk_t option" where
  "blk_of_handle h = blk_of (decode unr_blk_s (encode unr_blk_h h))"

definition sig_of_handle :: "cval \<Rightarrow> unr_sig_t option" where
  "sig_of_handle h = sig_of (decode unr_sig_s (encode unr_sig_h h))"

lemma opaque_copy:
  assumes "wf_ctype t" "has_type t v" "csize t = n"
  shows "has_type (opaque n) (decode (opaque n) (encode t v)) \<and> length (encode t v) = n \<and>
    decode t (encode (opaque n) (decode (opaque n) (encode t v))) = v"
proof -
  have "length (encode t v) = n" using length_encode [OF assms(1,2)] assms(3) by simp
  with opaque_bytes [OF this] show ?thesis using decode_encode [OF assms(1,2), of "[]"] by simp
qed

lemma handles_wf: "wf_ctype unr_blk_s" "wf_ctype unr_sig_s"
  by (simp_all add: layout_defs)

lemma blk_handle_typed:
  assumes "has_type unr_blk_s (blk_val b)"
  shows "has_type unr_blk_h (blk_handle b)" "blk_of_handle (blk_handle b) = Some b"
  using opaque_copy [OF handles_wf(1) assms, of 40] by (simp_all add: blk_handle_def blk_of_handle_def opaque_handles)

lemma sig_handle_typed:
  assumes "has_type unr_sig_s (sig_val x)"
  shows "has_type unr_sig_h (sig_handle x)" "sig_of_handle (sig_handle x) = Some x"
  using opaque_copy [OF handles_wf(2) assms, of 12] by (simp_all add: sig_handle_def sig_of_handle_def opaque_handles)

text \<open>A block that \<open>unr_blk_reg\<close> made has the types of its fields.\<close>

lemma blk_reg_typed:
  assumes "handles_ok s" "rank_ok s" "mpi_size (uru_mpi (uri s)) < 2 ^ 31" "unr_channels s = Some uc"
    and "length (loc_mem_arr uc) \<le> 2 ^ 31" "h \<in> set (loc_mem_arr uc)"
    and "has_type unr_sig_s (sig_val send)" "has_type unr_sig_s (sig_val recv)"
    and "unr_blk_reg h off sz send recv s = Inr (st, b)"
  shows "has_type unr_blk_s (blk_val b)"
proof -
  note ok = handles_okD [OF assms(1,4)]
  obtain i where i: "i < length (loc_mem_arr uc)" "h = loc_mem_arr uc ! i" using assms(6) by (auto simp: in_set_conv_nth)
  obtain m where m: "mems (uri s) h = Some m" "m_idx m = int i" using ok(4) [OF i(1)] by (auto simp: i(2) head_is_def)
  have p: "sig_flag_p send < 2 ^ 64" "sig_flag_p recv < 2 ^ 64"
    using assms(7,8) by (simp_all add: unr_sig_s_def sig_val_def)
  obtain sf rf where f: "local_flag (uru_mpi (uri s)) send = Inr sf" "local_flag (uru_mpi (uri s)) recv = Inr rf"
    and b: "b = \<lparr>blk_dst_rank = mpi_rank (uru_mpi (uri s)), blk_mem_idx = m_idx m, blk_offset = off, blk_size = sz,
      blk_send_flag_p = sf, blk_recv_flag_p = rf\<rparr>"
    using assms(9) by (auto simp: unr_blk_reg_def m(1))
  have "sf < 2 ^ 64" "rf < 2 ^ 64" using f p by (auto simp: local_flag_def uru_assert_def split: if_splits)
  moreover have "uint x < 2 ^ 64" for x :: u64 using uint_bounded [of x] by simp
  ultimately show ?thesis
    using assms(2,3,5) i(1) m(2) unfolding rank_ok_def by (simp add: unr_blk_s_def blk_val_def b)
qed

text \<open>
  C15. A block handle is well typed and survives being copied: what \<open>unr_blk_reg\<close> stores fits the packed
  structure, whose size is that of the public handle type, so the assertion of \<open>unr_init\<close> holds, the
  bytes are a value of the public type, and any process that receives them through the MPI datatype
  of block handles reads the same rank, memory, offset, size and flags.
\<close>

theorem block_handle_well_typed:
  assumes "handles_ok s" "rank_ok s" "mpi_size (uru_mpi (uri s)) < 2 ^ 31" "unr_channels s = Some uc"
    and "length (loc_mem_arr uc) \<le> 2 ^ 31" "h \<in> set (loc_mem_arr uc)"
    and "has_type unr_sig_s (sig_val send)" "has_type unr_sig_s (sig_val recv)"
    and "unr_blk_reg h off sz send recv s = Inr (st, b)"
  shows "has_type unr_blk_s (blk_val b) \<and> has_type unr_blk_h (blk_handle b) \<and> blk_of_handle (blk_handle b) = Some b \<and>
    unr_datatypes (unr_mem_t_size uc) = Inr (i32 (uint (unr_mem_t_size uc)), int (length (encode unr_blk_s (blk_val b))),
      int (length (encode unr_sig_s (sig_val send))))"
  using blk_handle_typed blk_reg_typed [OF assms] length_encode [OF handles_wf(1) blk_reg_typed [OF assms]]
    length_encode [OF handles_wf(2) assms(7)] by simp

definition no_sig :: unr_sig_t where
  "no_sig = \<lparr>sig_dst_rank = UNR_NO_SIGNAL_DST_RANK, sig_flag_p = 0\<rparr>"

theorem block_handle_well_typed_witness:
  "\<exists>b. unr_blk_reg 1000 64 9000 no_sig no_sig blk_example = Inr (URU_STATUS_OK, b) \<and>
     blk_of_handle (blk_handle b) = Some b \<and> length (encode unr_blk_s (blk_val b)) = 40"
proof -
  have m: "mems (uri blk_example) 1000 = Some (blk_head 4096 1)" by (simp add: blk_example_def)
  have n: "local_flag example_mpi no_sig = Inr 0" by (simp add: local_flag_def is_signal_def no_sig_def)
  obtain b where b: "unr_blk_reg 1000 64 9000 no_sig no_sig blk_example = Inr (URU_STATUS_OK, b)"
    using m n by (simp add: unr_blk_reg_def blk_example_channels blk_example_mpi)
  have t: "has_type unr_sig_s (sig_val no_sig)" by (simp add: unr_sig_s_def sig_val_def no_sig_def UNR_NO_SIGNAL_DST_RANK_def)
  have h: "rank_ok blk_example" "mpi_size (uru_mpi (uri blk_example)) < 2 ^ 31" "length (loc_mem_arr blk_channels) \<le> 2 ^ 31"
    "1000 \<in> set (loc_mem_arr blk_channels)"
    by (simp_all add: rank_ok_def blk_example_mpi example_mpi_def)
  from block_handle_well_typed [OF blk_example_ok h(1,2) blk_example_channels h(3,4) t t b] b show ?thesis by simp
qed

end
