(* ===== verification/Uru_Time.thy ===== *)
theory Uru_Time
  imports Complex_Main Uru_Status
begin

text \<open>
  The clock, \<open>src/uru/sys/time.c\<close>: the constructor that measures how fast the cycle counter runs, and the
  time between two readings of it. The clock of the system, the counter and the rounding of floating
  point results are outside; of the rounding the theorems assume what IEEE 754 says of doubles.
\<close>

section \<open>Readings\<close>

record timespec =
  tv_sec :: int
  tv_nsec :: int

text \<open>
  The time from \<open>s\<close> to \<open>e\<close> in nanoseconds, as a \<open>double\<close>: the seconds are multiplied in \<open>long\<close>, both
  summands are converted and then added.
\<close>

definition time_diff :: "(real \<Rightarrow> real) \<Rightarrow> timespec \<Rightarrow> timespec \<Rightarrow> real res" where
  "time_diff rnd s e =
     (let secs = (tv_sec e - tv_sec s) * 1000000000 in
      if secs < - (2 ^ 63) \<or> 2 ^ 63 \<le> secs then Inl IntOverflow
      else Inr (rnd (rnd (of_int secs) + rnd (of_int (tv_nsec e - tv_nsec s)))))"

section \<open>Calibration\<close>

text \<open>
  \<open>clock i\<close> is what the \<open>i\<close>-th call of \<open>clock_gettime\<close> stores, \<open>None\<close> that it fails; \<open>cyc i\<close> is the
  reading of the counter that follows it. The loop may not end.
\<close>

partial_function (option) calibrate ::
  "(real \<Rightarrow> real) \<Rightarrow> (nat \<Rightarrow> timespec option) \<Rightarrow> (nat \<Rightarrow> u64) \<Rightarrow> timespec \<Rightarrow> nat \<Rightarrow> (u64 \<times> real) res option" where
  "calibrate rnd clock cyc start_time i =
     (case clock i of
        None \<Rightarrow> Some (Inl (Exit URU_ASSERT_EXIT))
      | Some end_time \<Rightarrow> (case time_diff rnd start_time end_time of
            Inl e \<Rightarrow> Some (Inl e)
          | Inr d \<Rightarrow> if d < 100000000 then calibrate rnd clock cyc start_time (i + 1) else Some (Inr (cyc i, d))))"

text \<open>The constructor: its result is \<open>cpu_frequency\<close>, in counts per second.\<close>

definition cpu_frequency_init ::
  "(real \<Rightarrow> real) \<Rightarrow> (nat \<Rightarrow> timespec option) \<Rightarrow> (nat \<Rightarrow> u64) \<Rightarrow> real res option" where
  "cpu_frequency_init rnd clock cyc =
     (case clock 0 of
        None \<Rightarrow> Some (Inl (Exit URU_ASSERT_EXIT))
      | Some start_time \<Rightarrow> map_option (\<lambda>r. res_bind r (\<lambda>(end_cyc, d).
          Inr (rnd (rnd (rnd (of_nat (unat (end_cyc - cyc 0))) / d) * 1000000000)))) (calibrate rnd clock cyc start_time 1))"

definition uru_time_diff :: "(real \<Rightarrow> real) \<Rightarrow> real \<Rightarrow> u64 \<Rightarrow> u64 \<Rightarrow> real" where
  "uru_time_diff rnd cpu_frequency start end_cyc = rnd (rnd (of_nat (unat (end_cyc - start))) / cpu_frequency)"

section \<open>What is assumed of the clock and of doubles\<close>

text \<open>Rounding keeps the order, and integers of up to 53 bits are doubles.\<close>

definition ieee_rounding :: "(real \<Rightarrow> real) \<Rightarrow> bool" where
  "ieee_rounding rnd \<longleftrightarrow> mono rnd \<and> (\<forall>n :: int. \<bar>n\<bar> \<le> 2 ^ 53 \<longrightarrow> rnd (of_int n) = of_int n)"

definition nanos :: "timespec \<Rightarrow> int" where
  "nanos t = tv_sec t * 1000000000 + tv_nsec t"

text \<open>\<open>CLOCK_MONOTONIC\<close>: it can be read, is normalised, does not go back, and gets past a tenth of a second.\<close>

definition monotonic_clock :: "(nat \<Rightarrow> timespec option) \<Rightarrow> bool" where
  "monotonic_clock clock \<longleftrightarrow>
     (\<forall>i. \<exists>t. clock i = Some t \<and> 0 \<le> tv_sec t \<and> tv_sec t < 2 ^ 33 \<and> 0 \<le> tv_nsec t \<and> tv_nsec t < 1000000000) \<and>
     (\<forall>i j s t. i \<le> j \<longrightarrow> clock i = Some s \<longrightarrow> clock j = Some t \<longrightarrow> nanos s \<le> nanos t) \<and>
     (\<exists>i s t. 0 < i \<and> clock 0 = Some s \<and> clock i = Some t \<and> nanos s + 100000000 \<le> nanos t)"

lemma ieee_int: "ieee_rounding rnd \<Longrightarrow> \<bar>n\<bar> \<le> 2 ^ 53 \<Longrightarrow> rnd (of_int n) = of_int n"
  by (simp add: ieee_rounding_def)

lemma ieee_mono: "ieee_rounding rnd \<Longrightarrow> x \<le> y \<Longrightarrow> rnd x \<le> rnd y"
  by (simp add: ieee_rounding_def monoD)

lemma ieee_ge:
  assumes "ieee_rounding rnd" "\<bar>n\<bar> \<le> 2 ^ 53" "of_int n \<le> x"
  shows "of_int n \<le> rnd x"
  using ieee_mono [OF assms(1,3)] ieee_int [OF assms(1,2)] by simp

text \<open>Rounding does not move the test against a tenth of a second.\<close>

lemma time_diff_test:
  assumes "ieee_rounding rnd" "nanos s \<le> nanos e"
    and "0 \<le> tv_sec s" "tv_sec s < 2 ^ 33" "0 \<le> tv_nsec s" "tv_nsec s < 1000000000"
    and "0 \<le> tv_sec e" "tv_sec e < 2 ^ 33" "0 \<le> tv_nsec e" "tv_nsec e < 1000000000"
  shows "\<exists>d. time_diff rnd s e = Inr d \<and> (d < 100000000 \<longleftrightarrow> nanos e - nanos s < 100000000) \<and>
    (tv_sec e - tv_sec s \<le> 9000000 \<longrightarrow> d = of_int (nanos e - nanos s))"
proof -
  let ?secs = "(tv_sec e - tv_sec s) * 1000000000" and ?ns = "tv_nsec e - tv_nsec s"
  let ?d = "rnd (rnd (of_int ?secs) + rnd (of_int ?ns))"
  have td: "time_diff rnd s e = Inr ?d" using assms(3,4,7,8) by (simp add: time_diff_def Let_def)
  have sum: "nanos e - nanos s = ?secs + ?ns" by (simp add: nanos_def)
  have lo: "tv_sec s \<le> tv_sec e" using assms(2,5,10) by (simp add: nanos_def)
  have ns: "rnd (of_int ?ns) = of_int ?ns" using assms(5,6,9,10) by (intro ieee_int [OF assms(1)]) simp
  have exact: "?d = of_int (nanos e - nanos s)" if "tv_sec e - tv_sec s \<le> 9000000"
  proof -
    have "rnd (of_int ?secs) = of_int ?secs" using that lo by (intro ieee_int [OF assms(1)]) simp
    moreover have "rnd (of_int (?secs + ?ns)) = of_int (?secs + ?ns)"
      using that lo assms(2,5,10) sum by (intro ieee_int [OF assms(1)]) auto
    ultimately show ?thesis unfolding sum ns by simp
  qed
  have "?d < 100000000 \<longleftrightarrow> nanos e - nanos s < 100000000"
  proof (cases "tv_sec e - tv_sec s \<le> 9000000")
    case True
    then show ?thesis using exact by (simp only: of_int_less_numeral_iff)
  next
    case False
    then have a: "of_int 2000000000 \<le> (of_int ?secs :: real)" by (subst of_int_le_iff) simp
    have "of_int 2000000000 \<le> rnd (of_int ?secs)" by (rule ieee_ge [OF assms(1) _ a]) simp
    moreover have "of_int (- 1000000000) \<le> (of_int ?ns :: real)" using assms(6,9) by (subst of_int_le_iff) simp
    ultimately have b: "of_int 1000000000 \<le> rnd (of_int ?secs) + rnd (of_int ?ns)" unfolding ns by simp
    have "of_int 1000000000 \<le> ?d" by (rule ieee_ge [OF assms(1) _ b]) simp
    moreover have "100000000 \<le> nanos e - nanos s" using False assms(6,9) unfolding sum by simp
    ultimately show ?thesis by simp
  qed
  then show ?thesis using td exact by blast
qed

section \<open>The calibration ends\<close>

lemma calibrate_ends:
  assumes "ieee_rounding rnd" "monotonic_clock clock" "clock 0 = Some s" "clock n = Some t" "100000000 \<le> nanos t - nanos s"
    and "\<forall>j < n. \<forall>u. 0 < j \<longrightarrow> clock j = Some u \<longrightarrow> nanos u - nanos s < 100000000" "0 < i" "i \<le> n"
  shows "\<exists>d. time_diff rnd s t = Inr d \<and> calibrate rnd clock cyc s i = Some (Inr (cyc n, d))"
  using assms(7,8)
proof (induction "n - i" arbitrary: i)
  case 0
  then have "i = n" by simp
  have r: "0 \<le> tv_sec s" "tv_sec s < 2 ^ 33" "0 \<le> tv_nsec s" "tv_nsec s < 1000000000"
    "0 \<le> tv_sec t" "tv_sec t < 2 ^ 33" "0 \<le> tv_nsec t" "tv_nsec t < 1000000000"
    using assms(2-4) unfolding monotonic_clock_def by (metis option.inject)+
  have "nanos s \<le> nanos t" using assms(5) by simp
  from time_diff_test [OF assms(1) this r] obtain d where "time_diff rnd s t = Inr d" "\<not> d < 100000000"
    using assms(5) by auto
  then show ?case using assms(4) unfolding \<open>i = n\<close> by (subst calibrate.simps) simp
next
  case (Suc k)
  obtain u where u: "clock i = Some u" "0 \<le> tv_sec u" "tv_sec u < 2 ^ 33" "0 \<le> tv_nsec u" "tv_nsec u < 1000000000"
    using assms(2) unfolding monotonic_clock_def by blast
  have s: "0 \<le> tv_sec s" "tv_sec s < 2 ^ 33" "0 \<le> tv_nsec s" "tv_nsec s < 1000000000"
    using assms(2,3) unfolding monotonic_clock_def by (metis option.inject)+
  have "nanos s \<le> nanos u" using assms(2,3) u(1) Suc.prems(1) unfolding monotonic_clock_def by (meson le0)
  from time_diff_test [OF assms(1) this s u(2-5)] obtain d where d: "time_diff rnd s u = Inr d"
      "d < 100000000 \<longleftrightarrow> nanos u - nanos s < 100000000" by blast
  have "i < n" using Suc.hyps(2) by simp
  then have "d < 100000000" using d(2) assms(6) Suc.prems(1) u(1) by blast
  then have "calibrate rnd clock cyc s i = calibrate rnd clock cyc s (i + 1)"
    using u(1) d(1) by (subst calibrate.simps) simp
  moreover have "\<exists>d. time_diff rnd s t = Inr d \<and> calibrate rnd clock cyc s (i + 1) = Some (Inr (cyc n, d))"
    using Suc.hyps(1) [of "i + 1"] Suc.hyps(2) \<open>i < n\<close> by simp
  ultimately show ?case by simp
qed

text \<open>
  C28. Measuring the rate of the cycle counter ends: on a clock that does not stand still the loop
  returns at the first reading that is a tenth of a second or more after the start, not before and not
  later, and the rate is the difference of the counter over the time measured. Neither the conversion
  of the two parts of the time nor the rounding of their sum moves that point.
\<close>

theorem clock_calibration_ends:
  assumes "ieee_rounding rnd" "monotonic_clock clock"
  shows "\<exists>n s t d. 0 < n \<and> clock 0 = Some s \<and> clock n = Some t \<and> 100000000 \<le> nanos t - nanos s \<and>
    (\<forall>j < n. \<forall>u. 0 < j \<longrightarrow> clock j = Some u \<longrightarrow> nanos u - nanos s < 100000000) \<and>
    time_diff rnd s t = Inr d \<and>
    cpu_frequency_init rnd clock cyc =
      Some (Inr (rnd (rnd (rnd (of_nat (unat (cyc n - cyc 0))) / d) * 1000000000)))"
proof -
  obtain s where s: "clock 0 = Some s" using assms(2) unfolding monotonic_clock_def by blast
  let ?late = "\<lambda>i. 0 < i \<and> (\<exists>t. clock i = Some t \<and> 100000000 \<le> nanos t - nanos s)"
  obtain i u t where "0 < i" "clock 0 = Some u" "clock i = Some t" "nanos u + 100000000 \<le> nanos t"
    using assms(2) unfolding monotonic_clock_def by blast
  then have ex: "\<exists>i. ?late i" using s by (intro exI [of _ i]) simp
  define n where "n = (LEAST i. ?late i)"
  have "?late n" unfolding n_def using ex by (rule LeastI_ex)
  then obtain t where t: "0 < n" "clock n = Some t" "100000000 \<le> nanos t - nanos s" by blast
  have early: "\<forall>j < n. \<forall>u. 0 < j \<longrightarrow> clock j = Some u \<longrightarrow> nanos u - nanos s < 100000000"
  proof (intro allI impI)
    fix j u
    assume "j < n" "0 < j" "clock j = Some u"
    moreover from this(1) have "\<not> ?late j" unfolding n_def by (rule not_less_Least)
    ultimately show "nanos u - nanos s < 100000000" by (metis not_le)
  qed
  obtain d where d: "time_diff rnd s t = Inr d" "calibrate rnd clock cyc s 1 = Some (Inr (cyc n, d))"
    using calibrate_ends [OF assms s t(2,3) early zero_less_one] t(1) by auto
  show ?thesis using s t early d by (intro exI [of _ n] exI [of _ s] exI [of _ t] exI [of _ d]) (simp add: cpu_frequency_init_def)
qed

text \<open>A clock that moves by 30 milliseconds from one reading to the next, and exact arithmetic.\<close>

definition ticking :: "nat \<Rightarrow> timespec option" where
  "ticking i = Some \<lparr>tv_sec = 7, tv_nsec = int (min i 10) * 30000000\<rparr>"

lemma ticking_monotonic: "monotonic_clock ticking"
proof -
  have "\<exists>i s t. 0 < i \<and> ticking 0 = Some s \<and> ticking i = Some t \<and> nanos s + 100000000 \<le> nanos t"
    by (intro exI [of _ 4] exI [of _ "\<lparr>tv_sec = 7, tv_nsec = 0\<rparr>"] exI [of _ "\<lparr>tv_sec = 7, tv_nsec = 120000000\<rparr>"])
      (simp add: ticking_def nanos_def)
  moreover have "nanos s \<le> nanos t" if "i \<le> j" "ticking i = Some s" "ticking j = Some t" for i j s t
    using that by (auto simp: ticking_def nanos_def)
  ultimately show ?thesis unfolding monotonic_clock_def by (auto simp: ticking_def)
qed

lemma exact_ieee: "ieee_rounding (\<lambda>x. x)"
  by (simp add: ieee_rounding_def monoI)

theorem clock_calibration_ends_witness:
  "cpu_frequency_init (\<lambda>x. x) ticking (\<lambda>i. of_nat i * 60000000 - 5) = Some (Inr 2000000000)"
proof -
  obtain n s t d where n: "0 < n" "ticking 0 = Some s" "ticking n = Some t" "100000000 \<le> nanos t - nanos s"
    "\<forall>j < n. \<forall>u. 0 < j \<longrightarrow> ticking j = Some u \<longrightarrow> nanos u - nanos s < 100000000" "time_diff (\<lambda>x. x) s t = Inr d"
    "cpu_frequency_init (\<lambda>x. x) ticking (\<lambda>i. of_nat i * 60000000 - 5) =
      Some (Inr (of_nat (unat ((of_nat n * 60000000 - 5 :: u64) - (of_nat 0 * 60000000 - 5))) / d * 1000000000))"
    using clock_calibration_ends [OF exact_ieee ticking_monotonic, of "\<lambda>i. of_nat i * 60000000 - 5"] by blast
  have "\<not> 4 < n" using n(2,5) by (auto simp: ticking_def nanos_def dest: spec [of _ 4])
  moreover have "4 \<le> n" using n(2-4) by (auto simp: ticking_def nanos_def)
  ultimately have "n = 4" by simp
  then have "d = 120000000" using n(2,3,6) by (auto simp: ticking_def time_diff_def)
  then show ?thesis using n(7) \<open>n = 4\<close> by simp
qed

text \<open>
  The measured time between two readings of the counter: the counter may wrap around between them, and
  more counts never give less time.
\<close>

lemma uru_time_diff_counts:
  assumes "k < 2 ^ 64"
  shows "uru_time_diff rnd freq start (start + of_nat k) = rnd (rnd (of_nat k) / freq)"
  using assms by (simp add: uru_time_diff_def unsigned_of_nat take_bit_nat_eq_self)

lemma uru_time_diff_mono:
  assumes "ieee_rounding rnd" "0 < freq" "k \<le> m" "m < 2 ^ 64"
  shows "0 \<le> uru_time_diff rnd freq start (start + of_nat k) \<and>
    uru_time_diff rnd freq start (start + of_nat k) \<le> uru_time_diff rnd freq start (start + of_nat m)"
proof
  have z: "0 \<le> rnd (of_nat k)" using ieee_ge [OF assms(1), of 0 "of_nat k"] by simp
  have "0 \<le> rnd (rnd (of_nat k) / freq)" using ieee_ge [OF assms(1), of 0 "rnd (of_nat k) / freq"] z assms(2) by simp
  then show "0 \<le> uru_time_diff rnd freq start (start + of_nat k)" using assms(3,4) by (simp add: uru_time_diff_counts)
  have "rnd (of_nat k) \<le> rnd (of_nat m)" using assms(3) by (intro ieee_mono [OF assms(1)]) simp
  then have d: "rnd (of_nat k) / freq \<le> rnd (of_nat m) / freq" using assms(2) by (simp add: divide_right_mono)
  from ieee_mono [OF assms(1) d]
  show "uru_time_diff rnd freq start (start + of_nat k) \<le> uru_time_diff rnd freq start (start + of_nat m)"
    using assms(3,4) by (simp add: uru_time_diff_counts)
qed

end
