(* ===== verification/Unr_Wait.thy ===== *)
theory Unr_Wait
  imports Uru_Time Uri_Verbs_Flow
begin

text \<open>
  The loops that look at the clock: the wait for room in a send queue, \<open>uri_verbs_rdma_plan_start\<close> in
  \<open>src/uri/verbs/uri_verbs_rdma.c\<close>, which gives up after ten seconds, and \<open>unr_sig_wait\<close> in
  \<open>src/unr/base/unr_sig.c\<close>, which only reports every ten seconds. The readings of the cycle counter are
  arguments, one for each turn. \<open>Uri_Verbs\<close> and \<open>Unr_Sig\<close> have the same loops without the clock; here
  the two are related.
\<close>

section \<open>Waiting for room in a send queue\<close>

text \<open>
  A turn of the loop: what the daemon thread does after the tests of the turn, and the reading of the
  counter that follows. \<open>None\<close>: the loop is still running after the last turn.
\<close>

type_synonym 's turn = "('s \<Rightarrow> 's) \<times> u64"

fun wait_room_clock ::
  "(real \<Rightarrow> real) \<Rightarrow> real \<Rightarrow> u64 \<Rightarrow> u64 \<Rightarrow> (('z) uri_verbs_state_scheme) turn list \<Rightarrow> int \<Rightarrow> 'z uri_verbs_state_scheme \<Rightarrow>
   'z uri_verbs_state_scheme res option" where
  "wait_room_clock rnd freq start now turns dst_rank s =
     (if \<not> qp_full dst_rank s then Some (Inr s)
      else if \<not> submit_ge_finish dst_rank s then Some (Inl (Exit URU_ASSERT_EXIT))
      else if uru_time_diff rnd freq start now > 10 then Some (Inl (Exit URU_ERROR_EXIT))
      else case turns of
        [] \<Rightarrow> None
      | (d, now') # turns \<Rightarrow> wait_room_clock rnd freq start now' turns dst_rank (d s))"

declare wait_room_clock.simps [simp del]

text \<open>What the daemon thread does in the turns before the ten seconds are over.\<close>

fun in_time :: "(real \<Rightarrow> real) \<Rightarrow> real \<Rightarrow> u64 \<Rightarrow> u64 \<Rightarrow> 's turn list \<Rightarrow> ('s \<Rightarrow> 's) list" where
  "in_time rnd freq start now [] = []"
| "in_time rnd freq start now ((d, now') # turns) =
     (if uru_time_diff rnd freq start now > 10 then [] else d # in_time rnd freq start now' turns)"

lemma wait_room_clock_untimed:
  "wait_room_clock rnd freq start now turns dst_rank s = Some r \<Longrightarrow>
     wait_room (in_time rnd freq start now turns) dst_rank s = r"
proof (induction turns arbitrary: now s)
  case Nil
  then show ?case by (auto simp: wait_room_clock.simps [of rnd] split: if_splits)
next
  case (Cons t turns)
  obtain d now' where t: "t = (d, now')" by (cases t)
  show ?case using Cons by (auto simp: t wait_room_clock.simps [of rnd freq start now] split: if_splits)
qed

lemma wait_room_clock_ends:
  assumes "t \<in> insert now (snd ` set turns)" "uru_time_diff rnd freq start t > 10"
  shows "wait_room_clock rnd freq start now turns dst_rank s \<noteq> None"
  using assms(1)
proof (induction turns arbitrary: now s)
  case Nil
  then show ?case using assms(2) by (simp add: wait_room_clock.simps [of rnd])
next
  case (Cons t' turns)
  obtain d now' where t': "t' = (d, now')" by (cases t')
  show ?case
  proof (cases "t = now")
    case True
    then show ?thesis using assms(2) by (simp add: wait_room_clock.simps [of rnd])
  next
    case False
    then have "t \<in> insert now' (snd ` set turns)" using Cons.prems by (auto simp: t')
    then show ?thesis using Cons.IH [of now' "d s"] by (auto simp: t' wait_room_clock.simps [of rnd freq start now])
  qed
qed

lemma wait_room_clock_gives_up:
  assumes "wait_room_clock rnd freq start now turns dst_rank s = Some (Inl (Exit URU_ERROR_EXIT))"
  shows "\<exists>t \<in> insert now (snd ` set turns). uru_time_diff rnd freq start t > 10"
  using assms
proof (induction turns arbitrary: now s)
  case Nil
  then show ?case by (auto simp: wait_room_clock.simps [of rnd] split: if_splits)
next
  case (Cons t turns)
  obtain d now' where t: "t = (d, now')" by (cases t)
  then show ?case using Cons.IH [of now' "d s"] Cons.prems
    by (auto simp: wait_room_clock.simps [of rnd freq start now] split: if_splits)
qed

text \<open>When the counter has passed ten seconds and a little more, the comparison of doubles sees it.\<close>

lemma late_reading:
  assumes "ieee_rounding rnd" "0 < freq" "k < 2 ^ 53" "11 * freq \<le> real k"
  shows "uru_time_diff rnd freq start (start + of_nat k) > 10"
proof -
  have k: "rnd (of_nat k) = real k" using ieee_int [OF assms(1), of "int k"] assms(3) by simp
  have "of_int 11 \<le> real k / freq" using assms(2,4) by (simp add: pos_le_divide_eq)
  then have "of_int 11 \<le> rnd (real k / freq)" by (intro ieee_ge [OF assms(1)]) simp_all
  moreover have "k < 2 ^ 64" using assms(3) by simp
  ultimately show ?thesis using k by (simp add: uru_time_diff_counts)
qed

text \<open>
  C27. Starting a Verbs plan never hangs on a full send queue: the wait ends at the latest with the first
  reading of the counter that is eleven seconds after the start; it gives the queue that the work of
  the daemon thread within the time leaves, as the loop without a clock does; and it gives up only if
  a reading was more than ten seconds late.
\<close>

theorem send_wait_is_bounded:
  assumes "ieee_rounding rnd" "0 < freq" "k < 2 ^ 53" "11 * freq \<le> real k" "(d, start + of_nat k) \<in> set turns"
  shows "\<exists>r. wait_room_clock rnd freq start start turns dst_rank s = Some r \<and>
    r = wait_room (in_time rnd freq start start turns) dst_rank s \<and>
    (r = Inl (Exit URU_ERROR_EXIT) \<longrightarrow> (\<exists>t \<in> insert start (snd ` set turns). uru_time_diff rnd freq start t > 10))"
proof -
  have "start + of_nat k \<in> insert start (snd ` set turns)" using assms(5) by force
  then obtain r where r: "wait_room_clock rnd freq start start turns dst_rank s = Some r"
    using wait_room_clock_ends late_reading [OF assms(1-4)] by blast
  show ?thesis
    using wait_room_clock_untimed [OF r] wait_room_clock_gives_up [of rnd freq start start turns dst_rank s] r by auto
qed

text \<open>A queue with 256 requests, of which the daemon thread finishes one after a second.\<close>

definition full_queue :: uri_verbs_state where
  "full_queue = verbs_example\<lparr>req_submit := [256, 256]\<rparr>"

definition one_finished :: "uri_verbs_state \<Rightarrow> uri_verbs_state" where
  "one_finished s = s\<lparr>req_finish := map (\<lambda>x. x + 1) (req_finish s)\<rparr>"

theorem send_wait_is_bounded_witness:
  "wait_room_clock (\<lambda>x. x) 2000000000 5 5 [(\<lambda>s. s, 2000000000), (one_finished, 2000000005), (\<lambda>s. s, 23000000005)] 1 full_queue =
     Some (Inr (one_finished full_queue))"
proof -
  let ?turns = "[(\<lambda>s. s, 2000000000), (one_finished, 2000000005), (\<lambda>s. s, 23000000005)] :: uri_verbs_state turn list"
  have full: "qp_full 1 full_queue" "submit_ge_finish 1 full_queue" "\<not> qp_full 1 (one_finished full_queue)"
    by (simp_all add: full_queue_def one_finished_def verbs_example_def qp_full_def qp_outstanding_def submit_ge_finish_def
        VERBS_OUTSTANDING_SEND_REQUESTS_def)
  have i: "in_time (\<lambda>x. x) 2000000000 5 5 ?turns = [\<lambda>s. s, one_finished, \<lambda>s. s]" by (simp add: uru_time_diff_def)
  have e: "(\<lambda>s. s, 5 + of_nat 23000000000) \<in> set ?turns" by simp
  obtain r where "wait_room_clock (\<lambda>x. x) 2000000000 5 5 ?turns 1 full_queue = Some r"
      "r = wait_room (in_time (\<lambda>x. x) 2000000000 5 5 ?turns) 1 full_queue"
    using send_wait_is_bounded [OF exact_ieee _ _ _ e, where freq = 2000000000 and dst_rank = 1 and s = full_queue] by force
  then show ?thesis using full unfolding i by simp
qed

section \<open>Waiting for a signal\<close>

text \<open>
  A turn: the state that the test of the loop sees, the reading with which a report starts anew, and the
  reading at the end. The result has the values that were reported, and that of \<open>unr_sig_wait\<close>.
\<close>

fun sig_wait_clock ::
  "(real \<Rightarrow> real) \<Rightarrow> real \<Rightarrow> unr_sig_t \<Rightarrow> u64 \<Rightarrow> u64 \<Rightarrow> (('z) unr_sig_state_scheme \<times> u64 \<times> u64) list \<Rightarrow>
   u64 list \<times> uru_status_t res option" where
  "sig_wait_clock rnd freq sg start now [] = ([], None)"
| "sig_wait_clock rnd freq sg start now ((s, again, now') # turns) =
     (case unr_sig_check sg s of
        Inl e \<Rightarrow> ([], Some (Inl e))
      | Inr st \<Rightarrow>
          if st = URU_SIGNAL_TRIGGERED then ([], Some (Inr URU_STATUS_OK))
          else if uru_time_diff rnd freq start now > 10 then
            (let (xs, r) = sig_wait_clock rnd freq sg again now' turns in
             ((case flags s (sig_flag_p sg) of None \<Rightarrow> 0 | Some f \<Rightarrow> counter f) # xs, r))
          else sig_wait_clock rnd freq sg start now' turns)"

text \<open>The clock changes nothing but the reports, and each report shows a counter that is not zero.\<close>

lemma sig_wait_clock_untimed:
  "snd (sig_wait_clock rnd freq sg start now turns) = unr_sig_wait sg (map fst turns)"
proof (induction turns arbitrary: start now)
  case (Cons t turns)
  then show ?case by (cases t) (auto simp: Let_def case_prod_beta split: sum.split)
qed simp

lemma sig_wait_reports:
  "\<forall>x \<in> set (fst (sig_wait_clock rnd freq sg start now turns)). x \<noteq> 0"
proof (induction turns arbitrary: start now)
  case (Cons t turns)
  obtain s again now' where t: "t = (s, again, now')" by (cases t)
  have "\<exists>f. flags s (sig_flag_p sg) = Some f \<and> counter f \<noteq> 0"
    if "unr_sig_check sg s = Inr st" "st \<noteq> URU_SIGNAL_TRIGGERED" for st
    using that by (auto simp: unr_sig_check_def split: option.splits if_splits)
  then show ?case using Cons.IH by (auto simp: t Let_def case_prod_beta split: sum.split)
qed simp

end
