(* ===== verification/Spec2Isabelle.thy ===== *)
theory Spec2Isabelle
  imports Uru_Realloc Unr_Sig_Pool Uri_Mpi_Start Uri_Verbs_Notify Unr_Verbs_Plan Unr_Handles Unr_Wait
begin

text \<open>
  UNR, a C library for remote memory access with notification: a process registers memory, exchanges
  the handles with all processes, describes blocks of it, and moves data between blocks with reads and
  writes that count down \<^emph>\<open>signals\<close> on both sides when they are done. This development models the
  library under \<open>src/src\<close> (all paths below are relative to it) and states what makes it correct.

  \<^bold>\<open>The program.\<close> Four layers. \<open>uru\<close> has status codes, a ring queue, reallocation and the \<^emph>\<open>flags\<close>,
  64-bit counters that completed transfers add to. \<open>uri\<close> is the channel layer: a registry of channels,
  each with a table of function pointers of its module, and dispatch functions that check that a
  channel is open. Two modules fill the tables: \<open>uri/mpi\<close>, where each write becomes a pair of MPI
  operations that the sender announces to the receiver by control messages, and \<open>uri/verbs\<close>, which
  posts work requests whose immediate data names the flag. \<open>unr\<close> is the public library: signals and
  pools of signals, the choice of channels, memory handles, and plans that split each transfer over
  several channels.

  \<^bold>\<open>Theories and the files they model.\<close>
  \<^item> \<open>Unr_Prelude\<close>: word types, fallible steps (\<open>res_bind\<close>, \<open>fold_res\<close>), generic lemmas.
  \<^item> \<open>Uru_Status\<close>: \<open>uru/type/uru_status.h\<close>, \<open>status.c\<close>, the assertions of \<open>uru/dev/dev.h\<close>.
  \<^item> \<open>Uru_Time\<close>: \<open>uru/sys/time.c\<close>; \<open>Unr_Wait\<close>: the two loops that look at the clock, in
    \<open>uri/verbs/uri_verbs_rdma.c\<close> and \<open>unr/base/unr_sig.c\<close>.
  \<^item> \<open>Uru_Layout\<close>: the structures of the headers as C types, with sizes, alignments and bytes;
    \<open>Unr_Handles\<close>: the public handles of \<open>unr/api/unr.h\<close> as bytes.
  \<^item> \<open>Uru_Queue\<close>: \<open>uru/type/queue.c\<close>, refined to a bounded FIFO (locale \<open>bounded_fifo\<close>).
  \<^item> \<open>Uru_Realloc\<close>: both builds of \<open>uru/sys/realloc.c\<close>.
  \<^item> \<open>Uru_Flag\<close>: \<open>uru/type/flag.c\<close>, \<open>uru/mpi/mpi.c\<close>, and the two ways in which a module adds to a
    flag.
  \<^item> \<open>Unr_Sig\<close>, \<open>Unr_Sig_Pool\<close>: \<open>unr/base/unr_sig.c\<close>.
  \<^item> \<open>Unr_Stripe\<close>, \<open>Unr_Stripe_Sig\<close>: the division of a transfer in \<open>unr/base/unr_blk.c\<close>, and what
    the stripes do to a signal.
  \<^item> \<open>Uri_Base\<close>: \<open>uri/base\<close> and \<open>tools/uri_info.c\<close>.
  \<^item> \<open>Uri_Mpi_Ids\<close>, \<open>Uri_Mpi_Channel\<close>, \<open>Uri_Mpi_Queue\<close>, \<open>Uri_Mpi_Proto\<close>, \<open>Uri_Mpi_Rdma\<close>,
    \<open>Uri_Mpi_Link\<close>, \<open>Uri_Mpi_Pair\<close>, \<open>Uri_Mpi_Start\<close>, \<open>Uri_Mpi_Room\<close>: \<open>uri/mpi\<close>; identifiers, daemon and control messages, the request queue across a run
    of the daemon, the protocol between a sender and a receiver as a step relation, creating, starting
    and destroying plans, that these send only what the protocol allows, that the two processes of a
    write post and start operations that fit together and add to their flags, and when creating
    succeeds.
  \<^item> \<open>Uri_Verbs\<close>, \<open>Uri_Verbs_Props\<close>, \<open>Uri_Verbs_Flow\<close>, \<open>Uri_Verbs_Notify\<close>: \<open>uri/verbs\<close>; the module, its
    requests and events, its flow control as a step relation together with the network card, and what
    its completions do to the flags.
  \<^item> \<open>Uri_Module\<close>: the locale \<open>channel_module\<close>, what the library relies on in a module, interpreted
    by both modules.
  \<^item> \<open>Unr_Channel\<close>, \<open>Unr_Channel_Props\<close>: \<open>unr/base/unr_channel.c\<close>, \<open>unr_def.h\<close>.
  \<^item> \<open>Unr_Mem\<close>, \<open>Unr_Mem_Props\<close>: \<open>unr/base/unr_mem.c\<close>.
  \<^item> \<open>Unr_Blk\<close>, \<open>Unr_Blk_Props\<close>: \<open>unr/base/unr_blk.c\<close>.
  \<^item> \<open>Unr_Run\<close>: the library as a state machine; \<open>Unr_Valid\<close>: what a caller of a plan has to see to, and the
    locale \<open>plan_maker\<close>, what creating a plan relies on in a module, interpreted by both modules;
    \<open>Unr_Mpi_Plan\<close> and \<open>Unr_Verbs_Plan\<close>: the library over channels of one module, from the call that
    creates a plan to the operations of the channels; \<open>Unr_Copy\<close>: the memories of all processes before
    and after a plan.
\<close>

text \<open>
  \<^bold>\<open>State and effects.\<close> Every function takes the state it reads and returns the state it leaves.
  \<open>uru_state\<close> holds flags and queues by address; \<open>uri_state\<close> adds the heads of memory handles, and each
  module extends it with its own tables (\<open>uri_mpi_state\<close>, \<open>uri_verbs_state\<close>); \<open>unr_base_state\<close> holds a
  module state, the registry, the tables of \<open>unr_channels_s\<close> and the heap of plans. A heap object lives
  at an address that is not used again after it is freed, so that a dangling pointer reads nothing.
  Machine integers keep their width (\<open>size_t\<close> and the counters are 64-bit words); a C \<open>int\<close> is an
  \<open>int\<close> with the conversions written out.

  \<^bold>\<open>How a run ends.\<close> A result is a sum. \<open>Inl\<close> says that the process left (a failed assertion, as in the
  build that \<open>fast/build.sh\<close> configures, or \<open>exit\<close>), that the C program has no defined behaviour any
  more (null, freed or out-of-range memory, division by zero, signed overflow), or, as \<open>NoReturn\<close>, that
  it stays in a loop. \<open>Inr\<close> carries the value and the new state.

  \<^bold>\<open>Loops and time.\<close> Loops over arrays are structural recursion or \<open>fold_res\<close>. The striping loop is a
  \<open>partial_function\<close>, proved to end for every size and every table of block sizes that \<open>unr_init\<close>
  accepts, and so is the calibration of the clock, proved to end on every clock that does not stand
  still. The compaction of the request queue recurses with a measure. Loops that wait for other
  threads or processes (\<open>unr_sig_wait\<close>, \<open>wait_room\<close>, closing an MPI channel, the daemon thread) recurse
  over a list of what happens meanwhile; running out of the list is the result \<open>None\<close> or the time-out
  of the code, never a success. Where the code reads the clock in such a loop, \<open>Unr_Wait\<close> has the loop
  with the readings and relates it to the one without; floating point is \<open>real\<close> with a rounding
  function after each operation, of which the theorems use that it is monotone and exact on the
  integers of 53 bits.

  \<^bold>\<open>Outside the program.\<close> MPI, the Verbs library, \<open>qsort\<close>, the allocator and the environment are
  arguments: calls are logged in order, and their answers are parameters with the documented behaviour
  as named hypotheses (\<open>qsort_spec\<close>, \<open>gathers\<close>, \<open>daemon_steps\<close>). Each property with hypotheses has a
  witness at a concrete input.
\<close>

text \<open>
  \<^bold>\<open>What is shown.\<close>
  \<^item> A transfer: its writes move each byte once and to the matching place, add one event to each signal,
    fit the arrays of the plan, and name handles from which their channels find both blocks; a signal
    reads zero exactly when all stripes of all its transfers have arrived. The striping loop ends and
    shares a transfer out in proportion to the block sizes. A deferred plan becomes the plan that
    making it later would give.
  \<^item> The whole way down: over MPI channels with room for tags, a plan whose blocks lie in their memories
    is created and can be started any number of times. Each write of a plan makes one operation in
    this process and one at the receiver, for the same bytes and with a tag that no other pair has;
    starting the plan starts both, and their completion adds to the flags of both sides what the write
    says. In whatever order the pairs complete, every block of the plan has been copied and no other
    byte has changed. The same holds over a Verbs channel: a plan is created, starting it posts its
    requests and no others while the send queues have room, and the requests do those copies.
  \<^item> Handles: \<open>unr_init\<close> lays out the parts of the channels without overlap; registering and exchanging
    keep what was registered; the bytes of a block handle fit the public type and give the block back;
    in every state of a run of the library all handles resolve and every
    plan has the channels that starting and destroying it needs.
  \<^item> The MPI module: a legal order of control messages never fails at the receiver, and creating,
    starting and destroying plans send only legal ones; identifiers are unique; the daemon loses no
    waiting operation; operations are grouped by receiver and stay in bounds.
  \<^item> The Verbs module: the send queues never overflow, the shared receive queue keeps its requests, and
    a write notifies both sides as a write over MPI does.
  \<^item> Signals, pools and queues: life cycle, exact detection, capacity, refinement of a FIFO.
  \<^item> Time: the rate of the cycle counter is measured over the first tenth of a second, whatever rounding
    does; the wait for room in a send queue ends and gives up only after ten seconds.
  \<^item> Defects that the model shows, as theorems: between the stripes of a transfer the overflow test of
    a signal exits; a striped transfer with a signal is refused by the Verbs module, which cannot
    register a second device either; a large request is cut to 32 bits; a bounds check wraps;
    destroying a running plan leaves dangling pointers; starting a transfer at once reads a freed plan;
    the default reallocation clears memory outside the block when it shrinks one.

  \<^bold>\<open>Not modelled.\<close> Spin locks (the operations they guard are single steps) and races outside them;
  logging and tracing (\<open>uru/dev/trace.h\<close>) and the compiler attributes of \<open>uru/sys/preprocessor.h\<close>, which
  are output and linkage; \<open>uri_verbs_print_device_attr\<close>, which only prints and is not called; the
  freeing of scratch arrays at the end of \<open>unr_rdma_plan_create\<close>, of which the array of
  transfer types is forgotten. The bytes of a handle behind its head are read and written by
  parameters of the exchange.
\<close>

end
